(* ===== verification/Std_Text.thy ===== *)
theory Std_Text
  imports Sq_Prelude
begin

text \<open>
  The parts of Rust's standard library the protocols rely on for text: digits and unsigned integer
  parsing and printing (\<open>char::to_digit\<close>, \<open>FromStr\<close> and \<open>Display\<close> of the unsigned types, the
  \<open>{:x}\<close> format), and UTF-8 validation (\<open>str::from_utf8\<close>, \<open>String::from_utf8_lossy\<close>).
\<close>


section \<open>Digits\<close>

definition to_digit :: "nat \<Rightarrow> char \<Rightarrow> nat option" where
  "to_digit r c =
     (let x = of_char c :: nat;
          d = (if 48 \<le> x \<and> x \<le> 57 then x - 48
               else if 97 \<le> x \<and> x \<le> 122 then x - 87
               else if 65 \<le> x \<and> x \<le> 90 then x - 55
               else r)
      in if d < r then Some d else None)"

definition digit_char :: "nat \<Rightarrow> char" where
  "digit_char d = char_of (if d < 10 then 48 + d else 87 + d)"

definition is_digit :: "nat \<Rightarrow> char \<Rightarrow> bool" where
  "is_digit r c \<longleftrightarrow> to_digit r c \<noteq> None"

definition digits_val :: "nat \<Rightarrow> string \<Rightarrow> nat" where
  "digits_val r s = foldl (\<lambda>a c. a * r + the (to_digit r c)) 0 s"

function show_radix :: "nat \<Rightarrow> nat \<Rightarrow> string" where
  "show_radix r n =
     (if r < 2 \<or> n < r then [digit_char n] else show_radix r (n div r) @ [digit_char (n mod r)])"
  by pat_completeness auto
termination
  by (relation "measure snd") (auto simp: div_less_dividend)

declare show_radix.simps [simp del]

abbreviation show_nat :: "nat \<Rightarrow> string" where
  "show_nat \<equiv> show_radix 10"

lemma to_digit_digit_char: "d < r \<Longrightarrow> r \<le> 16 \<Longrightarrow> to_digit r (digit_char d) = Some d"
  by (auto simp: to_digit_def digit_char_def Let_def)

lemma is_digit_digit_char: "d < r \<Longrightarrow> r \<le> 16 \<Longrightarrow> is_digit r (digit_char d)"
  by (simp add: is_digit_def to_digit_digit_char)

lemma to_digit_less: "to_digit r c = Some d \<Longrightarrow> d < r"
  by (auto simp: to_digit_def Let_def split: if_splits)

lemma to_digit_decimal: "to_digit 10 c = Some d \<Longrightarrow> digit_char d = c"
  by (auto simp: to_digit_def digit_char_def Let_def split: if_splits)

lemma digit_char_0: "digit_char 0 = CHR ''0''"
  by code_simp

lemma to_digit_zero [simp]: "0 < r \<Longrightarrow> to_digit r CHR ''0'' = Some 0"
  by (simp add: to_digit_def Let_def)

lemma digits_val_Nil [simp]: "digits_val r [] = 0"
  by (simp add: digits_val_def)

lemma digits_val_snoc [simp]: "digits_val r (s @ [c]) = digits_val r s * r + the (to_digit r c)"
  by (simp add: digits_val_def)

lemma show_radix_not_Nil [simp]: "show_radix r n \<noteq> []"
  by (subst show_radix.simps) simp

lemma digits_val_show_radix:
  assumes "2 \<le> r" "r \<le> 16"
  shows "digits_val r (show_radix r n) = n"
  using assms
proof (induction r n rule: show_radix.induct)
  case (1 r n)
  show ?case
  proof (cases "n < r")
    case True
    then show ?thesis
      using "1.prems" by (subst show_radix.simps) (simp add: digits_val_def to_digit_digit_char)
  next
    case False
    then show ?thesis
      using 1 by (subst show_radix.simps) (simp add: to_digit_digit_char)
  qed
qed

lemma show_radix_digits:
  assumes "2 \<le> r" "r \<le> 16"
  shows "\<forall>c \<in> set (show_radix r n). is_digit r c"
  using assms
proof (induction r n rule: show_radix.induct)
  case (1 r n)
  then show ?case
    by (subst show_radix.simps) (auto simp: is_digit_digit_char)
qed

lemma length_show_radix:
  assumes "2 \<le> r" "n < r ^ k" "0 < k"
  shows "length (show_radix r n) \<le> k"
  using assms
proof (induction r n arbitrary: k rule: show_radix.induct)
  case (1 r n)
  show ?case
  proof (cases "n < r")
    case True
    then show ?thesis
      using "1.prems" by (subst show_radix.simps) simp
  next
    case False
    have "k \<noteq> 1"
      using False "1.prems"(2) by auto
    then obtain j where k: "k = Suc j" "0 < j"
      using "1.prems"(3) by (cases k) auto
    have "n div r < r ^ j"
      using "1.prems"(1,2) by (simp add: k div_less_iff_less_mult mult.commute)
    then have "length (show_radix r (n div r)) \<le> j"
      using "1.IH" [of j] False "1.prems"(1) k(2) by simp
    then show ?thesis
      using False "1.prems"(1) by (subst show_radix.simps) (simp add: k)
  qed
qed

lemma show_radix_leading_zero:
  assumes "2 \<le> r" "r \<le> 16" "hd (show_radix r n) = CHR ''0''"
  shows "length (show_radix r n) = 1"
  using assms
proof (induction r n rule: show_radix.induct)
  case (1 r n)
  show ?case
  proof (cases "n < r")
    case True
    then show ?thesis by (subst show_radix.simps) simp
  next
    case False
    let ?s = "show_radix r (n div r)"
    have step: "show_radix r n = ?s @ [digit_char (n mod r)]"
      using False "1.prems"(1) by (subst show_radix.simps) simp
    have hd: "hd ?s = CHR ''0''"
      using "1.prems"(3) step by simp
    then have "length ?s = 1"
      using 1 False by simp
    then have "?s = [CHR ''0'']"
      using hd by (cases ?s) auto
    then have "n div r = 0"
      using digits_val_show_radix [OF "1.prems"(1,2), of "n div r"] "1.prems"(1)
      by (simp add: digits_val_def)
    then show ?thesis
      using False "1.prems"(1) by (simp add: div_eq_0_iff)
  qed
qed

text \<open>A digit string without a leading zero is the decimal display of its value.\<close>

lemma digits_val_pos:
  "ds \<noteq> [] \<Longrightarrow> \<forall>c \<in> set ds. is_digit 10 c \<Longrightarrow> hd ds \<noteq> CHR ''0'' \<Longrightarrow> 0 < digits_val 10 ds"
proof (induction ds rule: rev_induct)
  case (snoc c ds)
  show ?case
  proof (cases "ds = []")
    case True
    obtain d where d: "to_digit 10 c = Some d"
      using snoc.prems(2) by (auto simp: is_digit_def)
    have "d \<noteq> 0"
      using to_digit_decimal [OF d] snoc.prems(3) True digit_char_0 by (cases "d = 0") auto
    then show ?thesis
      using True d by (simp add: digits_val_def)
  next
    case False
    then show ?thesis
      using snoc by simp
  qed
qed simp

lemma show_digits_val:
  "ds \<noteq> [] \<Longrightarrow> \<forall>c \<in> set ds. is_digit 10 c \<Longrightarrow> hd ds \<noteq> CHR ''0'' \<or> length ds = 1 \<Longrightarrow>
   show_nat (digits_val 10 ds) = ds"
proof (induction ds rule: rev_induct)
  case (snoc c ds)
  obtain d where d: "to_digit 10 c = Some d" "d < 10" "digit_char d = c"
    using snoc.prems(2) to_digit_less to_digit_decimal by (auto simp: is_digit_def)
  show ?case
  proof (cases "ds = []")
    case True
    then show ?thesis
      using d by (subst show_radix.simps) (simp add: digits_val_def)
  next
    case False
    then have hd: "hd ds \<noteq> CHR ''0''" and dig: "\<forall>c \<in> set ds. is_digit 10 c"
      using snoc.prems by auto
    have "0 < digits_val 10 ds"
      using digits_val_pos False dig hd by blast
    moreover have "show_nat (digits_val 10 ds) = ds"
      using snoc.IH False dig hd by blast
    ultimately show ?thesis
      using d by (subst show_radix.simps) simp
  qed
qed simp


section \<open>Unsigned integers\<close>

text \<open>
  \<open>str::parse\<close> for an unsigned type whose values are below \<open>bound\<close>: an optional plus sign, at least
  one digit, and no overflow at any step.
\<close>

fun parse_digits :: "nat \<Rightarrow> nat \<Rightarrow> string \<Rightarrow> nat option" where
  "parse_digits bound acc [] = Some acc"
| "parse_digits bound acc (c # cs) = (case to_digit 10 c of
       None \<Rightarrow> None
     | Some d \<Rightarrow> if acc * 10 + d < bound then parse_digits bound (acc * 10 + d) cs else None)"

definition parse_uint :: "nat \<Rightarrow> string \<Rightarrow> nat option" where
  "parse_uint bound s = (case s of
       [] \<Rightarrow> None
     | c # cs \<Rightarrow> if c = CHR ''+'' \<and> cs \<noteq> [] then parse_digits bound 0 cs else parse_digits bound 0 s)"

lemma parse_digits_value:
  assumes "\<forall>c \<in> set s. is_digit 10 c"
    "foldl (\<lambda>a c. a * 10 + the (to_digit 10 c)) acc s < bound"
  shows "parse_digits bound acc s = Some (foldl (\<lambda>a c. a * 10 + the (to_digit 10 c)) acc s)"
  using assms
proof (induction s arbitrary: acc)
  case (Cons c s)
  obtain d where d: "to_digit 10 c = Some d"
    using Cons.prems(1) by (auto simp: is_digit_def)
  have mono: "a \<le> foldl (\<lambda>a c. a * 10 + the (to_digit 10 c)) a t" for a and t :: string
  proof (induction t arbitrary: a)
    case (Cons c t)
    have "a \<le> a * 10 + the (to_digit 10 c)" by simp
    also note Cons.IH
    finally show ?case by simp
  qed simp
  have "acc * 10 + d < bound"
    using Cons.prems(2) mono [of "acc * 10 + d" s] d by simp
  then show ?case
    using Cons d by simp
qed simp

lemma parse_uint_show_nat [simp]: "n < bound \<Longrightarrow> parse_uint bound (show_nat n) = Some n"
proof -
  assume n: "n < bound"
  obtain c cs where s: "show_nat n = c # cs"
    by (cases "show_nat n") auto
  have dig: "\<forall>c \<in> set (show_nat n). is_digit 10 c"
    by (rule show_radix_digits) simp_all
  have "c \<noteq> CHR ''+''"
    using dig s by (auto simp: is_digit_def to_digit_def)
  then have "parse_uint bound (show_nat n) = parse_digits bound 0 (show_nat n)"
    by (simp add: parse_uint_def s)
  also have "\<dots> = Some n"
    using parse_digits_value [OF dig, of 0 bound] digits_val_show_radix [of 10 n] n
    by (simp add: digits_val_def)
  finally show ?thesis .
qed

lemma parse_digits_bound: "acc < bound \<Longrightarrow> parse_digits bound acc s = Some n \<Longrightarrow> n < bound"
  by (induction s arbitrary: acc) (auto split: option.splits if_splits)

lemma parse_uint_bound: "parse_uint bound s = Some n \<Longrightarrow> 0 < bound \<Longrightarrow> n < bound"
  using parse_digits_bound [of 0 bound "tl s" n] parse_digits_bound [of 0 bound s n]
  by (auto simp del: parse_digits.simps simp: parse_uint_def split: list.splits if_splits)


section \<open>UTF-8\<close>

text \<open>
  \<open>utf8_next b bs\<close> looks at the sequence that starts with the byte \<open>b\<close>: whether it is a well-formed
  character, and how many bytes the character, or the longest ill-formed prefix, takes. A byte past
  the end counts as 0, which continues no sequence.
\<close>

definition byte_at :: "bytes \<Rightarrow> nat \<Rightarrow> u8" where
  "byte_at bs i = (if i < length bs then bs ! i else 0)"

definition is_cont :: "u8 \<Rightarrow> bool" where
  "is_cont b \<longleftrightarrow> 0x80 \<le> b \<and> b \<le> 0xBF"

definition second_of_3 :: "u8 \<Rightarrow> u8 \<Rightarrow> bool" where
  "second_of_3 b c \<longleftrightarrow>
     (if b = 0xE0 then 0xA0 \<le> c \<and> c \<le> 0xBF
      else if b = 0xED then 0x80 \<le> c \<and> c \<le> 0x9F
      else is_cont c)"

definition second_of_4 :: "u8 \<Rightarrow> u8 \<Rightarrow> bool" where
  "second_of_4 b c \<longleftrightarrow>
     (if b = 0xF0 then 0x90 \<le> c \<and> c \<le> 0xBF
      else if b = 0xF4 then 0x80 \<le> c \<and> c \<le> 0x8F
      else is_cont c)"

definition utf8_next :: "u8 \<Rightarrow> bytes \<Rightarrow> bool \<times> nat" where
  "utf8_next b bs =
     (if b < 0x80 then (True, 1)
      else if 0xC2 \<le> b \<and> b \<le> 0xDF then
        (if is_cont (byte_at bs 0) then (True, 2) else (False, 1))
      else if 0xE0 \<le> b \<and> b \<le> 0xEF then
        (if \<not> second_of_3 b (byte_at bs 0) then (False, 1)
         else if \<not> is_cont (byte_at bs 1) then (False, 2)
         else (True, 3))
      else if 0xF0 \<le> b \<and> b \<le> 0xF4 then
        (if \<not> second_of_4 b (byte_at bs 0) then (False, 1)
         else if \<not> is_cont (byte_at bs 1) then (False, 2)
         else if \<not> is_cont (byte_at bs 2) then (False, 3)
         else (True, 4))
      else (False, 1))"

lemma utf8_next_pos: "utf8_next b bs = (ok, n) \<Longrightarrow> 0 < n"
  by (auto simp: utf8_next_def split: if_splits)

lemma second_is_cont: "second_of_3 b c \<Longrightarrow> is_cont c" "second_of_4 b c \<Longrightarrow> is_cont c"
  by (auto simp: second_of_3_def second_of_4_def is_cont_def split: if_splits)
    (auto simp: word_le_nat_alt)

lemma is_cont_in_range: "is_cont (byte_at bs i) \<Longrightarrow> i < length bs"
  by (rule ccontr) (simp add: byte_at_def is_cont_def)

lemma utf8_next_length: "utf8_next b bs = (True, n) \<Longrightarrow> n \<le> length (b # bs)"
  by (auto simp: utf8_next_def Suc_le_eq dest!: is_cont_in_range second_is_cont split: if_splits)

function utf8_valid :: "bytes \<Rightarrow> bool" where
  "utf8_valid [] = True"
| "utf8_valid (b # bs) =
     (fst (utf8_next b bs) \<and> utf8_valid (drop (snd (utf8_next b bs)) (b # bs)))"
  by pat_completeness auto
termination
proof (relation "measure length")
  show "(drop (snd (utf8_next b bs)) (b # bs), b # bs) \<in> measure length" for b bs
    using utf8_next_pos [of b bs] by (cases "utf8_next b bs") auto
qed simp

function utf8_lossy :: "bytes \<Rightarrow> bytes" where
  "utf8_lossy [] = []"
| "utf8_lossy (b # bs) =
     (let n = snd (utf8_next b bs)
      in (if fst (utf8_next b bs) then take n (b # bs) else [0xEF, 0xBF, 0xBD])
         @ utf8_lossy (drop n (b # bs)))"
  by pat_completeness auto
termination
proof (relation "measure length")
  show "x = snd (utf8_next b bs) \<Longrightarrow> (drop x (b # bs), b # bs) \<in> measure length" for b bs x
    using utf8_next_pos [of b bs] by (cases "utf8_next b bs") auto
qed simp

definition from_utf8 :: "bytes \<Rightarrow> string option" where
  "from_utf8 bs = (if utf8_valid bs then Some (string_of_bytes bs) else None)"

definition from_utf8_lossy :: "bytes \<Rightarrow> string" where
  "from_utf8_lossy bs = string_of_bytes (utf8_lossy bs)"

definition is_ascii :: "string \<Rightarrow> bool" where
  "is_ascii s \<longleftrightarrow> (\<forall>c \<in> set s. byte_of_char c < 0x80)"

text \<open>A string of the program is well-formed UTF-8.\<close>

definition utf8_string :: "string \<Rightarrow> bool" where
  "utf8_string s \<longleftrightarrow> utf8_valid (as_bytes s)"

lemma utf8_lossy_valid: "utf8_valid bs \<Longrightarrow> utf8_lossy bs = bs"
proof (induction bs rule: utf8_valid.induct)
  case (2 b bs)
  then show ?case
    by (simp add: Let_def)
qed simp

lemma from_utf8_as_bytes [simp]: "utf8_string s \<Longrightarrow> from_utf8 (as_bytes s) = Some s"
  by (simp add: from_utf8_def utf8_string_def)

lemma from_utf8_lossy_as_bytes [simp]: "utf8_string s \<Longrightarrow> from_utf8_lossy (as_bytes s) = s"
  by (simp add: from_utf8_lossy_def utf8_string_def utf8_lossy_valid)

lemma from_utf8_SomeD: "from_utf8 bs = Some s \<Longrightarrow> utf8_string s \<and> as_bytes s = bs"
  by (auto simp: from_utf8_def utf8_string_def split: if_splits)

lemma ascii_utf8_valid: "\<forall>b \<in> set bs. b < 0x80 \<Longrightarrow> utf8_valid bs"
  by (induction bs) (simp_all add: utf8_next_def)

lemma ascii_utf8_string: "is_ascii s \<Longrightarrow> utf8_string s"
  by (simp add: is_ascii_def utf8_string_def as_bytes_def ascii_utf8_valid)


lemma utf8_next_append:
  assumes "utf8_next b bs = (True, n)"
  shows "utf8_next b (bs @ cs) = (True, n)"
proof -
  have at: "byte_at (bs @ cs) i = byte_at bs i" if "is_cont (byte_at bs i)" for i
    using is_cont_in_range [OF that] by (simp add: byte_at_def nth_append)
  show ?thesis
    using assms at [of 0] at [of 1] at [of 2] second_is_cont
    by (auto simp: utf8_next_def split: if_splits)
qed

lemma utf8_valid_append: "utf8_valid as \<Longrightarrow> utf8_valid (as @ bs) \<longleftrightarrow> utf8_valid bs"
proof (induction as rule: utf8_valid.induct)
  case (2 b as)
  then obtain n where n: "utf8_next b as = (True, n)" and tl: "utf8_valid (drop n (b # as))"
    by (cases "utf8_next b as") auto
  have "drop n (b # as @ bs) = drop n (b # as) @ bs"
    using utf8_next_length [OF n] drop_append [of n "b # as" bs] by simp
  then show ?case
    using 2 n tl utf8_next_append [OF n] by simp
qed simp

lemma utf8_string_append: "utf8_string s \<Longrightarrow> utf8_string (s @ t) \<longleftrightarrow> utf8_string t"
  by (simp add: utf8_string_def utf8_valid_append)

lemma show_nat_ascii: "is_ascii (show_nat n)"
proof -
  have "byte_of_char c < 0x80" if "is_digit 10 c" for c
  proof -
    have "of_char c < (58 :: nat)"
      using that by (auto simp: is_digit_def to_digit_def Let_def split: if_splits)
    then show ?thesis
      by (simp add: word_less_nat_alt unat_byte_of_char)
  qed
  then show ?thesis
    using show_radix_digits [of 10 n] by (simp add: is_ascii_def)
qed

end
