(* ===== verification/Std_Net.thy ===== *)
theory Std_Net
  imports Std_Text "HOL-Library.Monad_Syntax"
begin

text \<open>
  The addresses of \<open>std::net\<close>: \<open>Display\<close> and \<open>FromStr\<close> of \<open>IpAddr\<close> and \<open>SocketAddr\<close>. A parser takes
  the remaining text and returns a value with what is left of it; a failed parser consumes nothing,
  so the library's atomic reads are plain case distinctions. The main results are that the display
  of an address parses back to it, for IPv4 and for every form of IPv6, and that an accepted IPv4
  text is the display of its value.
\<close>

datatype ip_addr = V4 "32 word" | V6 "128 word"

record socket_addr =
  ip :: ip_addr
  sport :: u16


section \<open>Display\<close>

fun join :: "char \<Rightarrow> string list \<Rightarrow> string" where
  "join c [] = []"
| "join c (x # xs) = x @ concat (map (Cons c) xs)"

definition show_ipv4 :: "32 word \<Rightarrow> string" where
  "show_ipv4 a = join CHR ''.'' (map (\<lambda>b. show_nat (unat b)) (to_be_bytes a))"

fun seg_pairs :: "bytes \<Rightarrow> u16 list" where
  "seg_pairs (a # b # bs) = from_be_bytes [a, b] # seg_pairs bs"
| "seg_pairs bs = []"

definition segments :: "128 word \<Rightarrow> u16 list" where
  "segments a = seg_pairs (to_be_bytes a)"

definition of_segments :: "u16 list \<Rightarrow> 128 word" where
  "of_segments ss = from_be_bytes (concat (map to_be_bytes ss))"

definition to_ipv4_mapped :: "128 word \<Rightarrow> 32 word option" where
  "to_ipv4_mapped a =
     (let os = to_be_bytes a
      in if take 12 os = replicate 10 0 @ [0xff, 0xff] then Some (from_be_bytes (drop 12 os)) else None)"

text \<open>The first longest run of zero segments, as its start and its length.\<close>

fun zeroes_loop :: "nat \<Rightarrow> nat \<times> nat \<Rightarrow> nat \<times> nat \<Rightarrow> u16 list \<Rightarrow> nat \<times> nat" where
  "zeroes_loop i longest current [] = longest"
| "zeroes_loop i longest current (s # ss) =
     (if s = 0 then
        let current' = (if snd current = 0 then i else fst current, Suc (snd current));
            longest' = (if snd current' > snd longest then current' else longest)
        in zeroes_loop (Suc i) longest' current' ss
      else zeroes_loop (Suc i) longest (0, 0) ss)"

definition fmt_subslice :: "u16 list \<Rightarrow> string" where
  "fmt_subslice ss = join CHR '':'' (map (\<lambda>s. show_radix 16 (unat s)) ss)"

definition show_ipv6 :: "128 word \<Rightarrow> string" where
  "show_ipv6 a = (case to_ipv4_mapped a of
       Some v4 \<Rightarrow> ''::ffff:'' @ show_ipv4 v4
     | None \<Rightarrow>
         (let ss = segments a; z = zeroes_loop 0 (0, 0) (0, 0) ss
          in if snd z > 1
             then fmt_subslice (take (fst z) ss) @ ''::'' @ fmt_subslice (drop (fst z + snd z) ss)
             else fmt_subslice ss))"

fun show_ip :: "ip_addr \<Rightarrow> string" where
  "show_ip (V4 a) = show_ipv4 a"
| "show_ip (V6 a) = show_ipv6 a"


section \<open>Parsing\<close>

definition read_given :: "char \<Rightarrow> string \<Rightarrow> string option" where
  "read_given c s = (case s of [] \<Rightarrow> None | x # xs \<Rightarrow> if x = c then Some xs else None)"

definition read_sep :: "char \<Rightarrow> nat \<Rightarrow> (string \<Rightarrow> 'a option) \<Rightarrow> string \<Rightarrow> 'a option" where
  "read_sep c i p s = (if i > 0 then do { s \<leftarrow> read_given c s; p s } else p s)"

definition read_number :: "nat \<Rightarrow> nat option \<Rightarrow> bool \<Rightarrow> nat \<Rightarrow> string \<Rightarrow> (nat \<times> string) option" where
  "read_number r max_digits allow_zero_prefix bound s =
     (let ds = takeWhile (is_digit r) s; v = digits_val r ds
      in if ds = [] \<or> (case max_digits of None \<Rightarrow> False | Some m \<Rightarrow> m < length ds)
            \<or> (\<not> allow_zero_prefix \<and> hd ds = CHR ''0'' \<and> 1 < length ds) \<or> bound \<le> v
         then None else Some (v, dropWhile (is_digit r) s))"

fun read_octets :: "nat \<Rightarrow> nat \<Rightarrow> string \<Rightarrow> (bytes \<times> string) option" where
  "read_octets 0 i s = Some ([], s)"
| "read_octets (Suc k) i s = do {
     (n, s) \<leftarrow> read_sep CHR ''.'' i (read_number 10 (Some 3) False 256) s;
     (ns, s) \<leftarrow> read_octets k (Suc i) s;
     Some (word_of_nat n # ns, s) }"

definition read_ipv4 :: "string \<Rightarrow> (32 word \<times> string) option" where
  "read_ipv4 s = do { (os, s) \<leftarrow> read_octets 4 0 s; Some (from_be_bytes os, s) }"

text \<open>
  \<open>read_groups k i s\<close> fills \<open>k\<close> more slots, the next one being number \<open>i\<close>; the flag says that the
  last two came from an embedded IPv4 address.
\<close>

fun read_groups :: "nat \<Rightarrow> nat \<Rightarrow> string \<Rightarrow> u16 list \<times> bool \<times> string" where
  "read_groups 0 i s = ([], False, s)"
| "read_groups (Suc k) i s =
     (case (if 1 \<le> k then read_sep CHR '':'' i read_ipv4 s else None) of
        Some (v4, s) \<Rightarrow> (seg_pairs (to_be_bytes v4), True, s)
      | None \<Rightarrow>
          (case read_sep CHR '':'' i (read_number 16 (Some 4) True 65536) s of
             None \<Rightarrow> ([], False, s)
           | Some (g, s) \<Rightarrow>
               (case read_groups k (Suc i) s of (gs, b, s) \<Rightarrow> (word_of_nat g # gs, b, s))))"

definition read_ipv6 :: "string \<Rightarrow> (128 word \<times> string) option" where
  "read_ipv6 s =
     (case read_groups 8 0 s of (head, head_ipv4, s) \<Rightarrow>
        if length head = 8 then Some (of_segments head, s)
        else if head_ipv4 then None
        else do {
          s \<leftarrow> read_given CHR '':'' s;
          s \<leftarrow> read_given CHR '':'' s;
          (case read_groups (8 - (length head + 1)) 0 s of (tail, _, s) \<Rightarrow>
             Some (of_segments (head @ replicate (8 - length head - length tail) 0 @ tail), s)) })"

definition read_ip :: "string \<Rightarrow> (ip_addr \<times> string) option" where
  "read_ip s = (case read_ipv4 s of
       Some (a, s) \<Rightarrow> Some (V4 a, s)
     | None \<Rightarrow> do { (a, s) \<leftarrow> read_ipv6 s; Some (V6 a, s) })"

definition read_port :: "string \<Rightarrow> (nat \<times> string) option" where
  "read_port s = do { s \<leftarrow> read_given CHR '':'' s; read_number 10 None True 65536 s }"

definition read_scope_id :: "string \<Rightarrow> (nat \<times> string) option" where
  "read_scope_id s = do { s \<leftarrow> read_given CHR ''%'' s; read_number 10 None True 4294967296 s }"

definition read_socket_addr_v4 :: "string \<Rightarrow> (socket_addr \<times> string) option" where
  "read_socket_addr_v4 s = do {
     (a, s) \<leftarrow> read_ipv4 s;
     (p, s) \<leftarrow> read_port s;
     Some (\<lparr>ip = V4 a, sport = word_of_nat p\<rparr>, s) }"

definition read_socket_addr_v6 :: "string \<Rightarrow> (socket_addr \<times> string) option" where
  "read_socket_addr_v6 s = do {
     s \<leftarrow> read_given CHR ''['' s;
     (a, s) \<leftarrow> read_ipv6 s;
     s \<leftarrow> Some (case read_scope_id s of None \<Rightarrow> s | Some (_, s) \<Rightarrow> s);
     s \<leftarrow> read_given CHR '']'' s;
     (p, s) \<leftarrow> read_port s;
     Some (\<lparr>ip = V6 a, sport = word_of_nat p\<rparr>, s) }"

definition read_socket_addr :: "string \<Rightarrow> (socket_addr \<times> string) option" where
  "read_socket_addr s = (case read_socket_addr_v4 s of Some x \<Rightarrow> Some x | None \<Rightarrow> read_socket_addr_v6 s)"

text \<open>\<open>FromStr\<close> accepts a parser's value only if it used the whole text.\<close>

definition parse_with :: "(string \<Rightarrow> ('a \<times> string) option) \<Rightarrow> string \<Rightarrow> 'a option" where
  "parse_with p s = (case p s of Some (x, []) \<Rightarrow> Some x | _ \<Rightarrow> None)"

definition parse_ip :: "string \<Rightarrow> ip_addr option" where
  "parse_ip = parse_with read_ip"

definition parse_socket_addr :: "string \<Rightarrow> socket_addr option" where
  "parse_socket_addr = parse_with read_socket_addr"


section \<open>Numbers in context\<close>

definition stops :: "nat \<Rightarrow> string \<Rightarrow> bool" where
  "stops r t \<longleftrightarrow> t = [] \<or> \<not> is_digit r (hd t)"

lemma stops_simps [simp]: "stops r []" "stops r (c # t) \<longleftrightarrow> \<not> is_digit r c"
  by (simp_all add: stops_def)

lemma not_digit_separators [simp]:
  "\<not> is_digit 10 CHR ''.''" "\<not> is_digit 10 CHR '':''" "\<not> is_digit 16 CHR '':''"
  "\<not> is_digit 16 CHR '']''" "\<not> is_digit 10 CHR ''[''" "\<not> is_digit 16 CHR ''[''"
  "\<not> is_digit 16 CHR ''%''" "\<not> is_digit 16 CHR ''.''" "\<not> is_digit 10 CHR '']''"
  by (simp_all add: is_digit_def to_digit_def)

lemma digit_span:
  assumes "\<forall>c \<in> set ds. is_digit r c" "stops r t"
  shows "takeWhile (is_digit r) (ds @ t) = ds" "dropWhile (is_digit r) (ds @ t) = t"
  using assms by (cases t; simp add: takeWhile_append2 dropWhile_append2)+

lemma read_number_show:
  assumes "2 \<le> r" "r \<le> 16" "n < bound" "stops r t" "\<And>m. max_digits = Some m \<Longrightarrow> 0 < m \<and> n < r ^ m"
  shows "read_number r max_digits zp bound (show_radix r n @ t) = Some (n, t)"
proof -
  have dig: "\<forall>c \<in> set (show_radix r n). is_digit r c"
    by (rule show_radix_digits [OF assms(1,2)])
  have "\<not> m < length (show_radix r n)" if "max_digits = Some m" for m
    using length_show_radix [OF assms(1), of n m] assms(5) [OF that] by simp
  then have "\<not> (case max_digits of None \<Rightarrow> False | Some m \<Rightarrow> m < length (show_radix r n))"
    by (cases max_digits) simp_all
  moreover have "\<not> (hd (show_radix r n) = CHR ''0'' \<and> 1 < length (show_radix r n))"
    using show_radix_leading_zero [OF assms(1,2), of n] by auto
  ultimately show ?thesis
    using digits_val_show_radix [OF assms(1,2), of n] assms(3)
    by (auto simp: read_number_def digit_span [OF dig assms(4)] Let_def)
qed

lemma read_number_canonical:
  assumes "read_number 10 (Some 3) False bound s = Some (n, t)"
  shows "s = show_nat n @ t \<and> n < bound \<and> stops 10 t"
proof -
  let ?ds = "takeWhile (is_digit 10) s"
  have ne: "?ds \<noteq> []" and zero: "hd ?ds \<noteq> CHR ''0'' \<or> length ?ds = 1"
    and n: "n = digits_val 10 ?ds" "n < bound" and t: "t = dropWhile (is_digit 10) s"
    using assms by (auto simp: read_number_def Let_def not_less Suc_le_eq le_Suc_eq split: if_splits)
  have "\<forall>c \<in> set ?ds. is_digit 10 c"
    by (auto dest: set_takeWhileD)
  then have "show_nat n = ?ds"
    unfolding n(1) using ne zero by (intro show_digits_val)
  moreover have "stops 10 t"
    unfolding t stops_def by (metis hd_dropWhile)
  ultimately show ?thesis
    using n(2) t by simp
qed

lemma read_number_no_digit: "stops r s \<Longrightarrow> read_number r m zp bound s = None"
  by (cases s) (auto simp: read_number_def)

lemma read_given_Cons [simp]: "read_given c (x # xs) = (if x = c then Some xs else None)" "read_given c [] = None"
  by (simp_all add: read_given_def)

lemma read_given_Some: "read_given c s = Some t \<longleftrightarrow> s = c # t"
  by (cases s) auto

lemma read_sep_simps [simp]: "read_sep c 0 p s = p s" "read_sep c (Suc i) p (c # s) = p s"
  "read_sep c (Suc i) p [] = None"
  "x \<noteq> c \<Longrightarrow> read_sep c (Suc i) p (x # s) = None"
  by (simp_all add: read_sep_def)


section \<open>IPv4\<close>

abbreviation octet_text :: "u8 \<Rightarrow> string" where
  "octet_text b \<equiv> show_nat (unat b)"

lemma read_octet_text:
  "stops 10 t \<Longrightarrow> read_number 10 (Some 3) False 256 (octet_text b @ t) = Some (unat b, t)"
  using unat_u8_less [of b] by (intro read_number_show) auto

lemma stops_dotted: "stops 10 t \<Longrightarrow> stops 10 (concat (map (\<lambda>b. CHR ''.'' # octet_text b) os) @ t)"
  by (cases os) simp_all

lemma read_octets_tail:
  "stops 10 t \<Longrightarrow>
   read_octets (length os) (Suc i) (concat (map (\<lambda>b. CHR ''.'' # octet_text b) os) @ t) = Some (os, t)"
  by (induction os arbitrary: i) (simp_all add: read_octet_text stops_dotted)

lemma join_map: "join c (map f (x # xs)) = f x @ concat (map (\<lambda>y. c # f y) xs)"
  by (simp add: comp_def)

lemma read_octets_join:
  assumes "stops 10 t" "os \<noteq> []"
  shows "read_octets (length os) 0 (join CHR ''.'' (map octet_text os) @ t) = Some (os, t)"
proof -
  obtain b bs where "os = b # bs"
    using assms(2) by (cases os) simp_all
  then show ?thesis
    using assms(1) by (simp add: join_map read_octet_text stops_dotted read_octets_tail comp_def)
qed

lemma read_ipv4_show: "stops 10 t \<Longrightarrow> read_ipv4 (show_ipv4 a @ t) = Some (a, t)"
proof -
  assume "stops 10 t"
  moreover have "to_be_bytes a \<noteq> []" "length (to_be_bytes a) = 4"
    by (simp_all flip: length_0_conv)
  ultimately have "read_octets 4 0 (show_ipv4 a @ t) = Some (to_be_bytes a, t)"
    unfolding show_ipv4_def using read_octets_join [of t "to_be_bytes a"] by simp
  then show ?thesis
    by (simp add: read_ipv4_def)
qed

lemma read_ipv4_no_octet: "stops 10 s \<Longrightarrow> read_ipv4 s = None"
proof -
  assume "stops 10 s"
  then have "read_octets (Suc 3) 0 s = None"
    unfolding read_octets.simps by (simp add: read_number_no_digit)
  then show ?thesis
    by (simp add: read_ipv4_def)
qed

lemma read_octets_tail_canonical:
  "read_octets k (Suc i) s = Some (os, t) \<Longrightarrow>
   s = concat (map (\<lambda>b. CHR ''.'' # octet_text b) os) @ t \<and> length os = k"
proof (induction k arbitrary: i s os)
  case (Suc k)
  from Suc.prems obtain u n v ns where
    u: "s = CHR ''.'' # u" and n: "read_number 10 (Some 3) False 256 u = Some (n, v)"
    and ns: "read_octets k (Suc (Suc i)) v = Some (ns, t)" and os: "os = word_of_nat n # ns"
    by (auto simp: read_sep_def read_given_Some split: bind_splits)
  have "u = show_nat n @ v" "n < 256"
    using read_number_canonical [OF n] by simp_all
  moreover have "v = concat (map (\<lambda>b. CHR ''.'' # octet_text b) ns) @ t" "length ns = k"
    using Suc.IH [OF ns] by simp_all
  ultimately show ?case
    by (simp add: u os unat_word_of_nat_u8)
qed auto

lemma read_ipv4_canonical: "read_ipv4 s = Some (a, t) \<Longrightarrow> s = show_ipv4 a @ t"
proof -
  assume "read_ipv4 s = Some (a, t)"
  then obtain os where os: "read_octets (Suc 3) 0 s = Some (os, t)" and a: "a = from_be_bytes os"
    by (auto simp: read_ipv4_def numeral_eq_Suc split: bind_splits)
  from os obtain n u ns where n: "read_number 10 (Some 3) False 256 s = Some (n, u)"
    and ns: "read_octets 3 (Suc 0) u = Some (ns, t)" and os': "os = word_of_nat n # ns"
    unfolding read_octets.simps by (auto split: bind_splits)
  have s: "s = show_nat n @ u" "n < 256"
    using read_number_canonical [OF n] by simp_all
  have u: "u = concat (map (\<lambda>b. CHR ''.'' # octet_text b) ns) @ t" "length ns = 3"
    using read_octets_tail_canonical [OF ns] by simp_all
  have "to_be_bytes a = os"
    unfolding a by (rule to_from_be_bytes) (simp add: os' u(2))
  then show ?thesis
    by (simp add: show_ipv4_def os' join_map s u unat_word_of_nat_u8 comp_def)
qed

lemma length_4_conv: "length xs = 4 \<Longrightarrow> \<exists>a b c d. xs = [a, b, c, d]"
  by (auto simp: eval_nat_numeral length_Suc_conv)

lemma four_octets: "\<exists>a b c d. to_be_bytes (w :: 32 word) = [a, b, c, d]"
  by (rule length_4_conv) simp

lemma read_ipv4_dot: "read_ipv4 s = Some p \<Longrightarrow> CHR ''.'' \<in> set s"
proof -
  assume "read_ipv4 s = Some p"
  then have "s = show_ipv4 (fst p) @ snd p"
    by (intro read_ipv4_canonical) simp
  moreover have "CHR ''.'' \<in> set (show_ipv4 (fst p))"
  proof -
    obtain b c d e where "to_be_bytes (fst p) = [b, c, d, e]"
      using four_octets by blast
    then show ?thesis by (simp add: show_ipv4_def join_map)
  qed
  ultimately show ?thesis by simp
qed


section \<open>IPv6\<close>

abbreviation group_text :: "u16 \<Rightarrow> string" where
  "group_text g \<equiv> show_radix 16 (unat g)"

lemma read_group_text:
  "stops 16 t \<Longrightarrow> read_number 16 (Some 4) True 65536 (group_text g @ t) = Some (unat g, t)"
  using unat_u16_less [of g] by (intro read_number_show) auto

lemma group_text_no_dot: "CHR ''.'' \<notin> set (group_text g)"
  using show_radix_digits [of 16 "unat g"] not_digit_separators(8) by fastforce

text \<open>What ends a list of groups: no embedded IPv4 address, no further group.\<close>

definition ends_groups :: "string \<Rightarrow> bool" where
  "ends_groups t \<longleftrightarrow> CHR ''.'' \<notin> set t \<and> stops 16 t \<and> (\<forall>u. t = CHR '':'' # u \<longrightarrow> stops 16 u)"

lemma ends_groups_simps [simp]:
  "ends_groups []" "ends_groups (CHR '']'' # t) \<longleftrightarrow> CHR ''.'' \<notin> set t"
  "ends_groups (CHR '':'' # CHR '':'' # t) \<longleftrightarrow> CHR ''.'' \<notin> set t"
  by (auto simp: ends_groups_def)

lemma read_sep_ends:
  "ends_groups t \<Longrightarrow> (\<And>u. stops 16 u \<Longrightarrow> CHR ''.'' \<notin> set u \<Longrightarrow> p u = None) \<Longrightarrow>
   read_sep CHR '':'' (Suc i) p t = None"
  by (cases t) (auto simp: ends_groups_def read_sep_def)

lemma read_ipv4_no_dot: "CHR ''.'' \<notin> set s \<Longrightarrow> read_ipv4 s = None"
  using read_ipv4_dot by (cases "read_ipv4 s") auto

lemma read_groups_tail:
  assumes "ends_groups t" "length gs \<le> k"
  shows "read_groups k (Suc i) (concat (map (\<lambda>g. CHR '':'' # group_text g) gs) @ t) = (gs, False, t)"
  using assms(2)
proof (induction gs arbitrary: k i)
  case Nil
  then show ?case
    using assms(1) by (cases k) (simp_all add: read_sep_ends read_number_no_digit read_ipv4_no_dot)
next
  case (Cons g gs)
  let ?rest = "concat (map (\<lambda>g. CHR '':'' # group_text g) gs) @ t"
  obtain k' where k: "k = Suc k'"
    using Cons.prems by (cases k) simp_all
  have v4: "read_ipv4 (group_text g @ ?rest) = None"
    using assms(1) group_text_no_dot by (intro read_ipv4_no_dot) (auto simp: ends_groups_def)
  have "stops 16 ?rest"
    using assms(1) by (cases gs) (simp_all add: ends_groups_def)
  then have "read_number 16 (Some 4) True 65536 (group_text g @ ?rest) = Some (unat g, ?rest)"
    by (rule read_group_text)
  then show ?case
    using v4 Cons.IH [of k' "Suc i"] Cons.prems by (simp add: k)
qed

lemma read_groups_fmt:
  assumes "ends_groups t" "length gs \<le> k"
  shows "read_groups k 0 (fmt_subslice gs @ t) = (gs, False, t)"
proof (cases gs)
  case Nil
  have "read_ipv4 t = None"
    using assms(1) by (intro read_ipv4_no_dot) (simp add: ends_groups_def)
  then show ?thesis
    using Nil assms(1)
    by (cases k) (simp_all add: fmt_subslice_def read_number_no_digit ends_groups_def)
next
  case (Cons g gs')
  let ?rest = "concat (map (\<lambda>g. CHR '':'' # group_text g) gs') @ t"
  obtain k' where k: "k = Suc k'"
    using assms(2) Cons by (cases k) simp_all
  have shape: "fmt_subslice gs @ t = group_text g @ ?rest"
    by (simp add: fmt_subslice_def Cons comp_def)
  have v4: "read_ipv4 (group_text g @ ?rest) = None"
    using assms(1) group_text_no_dot by (intro read_ipv4_no_dot) (auto simp: ends_groups_def)
  have "stops 16 ?rest"
    using assms(1) by (cases gs') (simp_all add: ends_groups_def)
  then have "read_number 16 (Some 4) True 65536 (group_text g @ ?rest) = Some (unat g, ?rest)"
    by (rule read_group_text)
  then show ?thesis
    unfolding shape using v4 read_groups_tail [OF assms(1), of gs' k' 0] assms(2)
    by (simp add: k Cons)
qed

text \<open>The run of zeroes the display leaves out.\<close>

definition zero_run :: "u16 list \<Rightarrow> nat \<times> nat \<Rightarrow> bool" where
  "zero_run ss z \<longleftrightarrow> fst z + snd z \<le> length ss \<and> (\<forall>j. fst z \<le> j \<and> j < fst z + snd z \<longrightarrow> ss ! j = 0)"

lemma zeroes_loop_run:
  assumes "zero_run ss longest" "zero_run ss current" "snd current > 0 \<longrightarrow> fst current + snd current = i"
    "drop i ss = rest" "i \<le> length ss"
  shows "zero_run ss (zeroes_loop i longest current rest)"
  using assms
proof (induction rest arbitrary: i longest current)
  case (Cons s rest)
  have i: "i < length ss" and s: "ss ! i = s" and rest: "drop (Suc i) ss = rest"
    using Cons.prems(4,5) by (auto simp: nth_via_drop drop_Suc tl_drop [symmetric] not_le intro!: not_le_imp_less)
  show ?case
  proof (cases "s = 0")
    case True
    let ?c = "(if snd current = 0 then i else fst current, Suc (snd current))"
    have c: "zero_run ss ?c"
      using Cons.prems(2,3) i s True by (auto simp: zero_run_def less_Suc_eq)
    then have "zero_run ss (if snd ?c > snd longest then ?c else longest)"
      using Cons.prems(1) by auto
    moreover have "fst ?c + snd ?c = Suc i"
      using Cons.prems(3) by auto
    ultimately show ?thesis
      using Cons.IH [of _ ?c "Suc i"] c rest i True by (auto simp: Let_def simp del: fst_conv snd_conv)
  next
    case False
    have "zero_run ss (0, 0)"
      by (simp add: zero_run_def)
    then show ?thesis
      using Cons.IH [of longest "(0, 0)" "Suc i"] Cons.prems(1) rest i False by simp
  qed
qed simp


lemma zero_run_split:
  assumes "zero_run ss z"
  shows "take (fst z) ss @ replicate (snd z) 0 @ drop (fst z + snd z) ss = ss"
proof -
  have "take (snd z) (drop (fst z) ss) = replicate (snd z) 0"
    using assms by (intro nth_equalityI) (auto simp: zero_run_def)
  then show ?thesis
    by (metis append.assoc append_take_drop_id take_add)
qed

lemma length_seg_pairs: "length (seg_pairs bs) = length bs div 2"
  by (induction bs rule: seg_pairs.induct) simp_all

lemma pair_bytes: "to_be_bytes (from_be_bytes [a, b] :: u16) = [a, b]"
  by (rule to_from_be_bytes) simp

lemma concat_seg_pairs: "even (length bs) \<Longrightarrow> concat (map to_be_bytes (seg_pairs bs)) = bs"
  by (induction bs rule: seg_pairs.induct) (simp_all add: pair_bytes)

lemma length_segments [simp]: "length (segments a) = 8"
  by (simp add: segments_def length_seg_pairs)

lemma of_segments_segments [simp]: "of_segments (segments a) = a"
  by (simp add: of_segments_def segments_def concat_seg_pairs from_to_be_bytes)

lemma seg_pairs_append: "even (length as) \<Longrightarrow> seg_pairs (as @ bs) = seg_pairs as @ seg_pairs bs"
  by (induction as rule: seg_pairs.induct) simp_all

lemma segments_mapped:
  assumes "to_ipv4_mapped a = Some v"
  shows "segments a = [0, 0, 0, 0, 0, 0xffff] @ seg_pairs (to_be_bytes v)"
proof -
  let ?os = "to_be_bytes a"
  have head: "take 12 ?os = replicate 10 0 @ [0xff, 0xff]" and v: "v = from_be_bytes (drop 12 ?os)"
    using assms by (auto simp: to_ipv4_mapped_def Let_def split: if_splits)
  have tail: "to_be_bytes v = drop 12 ?os"
    unfolding v by (rule to_from_be_bytes) simp
  have "segments a = seg_pairs (take 12 ?os @ drop 12 ?os)"
    by (simp add: segments_def)
  also have "\<dots> = seg_pairs (take 12 ?os) @ seg_pairs (drop 12 ?os)"
    by (rule seg_pairs_append) simp
  also have "seg_pairs (take 12 ?os) = [0, 0, 0, 0, 0, 0xffff]"
  proof -
    have "replicate 10 (0 :: u8) = [0, 0, 0, 0, 0, 0, 0, 0, 0, 0]"
      by (simp add: numeral_eq_Suc)
    moreover have "from_be_bytes [0, 0] = (0 :: u16)" "from_be_bytes [0xff, 0xff] = (0xffff :: u16)"
      by (simp_all add: from_be_bytes_def be_val_def)
    ultimately show ?thesis
      unfolding head by simp
  qed
  finally show ?thesis
    by (simp only: tail)
qed

lemma read_ipv6_show_mapped:
  assumes "to_ipv4_mapped a = Some v" "stops 10 t"
  shows "read_ipv6 (''::ffff:'' @ show_ipv4 v @ t) = Some (a, t)"
proof -
  let ?d = "show_ipv4 v @ t"
  have none: "read_ipv4 (CHR '':'' # u) = None" "read_ipv4 (CHR ''f'' # u) = None" for u
    by (simp_all add: read_ipv4_no_octet is_digit_def to_digit_def)
  have "read_groups (Suc 7) 0 (''::ffff:'' @ ?d) = ([], False, ''::ffff:'' @ ?d)"
    unfolding read_groups.simps by (simp add: none read_number_no_digit)
  then have head: "read_groups 8 0 (''::ffff:'' @ ?d) = ([], False, ''::ffff:'' @ ?d)"
    by simp
  have "digit_char 15 = CHR ''f''"
    by code_simp
  then have "show_radix 16 65535 = ''ffff''"
    by (simp add: show_radix.simps)
  then have "read_number 16 (Some 4) True 65536 (''ffff:'' @ ?d) = Some (65535, CHR '':'' # ?d)"
    using read_number_show [of 16 65535 65536 "CHR '':'' # ?d" "Some 4" True] by simp
  moreover have "read_ipv4 ?d = Some (v, t)"
    by (rule read_ipv4_show [OF assms(2)])
  ultimately have "read_groups (Suc (Suc 5)) 0 (''ffff:'' @ ?d) = (0xffff # seg_pairs (to_be_bytes v), True, t)"
    unfolding read_groups.simps by (simp add: none)
  then have tail: "read_groups 7 0 (''ffff:'' @ ?d) = (0xffff # seg_pairs (to_be_bytes v), True, t)"
    by simp
  have len: "length (seg_pairs (to_be_bytes v)) = 2"
    by (simp add: length_seg_pairs)
  have "read_ipv6 (''::ffff:'' @ ?d) =
      Some (of_segments (replicate 5 0 @ 0xffff # seg_pairs (to_be_bytes v)), t)"
    using head tail by (simp add: read_ipv6_def len)
  moreover have "replicate 5 0 @ 0xffff # seg_pairs (to_be_bytes v) = segments a"
    unfolding segments_mapped [OF assms(1)] by (simp add: numeral_eq_Suc)
  ultimately show ?thesis
    by (simp only: of_segments_segments)
qed

lemma read_ipv6_show:
  assumes "ends_groups t" "stops 10 t" "\<forall>u. t \<noteq> CHR '':'' # u"
  shows "read_ipv6 (show_ipv6 a @ t) = Some (a, t)"
proof (cases "to_ipv4_mapped a")
  case (Some v)
  then show ?thesis
    using read_ipv6_show_mapped [OF Some assms(2)] by (simp add: show_ipv6_def)
next
  case None
  let ?ss = "segments a"
  define z where "z = zeroes_loop 0 (0, 0) (0, 0) ?ss"
  have run: "zero_run ?ss z"
    unfolding z_def by (rule zeroes_loop_run) (simp_all add: zero_run_def)
  show ?thesis
  proof (cases "snd z > 1")
    case True
    let ?h = "take (fst z) ?ss" and ?t = "drop (fst z + snd z) ?ss"
    have bounds: "fst z + snd z \<le> 8" "length ?h = fst z" "length ?t = 8 - (fst z + snd z)"
      using run by (auto simp: zero_run_def)
    have shape: "show_ipv6 a @ t = fmt_subslice ?h @ CHR '':'' # CHR '':'' # fmt_subslice ?t @ t"
      using None True by (simp add: show_ipv6_def Let_def z_def)
    have no_dot: "CHR ''.'' \<notin> set (fmt_subslice gs @ t)" for gs
      using assms(1) group_text_no_dot by (cases gs) (auto simp: fmt_subslice_def ends_groups_def)
    have "read_groups 8 0 (show_ipv6 a @ t) = (?h, False, CHR '':'' # CHR '':'' # fmt_subslice ?t @ t)"
      unfolding shape by (rule read_groups_fmt) (use no_dot bounds in auto)
    moreover have "read_groups (8 - (fst z + 1)) 0 (fmt_subslice ?t @ t) = (?t, False, t)"
      by (rule read_groups_fmt [OF assms(1)]) (use True bounds in auto)
    moreover have "?h @ replicate (8 - fst z - length ?t) 0 @ ?t = ?ss"
      using zero_run_split [OF run] bounds by simp
    ultimately show ?thesis
      using True bounds by (simp add: read_ipv6_def)
  next
    case False
    have "show_ipv6 a @ t = fmt_subslice ?ss @ t"
      using None False by (simp add: show_ipv6_def Let_def z_def)
    moreover have "read_groups 8 0 (fmt_subslice ?ss @ t) = (?ss, False, t)"
      by (rule read_groups_fmt [OF assms(1)]) simp
    ultimately show ?thesis
      by (simp add: read_ipv6_def)
  qed
qed


section \<open>Whole addresses\<close>

lemma show_ipv6_has_colon: "CHR '':'' \<in> set (show_ipv6 a)"
proof -
  obtain g h gs where "segments a = g # h # gs"
    using length_segments [of a] by (cases "segments a"; cases "tl (segments a)") auto
  then have "CHR '':'' \<in> set (fmt_subslice (segments a))"
    by (simp add: fmt_subslice_def)
  then show ?thesis
    by (auto simp: show_ipv6_def Let_def split: option.split)
qed

lemma show_ipv4_no_colon: "CHR '':'' \<notin> set (show_ipv4 a)"
proof -
  have "CHR '':'' \<notin> set (octet_text b)" for b
    using show_radix_digits [of 10 "unat b"] not_digit_separators(2) by fastforce
  then show ?thesis
    using four_octets [of a] by (auto simp: show_ipv4_def)
qed

text \<open>The display of an IPv6 address is not taken for an IPv4 address.\<close>

lemma read_ipv4_show_ipv6: "read_ipv4 (show_ipv6 a @ t) = None"
proof (cases "read_ipv4 (show_ipv6 a @ t)")
  case (Some p)
  obtain v u where p: "p = (v, u)" by (cases p)
  have eq: "show_ipv6 a @ t = show_ipv4 v @ u"
    using read_ipv4_canonical [of _ v u] Some p by simp
  show ?thesis
  proof (cases "to_ipv4_mapped a")
    case (Some w)
    then have "stops 10 (show_ipv6 a @ t)"
      by (simp add: show_ipv6_def)
    then show ?thesis
      by (rule read_ipv4_no_octet)
  next
    case None
    have "CHR ''.'' \<notin> set (show_ipv6 a)"
    proof -
      have "CHR ''.'' \<notin> set (fmt_subslice gs)" for gs
        using group_text_no_dot by (cases gs) (auto simp: fmt_subslice_def)
      then show ?thesis
        using None by (auto simp: show_ipv6_def Let_def)
    qed
    moreover have "CHR '':'' \<in> set (takeWhile (\<lambda>c. c \<noteq> CHR ''.'') (show_ipv4 v @ u))"
      unfolding eq [symmetric] using calculation show_ipv6_has_colon [of a]
      by (auto simp: takeWhile_append)
    moreover obtain b c d e where "to_be_bytes v = [b, c, d, e]"
      using four_octets by blast
    moreover have "CHR ''.'' \<notin> set (octet_text b)" for b
      using show_radix_digits [of 10 "unat b"] not_digit_separators(1) by fastforce
    ultimately have "CHR '':'' \<in> set (octet_text b)"
      by (auto simp: show_ipv4_def takeWhile_append split: if_splits)
    then show ?thesis
      using show_radix_digits [of 10 "unat b"] not_digit_separators(2) by fastforce
  qed
qed

theorem parse_ip_show_ip: "parse_ip (show_ip a) = Some a"
proof (cases a)
  case (V4 v)
  then show ?thesis
    using read_ipv4_show [of "[]" v] by (simp add: parse_ip_def parse_with_def read_ip_def)
next
  case (V6 v)
  then show ?thesis
    using read_ipv6_show [of "[]" v] read_ipv4_show_ipv6 [of v "[]"]
    by (simp add: parse_ip_def parse_with_def read_ip_def)
qed

lemma read_port_show: "unat p = n \<Longrightarrow> read_port (CHR '':'' # show_nat n) = Some (n, [])" for p :: u16
  using read_number_show [of 10 n 65536 "[]" None True] unat_u16_less [of p]
  by (simp add: read_port_def)

definition show_port :: "u16 \<Rightarrow> string" where
  "show_port p = CHR '':'' # show_nat (unat p)"

lemma parse_socket_addr_v4:
  "parse_socket_addr (show_ipv4 a @ show_port p) = Some \<lparr>ip = V4 a, sport = p\<rparr>"
  using read_ipv4_show [of "show_port p" a] read_port_show [of p]
  by (simp add: parse_socket_addr_def parse_with_def read_socket_addr_def read_socket_addr_v4_def show_port_def)

lemma show_port_no_dot: "CHR ''.'' \<notin> set (show_port p)"
  using show_radix_digits [of 10 "unat p"] not_digit_separators(1) by (fastforce simp: show_port_def)

lemma parse_socket_addr_v6:
  "parse_socket_addr (CHR ''['' # show_ipv6 a @ CHR '']'' # show_port p) = Some \<lparr>ip = V6 a, sport = p\<rparr>"
proof -
  have "read_ipv6 (show_ipv6 a @ CHR '']'' # show_port p) = Some (a, CHR '']'' # show_port p)"
    by (rule read_ipv6_show) (simp_all add: show_port_no_dot)
  moreover have "read_socket_addr_v4 (CHR ''['' # u) = None" for u
    by (simp add: read_socket_addr_v4_def read_ipv4_no_octet)
  ultimately show ?thesis
    using read_port_show [of p]
    by (simp add: parse_socket_addr_def parse_with_def read_socket_addr_def read_socket_addr_v6_def
        read_scope_id_def show_port_def)
qed


section \<open>Parsers return a suffix of their input\<close>

definition ends_with :: "string \<Rightarrow> string \<Rightarrow> bool" where
  "ends_with s t \<longleftrightarrow> (\<exists>u. s = u @ t)"

lemma ends_with_refl [simp]: "ends_with s s"
  by (simp add: ends_with_def)

lemma ends_with_trans: "ends_with s t \<Longrightarrow> ends_with t u \<Longrightarrow> ends_with s u"
  by (auto simp: ends_with_def)

lemma ends_with_Cons: "ends_with s t \<Longrightarrow> ends_with (c # s) t"
  by (auto simp: ends_with_def)

lemma dropWhile_suffix: "ends_with s (dropWhile P s)"
  unfolding ends_with_def by (metis takeWhile_dropWhile_id)

lemma read_number_suffix: "read_number r m z b s = Some (n, t) \<Longrightarrow> ends_with s t"
  by (auto simp: read_number_def Let_def dropWhile_suffix split: if_splits)

lemma read_sep_suffix:
  assumes "read_sep c i p s = Some (x, t)" "\<And>s. p s = Some (x, t) \<Longrightarrow> ends_with s t"
  shows "ends_with s t"
  using assms by (cases s) (auto simp: read_sep_def intro: ends_with_Cons split: if_splits)

lemma read_ipv4_suffix: "read_ipv4 s = Some (a, t) \<Longrightarrow> ends_with s t"
  using read_ipv4_canonical by (auto simp: ends_with_def)

lemma read_groups_suffix: "read_groups k i s = (gs, b, t) \<Longrightarrow> ends_with s t"
proof (induction k arbitrary: i s gs)
  case (Suc k)
  show ?case
  proof (cases "if 1 \<le> k then read_sep CHR '':'' i read_ipv4 s else None")
    case (Some p)
    then show ?thesis
      using Suc.prems read_sep_suffix [OF _ read_ipv4_suffix]
      by (cases p) (auto split: if_splits)
  next
    case None
    show ?thesis
    proof (cases "read_sep CHR '':'' i (read_number 16 (Some 4) True 65536) s")
      case (Some q)
      then obtain g u where q: "read_sep CHR '':'' i (read_number 16 (Some 4) True 65536) s = Some (g, u)"
        by (cases q) simp
      have "ends_with s u"
        using read_sep_suffix [OF q] read_number_suffix by blast
      moreover have "ends_with u t"
        using Suc.prems Suc.IH [of "Suc i" u] None q
        by (cases "read_groups k (Suc i) u") auto
      ultimately show ?thesis
        by (rule ends_with_trans)
    next
      case None': None
      then show ?thesis
        using Suc.prems None by simp
    qed
  qed
qed simp

lemma read_ipv6_suffix:
  assumes "read_ipv6 s = Some (a, t)"
  shows "ends_with s t"
proof -
  obtain head b u where h: "read_groups 8 0 s = (head, b, u)"
    by (cases "read_groups 8 0 s") auto
  have su: "ends_with s u"
    by (rule read_groups_suffix [OF h])
  show ?thesis
  proof (cases "length head = 8")
    case True
    then show ?thesis
      using assms h su by (simp add: read_ipv6_def)
  next
    case False
    then obtain v where v: "u = CHR '':'' # CHR '':'' # v"
      and tail: "snd (snd (read_groups (8 - (length head + 1)) 0 v)) = t"
      using assms h by (auto simp: read_ipv6_def read_given_Some split: if_splits bind_splits prod.splits)
    have "ends_with v t"
      using tail read_groups_suffix [of "8 - (length head + 1)" 0 v]
      by (cases "read_groups (8 - (length head + 1)) 0 v") auto
    then show ?thesis
      using su v by (auto intro: ends_with_Cons ends_with_trans)
  qed
qed

lemma read_port_all:
  assumes "read_port t = Some (n, [])"
  obtains ds where "t = CHR '':'' # ds" "\<forall>c \<in> set ds. is_digit 10 c" "n = digits_val 10 ds"
proof -
  obtain ds where t: "t = CHR '':'' # ds" and ds: "read_number 10 None True 65536 ds = Some (n, [])"
    using assms by (auto simp: read_port_def read_given_Some split: bind_splits)
  then have "dropWhile (is_digit 10) ds = []" "n = digits_val 10 (takeWhile (is_digit 10) ds)"
    by (auto simp: read_number_def Let_def split: if_splits)
  then show ?thesis
    using that [OF t] by (metis append_Nil2 set_takeWhileD takeWhile_dropWhile_id)
qed

text \<open>The shapes of the texts that parse as a socket address.\<close>

lemma parse_socket_addr_cases:
  assumes "parse_socket_addr s = Some x"
  obtains (v4) a ds where "s = show_ipv4 a @ CHR '':'' # ds" "ip x = V4 a" "\<forall>c \<in> set ds. is_digit 10 c"
      "sport x = word_of_nat (digits_val 10 ds)"
    | (v6) h ds where "s = CHR ''['' # h @ CHR '']'' # CHR '':'' # ds" "\<forall>c \<in> set ds. is_digit 10 c"
proof -
  have "read_socket_addr s = Some (x, [])"
    using assms by (auto simp: parse_socket_addr_def parse_with_def split: option.splits list.splits)
  then consider "read_socket_addr_v4 s = Some (x, [])" | "read_socket_addr_v6 s = Some (x, [])"
    by (auto simp: read_socket_addr_def split: option.splits)
  then show ?thesis
  proof cases
    case 1
    then obtain a t n where t: "read_ipv4 s = Some (a, t)" "read_port t = Some (n, [])"
      and x: "x = \<lparr>ip = V4 a, sport = word_of_nat n\<rparr>"
      by (auto simp: read_socket_addr_v4_def split: bind_splits)
    show ?thesis
      using read_port_all [OF t(2)] read_ipv4_canonical [OF t(1)] x v4 by (metis socket_addr.select_convs)
  next
    case 2
    then obtain u a t w y n where u: "s = CHR ''['' # u" "read_ipv6 u = Some (a, t)"
      and w: "w = (case read_scope_id t of None \<Rightarrow> t | Some (_, s) \<Rightarrow> s)" "w = CHR '']'' # y"
      and n: "read_port y = Some (n, [])"
      by (auto simp: read_socket_addr_v6_def read_given_Some split: bind_splits)
    have "ends_with t w"
    proof (cases "read_scope_id t")
      case (Some p)
      then show ?thesis
        using w(1) by (cases p)
          (auto simp: read_scope_id_def read_given_Some intro!: ends_with_Cons dest: read_number_suffix split: bind_splits)
    qed (simp add: w(1))
    then have "ends_with u w"
      using read_ipv6_suffix [OF u(2)] ends_with_trans by blast
    then obtain h where "u = h @ w"
      by (auto simp: ends_with_def)
    then show ?thesis
      using read_port_all [OF n] u(1) w(2) v6 by (metis append_Cons)
  qed
qed

end
