(* ===== verification/Congestion.thy ===== *)
theory Congestion
  imports Sq_Prelude
begin

text \<open>
  \<open>src/src/congestion.rs\<close>: the switchable congestion controller. Its state is behind an
  \<open>Arc<Mutex<_>>\<close>, and the handle QUIC gives out for a connection is a clone that shares it, so the
  model keeps an explicit heap of switch states. The controllers themselves (BBR and Brutal of the
  QUIC library) are a parameter: a record of their operations.
\<close>


section \<open>Data\<close>

datatype congestion_kind = Bbr | Brutal (bytes_per_second: u64)

record ('c, 'r, 'p, 'm) controller_ops =
  build_bbr :: "nat \<Rightarrow> u16 \<Rightarrow> 'c"
  build_brutal :: "u64 \<Rightarrow> bool \<Rightarrow> nat \<Rightarrow> u16 \<Rightarrow> nat \<Rightarrow> 'c"
  op_on_sent :: "nat \<Rightarrow> u64 \<Rightarrow> u64 \<Rightarrow> 'c \<Rightarrow> 'c"
  op_on_ack :: "nat \<Rightarrow> nat \<Rightarrow> u64 \<Rightarrow> bool \<Rightarrow> 'r \<Rightarrow> 'c \<Rightarrow> 'c"
  op_on_end_acks :: "nat \<Rightarrow> u64 \<Rightarrow> bool \<Rightarrow> u64 option \<Rightarrow> 'c \<Rightarrow> 'c"
  op_on_congestion_event :: "nat \<Rightarrow> nat \<Rightarrow> bool \<Rightarrow> bool \<Rightarrow> u64 \<Rightarrow> u64 \<Rightarrow> 'c \<Rightarrow> 'c"
  op_on_mtu_update :: "u16 \<Rightarrow> 'c \<Rightarrow> 'c"
  op_window :: "'c \<Rightarrow> u64"
  op_pacing :: "u16 \<Rightarrow> 'c \<Rightarrow> 'p option"
  op_metrics :: "'c \<Rightarrow> 'm"
  op_initial_window :: "'c \<Rightarrow> u64"

record 'c switch_state =
  controller :: 'c
  kind :: congestion_kind
  current_mtu :: u16

text \<open>A boxed controller is a switchable one (the address of its shared state) or another one.\<close>

type_synonym loc = nat
type_synonym 'c cc_heap = "loc \<rightharpoonup> 'c switch_state"

datatype 'c boxed = Switchable loc | Plain 'c


section \<open>Operations\<close>

definition set_bbr :: "('c, 'r, 'p, 'm) controller_ops \<Rightarrow> nat \<Rightarrow> 'c switch_state \<Rightarrow> 'c switch_state" where
  "set_bbr ops now st = st\<lparr>controller := build_bbr ops now (current_mtu st), kind := Bbr\<rparr>"

definition set_brutal ::
  "('c, 'r, 'p, 'm) controller_ops \<Rightarrow> nat \<Rightarrow> u64 \<Rightarrow> nat \<Rightarrow> bool \<Rightarrow> 'c switch_state \<Rightarrow> 'c switch_state" where
  "set_brutal ops now rate initial_rtt disable_loss_compensation st =
     st\<lparr>controller := build_brutal ops rate (\<not> disable_loss_compensation) now (current_mtu st) initial_rtt,
        kind := Brutal rate\<rparr>"

definition on_sent where
  "on_sent ops now bytes last_packet_number st =
     st\<lparr>controller := op_on_sent ops now bytes last_packet_number (controller st)\<rparr>"

definition on_ack where
  "on_ack ops now sent bytes app_limited rtt st =
     st\<lparr>controller := op_on_ack ops now sent bytes app_limited rtt (controller st)\<rparr>"

definition on_end_acks where
  "on_end_acks ops now in_flight app_limited largest_packet_num_acked st =
     st\<lparr>controller := op_on_end_acks ops now in_flight app_limited largest_packet_num_acked (controller st)\<rparr>"

definition on_congestion_event where
  "on_congestion_event ops now sent is_persistent_congestion is_ecn lost_bytes lost_packets st =
     st\<lparr>controller := op_on_congestion_event ops now sent is_persistent_congestion is_ecn lost_bytes lost_packets
         (controller st)\<rparr>"

definition on_mtu_update where
  "on_mtu_update ops new_mtu st =
     st\<lparr>current_mtu := new_mtu, controller := op_on_mtu_update ops new_mtu (controller st)\<rparr>"

definition cc_window where
  "cc_window ops st = op_window ops (controller st)"

definition cc_pacing where
  "cc_pacing ops mtu st = op_pacing ops mtu (controller st)"

definition cc_metrics where
  "cc_metrics ops st = op_metrics ops (controller st)"

definition cc_initial_window where
  "cc_initial_window ops st = op_initial_window ops (controller st)"

text \<open>\<open>clone_box\<close>: cloning a switchable controller clones the pointer, not the state.\<close>

definition clone_box :: "'c boxed \<Rightarrow> 'c boxed" where
  "clone_box b = b"

definition factory_build ::
  "('c, 'r, 'p, 'm) controller_ops \<Rightarrow> nat \<Rightarrow> u16 \<Rightarrow> loc \<Rightarrow> 'c cc_heap \<Rightarrow> 'c boxed \<times> 'c cc_heap" where
  "factory_build ops now mtu l h =
     (Switchable l, h(l \<mapsto> \<lparr>controller = build_bbr ops now mtu, kind = Bbr, current_mtu = mtu\<rparr>))"

text \<open>
  A connection owns its controller and measures a round-trip time; \<open>congestion_state\<close> clones the
  controller and \<open>downcast\<close> succeeds on a switchable one.
\<close>

record 'c cc_connection =
  cc_controller :: "'c boxed"
  cc_rtt :: nat

definition congestion_state :: "'c cc_connection \<Rightarrow> 'c boxed" where
  "congestion_state conn = clone_box (cc_controller conn)"

fun downcast :: "'c boxed \<Rightarrow> loc option" where
  "downcast (Switchable l) = Some l"
| "downcast (Plain c) = None"

definition with_state :: "loc \<Rightarrow> ('c switch_state \<Rightarrow> 'c switch_state) \<Rightarrow> 'c cc_heap \<Rightarrow> 'c cc_heap" where
  "with_state l f h = h(l := map_option f (h l))"

definition configure_connection_brutal_with_options ::
  "('c, 'r, 'p, 'm) controller_ops \<Rightarrow> nat \<Rightarrow> 'c cc_connection \<Rightarrow> u64 \<Rightarrow> bool \<Rightarrow> 'c cc_heap \<Rightarrow> bool \<times> 'c cc_heap" where
  "configure_connection_brutal_with_options ops now conn rate disable_loss_compensation h =
     (if rate = 0 then (False, h)
      else case downcast (congestion_state conn) of
        None \<Rightarrow> (False, h)
      | Some l \<Rightarrow> (True, with_state l (set_brutal ops now rate (cc_rtt conn) disable_loss_compensation) h))"

definition configure_connection_brutal ::
  "('c, 'r, 'p, 'm) controller_ops \<Rightarrow> nat \<Rightarrow> 'c cc_connection \<Rightarrow> u64 \<Rightarrow> 'c cc_heap \<Rightarrow> bool \<times> 'c cc_heap" where
  "configure_connection_brutal ops now conn rate h =
     configure_connection_brutal_with_options ops now conn rate False h"

definition configure_connection_bbr ::
  "('c, 'r, 'p, 'm) controller_ops \<Rightarrow> nat \<Rightarrow> 'c cc_connection \<Rightarrow> 'c cc_heap \<Rightarrow> bool \<times> 'c cc_heap" where
  "configure_connection_bbr ops now conn h = (case downcast (congestion_state conn) of
       None \<Rightarrow> (False, h)
     | Some l \<Rightarrow> (True, with_state l (set_bbr ops now) h))"

definition connection_congestion_kind :: "'c cc_connection \<Rightarrow> 'c cc_heap \<Rightarrow> congestion_kind option" where
  "connection_congestion_kind conn h = (case downcast (congestion_state conn) of
       None \<Rightarrow> None
     | Some l \<Rightarrow> map_option kind (h l))"


section \<open>The recorded kind is the kind of the controller\<close>

text \<open>
  The operations QUIC performs on a controller while a connection runs, and the switches the crate
  performs. A controller never changes its algorithm by itself: \<open>kinds_kept\<close> states this of the
  parameter, for the function \<open>alg\<close> that tells the algorithm of a controller.
\<close>

datatype 'r cc_call =
    OnSent nat u64 u64
  | OnAck nat nat u64 bool 'r
  | OnEndAcks nat u64 bool "u64 option"
  | OnCongestion nat nat bool bool u64 u64
  | OnMtu u16
  | SwitchBbr nat
  | SwitchBrutal nat u64 nat bool

fun cc_apply :: "('c, 'r, 'p, 'm) controller_ops \<Rightarrow> 'r cc_call \<Rightarrow> 'c switch_state \<Rightarrow> 'c switch_state" where
  "cc_apply ops (OnSent now n pn) st = on_sent ops now n pn st"
| "cc_apply ops (OnAck now sent n lim rtt) st = on_ack ops now sent n lim rtt st"
| "cc_apply ops (OnEndAcks now n lim pn) st = on_end_acks ops now n lim pn st"
| "cc_apply ops (OnCongestion now sent pers ecn n k) st = on_congestion_event ops now sent pers ecn n k st"
| "cc_apply ops (OnMtu mtu) st = on_mtu_update ops mtu st"
| "cc_apply ops (SwitchBbr now) st = set_bbr ops now st"
| "cc_apply ops (SwitchBrutal now rate rtt dis) st = set_brutal ops now rate rtt dis st"

definition kinds_kept :: "('c, 'r, 'p, 'm) controller_ops \<Rightarrow> ('c \<Rightarrow> congestion_kind) \<Rightarrow> bool" where
  "kinds_kept ops alg \<longleftrightarrow>
     (\<forall>now mtu. alg (build_bbr ops now mtu) = Bbr) \<and>
     (\<forall>rate comp now mtu rtt. alg (build_brutal ops rate comp now mtu rtt) = Brutal rate) \<and>
     (\<forall>now n pn c. alg (op_on_sent ops now n pn c) = alg c) \<and>
     (\<forall>now sent n lim rtt c. alg (op_on_ack ops now sent n lim rtt c) = alg c) \<and>
     (\<forall>now n lim pn c. alg (op_on_end_acks ops now n lim pn c) = alg c) \<and>
     (\<forall>now sent pers ecn n k c. alg (op_on_congestion_event ops now sent pers ecn n k c) = alg c) \<and>
     (\<forall>mtu c. alg (op_on_mtu_update ops mtu c) = alg c)"

lemmas switch_ops = set_bbr_def set_brutal_def on_sent_def on_ack_def on_end_acks_def
  on_congestion_event_def on_mtu_update_def

definition switch_ok :: "('c \<Rightarrow> congestion_kind) \<Rightarrow> 'c switch_state \<Rightarrow> bool" where
  "switch_ok alg st \<longleftrightarrow> kind st = alg (controller st)"

lemma cc_apply_ok: "kinds_kept ops alg \<Longrightarrow> switch_ok alg st \<Longrightarrow> switch_ok alg (cc_apply ops call st)"
  by (cases call) (simp_all add: kinds_kept_def switch_ok_def switch_ops)

definition last_mtu :: "u16 \<Rightarrow> 'r cc_call list \<Rightarrow> u16" where
  "last_mtu mtu calls = foldl (\<lambda>m c. case c of OnMtu m' \<Rightarrow> m' | _ \<Rightarrow> m) mtu calls"

lemma cc_apply_mtu: "current_mtu (cc_apply ops call st) = (case call of OnMtu m \<Rightarrow> m | _ \<Rightarrow> current_mtu st)"
  by (cases call) (simp_all add: switch_ops)

lemma cc_calls_mtu: "current_mtu (fold (cc_apply ops) calls st) = last_mtu (current_mtu st) calls"
  by (induction calls arbitrary: st) (simp_all add: last_mtu_def cc_apply_mtu split: cc_call.splits)

lemma cc_calls_ok: "kinds_kept ops alg \<Longrightarrow> switch_ok alg st \<Longrightarrow> switch_ok alg (fold (cc_apply ops) calls st)"
  by (induction calls arbitrary: st) (simp_all add: cc_apply_ok)


text \<open>A non-zero rate on a live switchable connection always switches.\<close>

lemma configure_brutal_switchable:
  assumes "cc_controller conn = Switchable l" "h l = Some st"
  shows "r \<noteq> 0 \<Longrightarrow> configure_connection_brutal_with_options ops now conn r dis h =
      (True, h(l \<mapsto> set_brutal ops now r (cc_rtt conn) dis st))"
    "connection_congestion_kind conn (h(l \<mapsto> set_brutal ops now r (cc_rtt conn) dis st)) = Some (Brutal r)"
  using assms by (simp_all add: configure_connection_brutal_with_options_def connection_congestion_kind_def
      congestion_state_def clone_box_def with_state_def set_brutal_def)

lemma connection_kind_switchable:
  "cc_controller conn = Switchable l \<Longrightarrow> h l = Some st \<Longrightarrow> connection_congestion_kind conn h = Some (kind st)"
  by (simp add: connection_congestion_kind_def congestion_state_def clone_box_def)


section \<open>Properties\<close>

text \<open>A controller library that only remembers its algorithm and its packet size.\<close>

definition plain_ops :: "(congestion_kind \<times> u16, nat, nat, nat) controller_ops" where
  "plain_ops =
     \<lparr>build_bbr = (\<lambda>_ mtu. (Bbr, mtu)), build_brutal = (\<lambda>rate _ _ mtu _. (Brutal rate, mtu)),
      op_on_sent = (\<lambda>_ _ _ c. c), op_on_ack = (\<lambda>_ _ _ _ _ c. c), op_on_end_acks = (\<lambda>_ _ _ _ c. c),
      op_on_congestion_event = (\<lambda>_ _ _ _ _ _ c. c), op_on_mtu_update = (\<lambda>mtu (k, _). (k, mtu)),
      op_window = (\<lambda>(_, mtu). 10 * ucast mtu), op_pacing = (\<lambda>_ _. None), op_metrics = (\<lambda>_. 0),
      op_initial_window = (\<lambda>(_, mtu). 10 * ucast mtu)\<rparr>"

lemma plain_ops_kept: "kinds_kept plain_ops fst"
  by (simp add: kinds_kept_def plain_ops_def split: prod.splits)

text \<open>
  (C25) Whatever QUIC does with the controller and however often it is switched, the recorded kind is the
  algorithm in use, and a switch builds the new controller with the packet size of the last MTU
  update.
\<close>

theorem switchable_kind_and_mtu:
  assumes "kinds_kept ops alg" "factory_build ops t0 mtu l h = (Switchable l, h')"
    "st = fold (cc_apply ops) calls (the (h' l))"
  shows "kind st = alg (controller st) \<and>
    controller (set_bbr ops now st) = build_bbr ops now (last_mtu mtu calls) \<and>
    controller (set_brutal ops now rate rtt dis st) = build_brutal ops rate (\<not> dis) now (last_mtu mtu calls) rtt"
proof -
  have "the (h' l) = \<lparr>controller = build_bbr ops t0 mtu, kind = Bbr, current_mtu = mtu\<rparr>"
    using assms(2) by (auto simp: factory_build_def)
  moreover have "alg (build_bbr ops t0 mtu) = Bbr"
    using assms(1) by (simp add: kinds_kept_def)
  ultimately have "switch_ok alg (the (h' l))" "current_mtu (the (h' l)) = mtu"
    by (simp_all add: switch_ok_def)
  then have "switch_ok alg st" "current_mtu st = last_mtu mtu calls"
    unfolding assms(3) using cc_calls_ok [OF assms(1)] by (simp_all add: cc_calls_mtu)
  then show ?thesis
    by (simp add: switch_ok_def set_bbr_def set_brutal_def)
qed

theorem switchable_kind_and_mtu_witness:
  "controller (set_bbr plain_ops 3 (fold (cc_apply plain_ops) [OnMtu 1400, SwitchBrutal 1 5 2 False]
     (the (snd (factory_build plain_ops 0 1200 7 Map.empty) 7)))) = (Bbr, 1400)"
proof -
  have "factory_build plain_ops 0 1200 7 Map.empty = (Switchable 7, snd (factory_build plain_ops 0 1200 7 Map.empty))"
    by (simp add: factory_build_def)
  from switchable_kind_and_mtu [OF plain_ops_kept this refl, of "[OnMtu 1400, SwitchBrutal 1 5 2 False]" 3 1 1 True,
      THEN conjunct2, THEN conjunct1]
  have "controller (set_bbr plain_ops 3 (fold (cc_apply plain_ops) [OnMtu 1400, SwitchBrutal 1 5 2 False]
     (the (snd (factory_build plain_ops 0 1200 7 Map.empty) 7)))) =
     build_bbr plain_ops 3 (last_mtu 1200 [OnMtu 1400, SwitchBrutal 1 5 2 False :: nat cc_call])" .
  then show ?thesis
    by (simp add: plain_ops_def last_mtu_def)
qed

text \<open>
  (C26) Switching a connection to Brutal succeeds exactly for a non-zero rate on a connection with the
  switchable controller; it takes effect on the state the connection itself uses (the handle is
  shared, not copied), leaves every other connection's state alone, and can be switched back to BBR;
  a refused switch changes nothing.
\<close>

theorem configure_brutal_effect:
  fixes conn :: "'a cc_connection"
  assumes "configure_connection_brutal_with_options ops now conn rate dis h = (ok, h')"
    "\<forall>l. cc_controller conn = Switchable l \<longrightarrow> h l \<noteq> None"
  shows "ok = (rate \<noteq> 0 \<and> (\<exists>l. cc_controller conn = Switchable l)) \<and>
    (\<not> ok \<longrightarrow> h' = h) \<and>
    (ok \<longrightarrow> connection_congestion_kind conn h' = Some (Brutal rate) \<and>
       connection_congestion_kind conn (snd (configure_connection_bbr ops now' conn h')) = Some Bbr) \<and>
    (\<forall>other. cc_controller other \<noteq> cc_controller conn \<longrightarrow>
       connection_congestion_kind other h' = connection_congestion_kind other h)"
proof (cases "cc_controller conn")
  case (Switchable l)
  then obtain st where st: "h l = Some st"
    using assms(2) by auto
  have "downcast (cc_controller other) \<noteq> Some l" if "cc_controller other \<noteq> cc_controller conn"
    for other :: "'a cc_connection"
    using that Switchable by (cases "cc_controller other") auto
  then show ?thesis
    using assms(1) Switchable st
    by (auto simp: configure_connection_brutal_with_options_def configure_connection_bbr_def congestion_state_def
        clone_box_def connection_congestion_kind_def with_state_def set_brutal_def set_bbr_def split: if_splits option.splits)
next
  case (Plain c)
  then show ?thesis
    using assms(1)
    by (auto simp: configure_connection_brutal_with_options_def congestion_state_def clone_box_def split: if_splits)
qed

theorem configure_brutal_effect_witness:
  "connection_congestion_kind \<lparr>cc_controller = Switchable 1, cc_rtt = 9\<rparr>
     (snd (configure_connection_brutal_with_options plain_ops 5 \<lparr>cc_controller = Switchable 1, cc_rtt = 9\<rparr> 100 False
        [1 \<mapsto> \<lparr>controller = (Bbr, 1200), kind = Bbr, current_mtu = 1200\<rparr>])) = Some (Brutal 100)"
proof -
  let ?c = "\<lparr>cc_controller = Switchable 1, cc_rtt = 9\<rparr> :: (congestion_kind \<times> u16) cc_connection"
  let ?h = "[1 \<mapsto> \<lparr>controller = (Bbr, 1200), kind = Bbr, current_mtu = 1200\<rparr>] :: (congestion_kind \<times> u16) cc_heap"
  let ?r = "configure_connection_brutal_with_options plain_ops 5 ?c 100 False ?h"
  have "?r = (fst ?r, snd ?r)" by simp
  from configure_brutal_effect [OF this] show ?thesis by simp
qed

end
