(* ===== verification/Metrics.thy ===== *)
theory Metrics
  imports Std_Net Congestion
begin

text \<open>
  \<open>src/src/hysteria2/metrics.rs\<close>: the task that logs what a Hysteria2 connection did in each interval. The
  task sleeps on a timer; an event of the model is a tick of it, with the time and what the connection
  reports then, or the drop of the handle, which aborts the task. Counters are 64-bit and subtracted
  with saturation; the floating-point figures are computed by the operations of \<open>f64\<close>, a parameter.
\<close>

record conn_stats =
  udp_tx_bytes :: u64
  udp_rx_bytes :: u64
  path_sent_packets :: u64
  path_lost_packets :: u64
  path_lost_bytes :: u64
  path_congestion_events :: u64
  path_rtt_nanos :: nat
  path_cwnd_bytes :: u64
  path_current_mtu :: u16

text \<open>
  IEEE arithmetic: \<open>f_lit n k\<close> is the literal \<open>n / 10 ^ k\<close>, \<open>f_secs\<close> is \<open>Duration::as_secs_f64\<close> of a number
  of nanoseconds, \<open>f_of\<close> the cast \<open>as f64\<close>.
\<close>

record 'f f64_ops =
  f_lit :: "int \<Rightarrow> nat \<Rightarrow> 'f"
  f_of :: "u64 \<Rightarrow> 'f"
  f_secs :: "nat \<Rightarrow> 'f"
  f_max :: "'f \<Rightarrow> 'f \<Rightarrow> 'f"
  f_mul :: "'f \<Rightarrow> 'f \<Rightarrow> 'f"
  f_div :: "'f \<Rightarrow> 'f \<Rightarrow> 'f"

record 'f sample =
  sm_role :: string
  sm_peer :: socket_addr
  sm_congestion :: congestion_kind
  sm_rtt_ms :: 'f
  sm_cwnd_bytes :: u64
  sm_mtu :: u16
  sm_tx_mbps :: 'f
  sm_rx_mbps :: 'f
  sm_sent_packets :: u64
  sm_lost_packets :: u64
  sm_lost_bytes :: u64
  sm_loss_percent :: 'f
  sm_congestion_events :: u64

definition u64_saturating_sub :: "u64 \<Rightarrow> u64 \<Rightarrow> u64" where
  "u64_saturating_sub a b = (if b \<le> a then a - b else 0)"

definition mbps :: "'f f64_ops \<Rightarrow> u64 \<Rightarrow> 'f \<Rightarrow> 'f" where
  "mbps f n elapsed = f_div f (f_div f (f_mul f (f_of f n) (f_lit f 8 0)) elapsed) (f_lit f 1000000 0)"

text \<open>The body of the loop: the line logged for an interval.\<close>

definition metrics_sample ::
  "'f f64_ops \<Rightarrow> string \<Rightarrow> socket_addr \<Rightarrow> congestion_kind \<Rightarrow> conn_stats \<Rightarrow> nat \<Rightarrow> conn_stats \<Rightarrow> nat \<Rightarrow> 'f sample" where
  "metrics_sample f role peer congestion previous previous_at current now =
     (let elapsed = f_max f (f_secs f (now - previous_at)) (f_lit f 1 3);
          sent_bytes = u64_saturating_sub (udp_tx_bytes current) (udp_tx_bytes previous);
          received_bytes = u64_saturating_sub (udp_rx_bytes current) (udp_rx_bytes previous);
          sent_packets = u64_saturating_sub (path_sent_packets current) (path_sent_packets previous);
          lost_packets = u64_saturating_sub (path_lost_packets current) (path_lost_packets previous);
          lost_bytes = u64_saturating_sub (path_lost_bytes current) (path_lost_bytes previous);
          congestion_events = u64_saturating_sub (path_congestion_events current) (path_congestion_events previous);
          loss_percent = (if sent_packets = 0 then f_lit f 0 0
                          else f_div f (f_mul f (f_of f lost_packets) (f_lit f 100 0)) (f_of f sent_packets))
      in \<lparr>sm_role = role, sm_peer = peer, sm_congestion = congestion,
          sm_rtt_ms = f_mul f (f_secs f (path_rtt_nanos current)) (f_lit f 1000 0),
          sm_cwnd_bytes = path_cwnd_bytes current, sm_mtu = path_current_mtu current,
          sm_tx_mbps = mbps f sent_bytes elapsed, sm_rx_mbps = mbps f received_bytes elapsed,
          sm_sent_packets = sent_packets, sm_lost_packets = lost_packets, sm_lost_bytes = lost_bytes,
          sm_loss_percent = loss_percent, sm_congestion_events = congestion_events\<rparr>)"

text \<open>
  The task: the first tick takes the base line; each later one logs a sample and the task returns once
  the connection has a close reason. Dropping the handle aborts it wherever it sleeps.
\<close>

datatype metrics_state = Starting | Sampling conn_stats nat | Returned | Aborted

datatype metrics_event = MetricsTick nat conn_stats bool | MetricsDrop

fun metrics_step :: "'f f64_ops \<Rightarrow> string \<Rightarrow> socket_addr \<Rightarrow> congestion_kind \<Rightarrow> metrics_event \<Rightarrow>
    metrics_state \<times> 'f sample list \<Rightarrow> metrics_state \<times> 'f sample list" where
  "metrics_step f role peer congestion (MetricsTick now stats closed) (Starting, out) = (Sampling stats now, out)"
| "metrics_step f role peer congestion (MetricsTick now stats closed) (Sampling previous previous_at, out) =
     (if closed then Returned else Sampling stats now,
      out @ [metrics_sample f role peer congestion previous previous_at stats now])"
| "metrics_step f role peer congestion (MetricsTick now stats closed) (Returned, out) = (Returned, out)"
| "metrics_step f role peer congestion (MetricsTick now stats closed) (Aborted, out) = (Aborted, out)"
| "metrics_step f role peer congestion MetricsDrop (Returned, out) = (Returned, out)"
| "metrics_step f role peer congestion MetricsDrop (st, out) = (Aborted, out)"

definition metrics_run :: "'f f64_ops \<Rightarrow> string \<Rightarrow> socket_addr \<Rightarrow> congestion_kind \<Rightarrow> metrics_event list \<Rightarrow>
    metrics_state \<times> 'f sample list" where
  "metrics_run f role peer congestion es = fold (metrics_step f role peer congestion) es (Starting, [])"


section \<open>What is logged\<close>

lemma unat_saturating_sub: "unat (u64_saturating_sub a b) = unat a - unat b"
  by (auto simp: u64_saturating_sub_def unat_sub_if' word_le_nat_alt)

lemma metrics_step_stopped: "st = Returned \<or> st = Aborted \<Longrightarrow>
    fold (metrics_step f role peer congestion) es (st, out) = (st, out)"
proof (induction es)
  case (Cons e es)
  then show ?case by (cases e) auto
qed simp

text \<open>The readings a run uses: its ticks up to the one that sees the connection closed, or the drop.\<close>

fun readings :: "metrics_event list \<Rightarrow> conn_stats list" where
  "readings [] = []"
| "readings (MetricsDrop # es) = []"
| "readings (MetricsTick now stats closed # es) = stats # (if closed then [] else readings es)"

text \<open>Differences of consecutive readings, and the readings of a whole run: the base line first.\<close>

fun differences :: "('s \<Rightarrow> u64) \<Rightarrow> 's list \<Rightarrow> u64 list" where
  "differences c (x # y # zs) = u64_saturating_sub (c y) (c x) # differences c (y # zs)"
| "differences c _ = []"

fun run_readings :: "metrics_event list \<Rightarrow> conn_stats list" where
  "run_readings (MetricsTick now stats closed # es) = stats # readings es"
| "run_readings _ = []"

text \<open>
  A field of the sample and the counter it reports the increase of.
\<close>

definition reports :: "'f f64_ops \<Rightarrow> ('f sample \<Rightarrow> u64) \<Rightarrow> (conn_stats \<Rightarrow> u64) \<Rightarrow> bool" where
  "reports f field c \<longleftrightarrow> (\<forall>role peer k previous previous_at current now.
     field (metrics_sample f role peer k previous previous_at current now) = u64_saturating_sub (c current) (c previous))"

lemma sampling_fields:
  assumes "reports f field c"
  shows "map field (snd (fold (metrics_step f role peer k) es (Sampling s at, out))) =
    map field out @ differences c (s # readings es)"
proof (induction es arbitrary: s at out)
  case (Cons e es)
  show ?case
  proof (cases e)
    case (MetricsTick now stats closed)
    then show ?thesis
      using assms Cons.IH by (cases closed) (simp_all add: metrics_step_stopped reports_def)
  next
    case MetricsDrop
    then show ?thesis by (simp add: metrics_step_stopped)
  qed
qed simp

lemma metrics_run_fields:
  assumes "reports f field c"
  shows "map field (snd (metrics_run f role peer k es)) = differences c (run_readings es)"
proof (cases es)
  case (Cons e es')
  then show ?thesis
    using sampling_fields [OF assms, of role peer k es'] by (cases e) (simp_all add: metrics_run_def metrics_step_stopped)
qed (simp add: metrics_run_def)

lemma differences_sum:
  assumes "sorted (map (\<lambda>s. unat (c s)) xs)" "xs \<noteq> []"
  shows "sum_list (map unat (differences c xs)) = unat (c (last xs)) - unat (c (hd xs))"
  using assms
proof (induction c xs rule: differences.induct)
  case (1 c x y zs)
  have "last (y # zs) \<in> set (y # zs)" by simp
  then have "unat (c x) \<le> unat (c y)" "unat (c y) \<le> unat (c (last (y # zs)))"
    using "1.prems"(1) by (auto simp del: last.simps)
  with 1 show ?case by (simp add: unat_saturating_sub)
qed simp_all

lemma reports_fields:
  "reports f sm_sent_packets path_sent_packets" "reports f sm_lost_packets path_lost_packets"
  "reports f sm_lost_bytes path_lost_bytes" "reports f sm_congestion_events path_congestion_events"
  by (simp_all add: reports_def metrics_sample_def Let_def)

text \<open>
  The counts in the log add up: over any run of the metrics task, of a connection whose
  counters never decrease, the logged numbers of sent packets, lost packets, lost bytes and congestion
  events each sum to the counter's last reading less its first, whatever ticks came, and however the
  run ended (the connection closed, the handle dropped, or still running). Nothing is counted twice or
  missed between samples.
\<close>

theorem metrics_counts_add_up:
  assumes "xs = run_readings es" "xs \<noteq> []"
    and "(field, c) \<in> {(sm_sent_packets, path_sent_packets), (sm_lost_packets, path_lost_packets),
      (sm_lost_bytes, path_lost_bytes), (sm_congestion_events, path_congestion_events)}"
    and "sorted (map (\<lambda>s. unat (c s)) xs)"
  shows "sum_list (map (\<lambda>sm. unat (field sm)) (snd (metrics_run f role peer k es))) =
    unat (c (last xs)) - unat (c (hd xs))"
proof -
  have "reports f field c"
    using assms(3) reports_fields by auto
  from metrics_run_fields [OF this, of role peer k es]
  have "map (\<lambda>sm. unat (field sm)) (snd (metrics_run f role peer k es)) = map unat (differences c xs)"
    unfolding assms(1) by (metis comp_apply map_map map_ext)
  then show ?thesis using differences_sum assms by metis
qed

definition integer_f64 :: "int f64_ops" where
  "integer_f64 = \<lparr>f_lit = \<lambda>n k. n div 10 ^ k, f_of = uint, f_secs = \<lambda>n. int n div 1000000000,
     f_max = max, f_mul = (*), f_div = (div)\<rparr>"

definition reading :: "u64 \<Rightarrow> conn_stats" where
  "reading n = \<lparr>udp_tx_bytes = 1200 * n, udp_rx_bytes = 0, path_sent_packets = n, path_lost_packets = n div 10,
     path_lost_bytes = 0, path_congestion_events = 0, path_rtt_nanos = 0, path_cwnd_bytes = 0, path_current_mtu = 1200\<rparr>"

definition demo_ticks :: "metrics_event list" where
  "demo_ticks = [MetricsTick 0 (reading 5) False, MetricsTick 2000000000 (reading 105) False,
     MetricsTick 4000000000 (reading 105) False, MetricsTick 6000000000 (reading 155) True, MetricsTick 8000000000 (reading 200) False]"

text \<open>Four samples, two of them with nothing sent; the ticks after the drop are ignored.\<close>

lemma metrics_run_example:
  "sum_list (map (\<lambda>sm. unat (sm_sent_packets sm)) (snd (metrics_run integer_f64 ''client'' \<lparr>ip = V4 2130706433, sport = 443\<rparr> Bbr demo_ticks))) = 150"
  using metrics_counts_add_up [of _ demo_ticks sm_sent_packets path_sent_packets integer_f64 "''client''" "\<lparr>ip = V4 2130706433, sport = 443\<rparr>" Bbr, OF refl]
  by (simp add: demo_ticks_def reading_def)

end
