(* ===== verification/Sq_IO.thy ===== *)
theory Sq_IO
  imports Sq_Prelude
begin

text \<open>
  The error type of the crate (\<open>src/src/error.rs\<close>) and the byte streams the protocols run over.
  A receiving half is the bytes the peer sends until the stream ends, and how it ends; a read that
  needs more bytes than that fails the way the stream ended. A sending half records what was
  written and how many more bytes the peer accepts before it stops the stream.
\<close>


section \<open>Errors\<close>

datatype io_error = UnexpectedEof | BrokenPipe | OtherIo string

text \<open>
  \<open>ConnectionError\<close> of \<open>quinn_proto\<close>; an application close carries its error code.
\<close>

datatype connection_error =
    VersionMismatch
  | TransportError string
  | ConnectionClosed
  | ApplicationClosed u64
  | Reset
  | TimedOut
  | LocallyClosed
  | CidsExhausted

datatype write_error = WriteStopped u64 | WriteConnectionLost connection_error

datatype read_error = FinishedEarly nat | ReadReset u64 | ReadConnectionLost connection_error

text \<open>
  \<open>Panic\<close> is not a constructor of the Rust type: it stands for a failed \<open>expect\<close>, a failed
  \<open>unreachable!\<close> or an index out of range, so that the absence of panics can be stated.
\<close>

datatype error =
    Io io_error
  | Connection connection_error
  | Connect string
  | Write write_error
  | Read read_error
  | Tls string
  | QuicTls string
  | InvalidPrivateKey
  | InvalidServerName string
  | InvalidAddress
  | InvalidVarInt
  | AuthenticationFailed u16
  | JlsAuthenticationFailed
  | Protocol string
  | Http3 string
  | CongestionControl
  | Closed
  | Panic string

type_synonym 'a result = "error + 'a"


section \<open>Receiving\<close>

datatype read_end = Finished | ResetBy u64 | LostBy connection_error

record reader =
  pending :: bytes
  ending :: read_end

text \<open>\<open>AsyncReadExt\<close>: a stream that ends early is an I/O error.\<close>

definition io_read_failure :: "read_end \<Rightarrow> error" where
  "io_read_failure e = (case e of
       Finished \<Rightarrow> Io UnexpectedEof
     | ResetBy c \<Rightarrow> Io (OtherIo ''reset'')
     | LostBy c \<Rightarrow> Io (OtherIo ''connection lost''))"

definition read_u8 :: "reader \<Rightarrow> (u8 \<times> reader) result" where
  "read_u8 r = (case pending r of
       [] \<Rightarrow> Inl (io_read_failure (ending r))
     | b # bs \<Rightarrow> Inr (b, r\<lparr>pending := bs\<rparr>))"

definition read_exact :: "nat \<Rightarrow> reader \<Rightarrow> (bytes \<times> reader) result" where
  "read_exact n r =
     (if n \<le> length (pending r)
      then Inr (take n (pending r), r\<lparr>pending := drop n (pending r)\<rparr>)
      else Inl (io_read_failure (ending r)))"

text \<open>\<open>quinn::RecvStream::read_exact\<close>: the same reads with QUIC errors.\<close>

definition quic_read_failure :: "nat \<Rightarrow> read_end \<Rightarrow> error" where
  "quic_read_failure n e = (case e of
       Finished \<Rightarrow> Read (FinishedEarly n)
     | ResetBy c \<Rightarrow> Read (ReadReset c)
     | LostBy c \<Rightarrow> Read (ReadConnectionLost c))"

definition quic_read_exact :: "nat \<Rightarrow> reader \<Rightarrow> (bytes \<times> reader) result" where
  "quic_read_exact n r =
     (if n \<le> length (pending r)
      then Inr (take n (pending r), r\<lparr>pending := drop n (pending r)\<rparr>)
      else Inl (quic_read_failure (length (pending r)) (ending r)))"

lemma read_u8_Cons [simp, result_simps]:
  "read_u8 \<lparr>pending = b # bs, ending = e\<rparr> = Inr (b, \<lparr>pending = bs, ending = e\<rparr>)"
  by (simp add: read_u8_def)

lemma read_u8_Nil [simp, result_simps]:
  "read_u8 \<lparr>pending = [], ending = e\<rparr> = Inl (io_read_failure e)"
  by (simp add: read_u8_def)

lemma read_exact_append [simp, result_simps]:
  "length bs = n \<Longrightarrow>
   read_exact n \<lparr>pending = bs @ rest, ending = e\<rparr> = Inr (bs, \<lparr>pending = rest, ending = e\<rparr>)"
  by (simp add: read_exact_def)

lemma quic_read_exact_append [simp, result_simps]:
  "length bs = n \<Longrightarrow>
   quic_read_exact n \<lparr>pending = bs @ rest, ending = e\<rparr> = Inr (bs, \<lparr>pending = rest, ending = e\<rparr>)"
  by (simp add: quic_read_exact_def)

lemma read_exact_short [simp, result_simps]:
  "length bs < n \<Longrightarrow> read_exact n \<lparr>pending = bs, ending = e\<rparr> = Inl (io_read_failure e)"
  by (simp add: read_exact_def)

lemma read_u8_pending: "read_u8 r = Inr (b, r') \<Longrightarrow> pending r = b # pending r' \<and> ending r' = ending r"
  by (auto simp: read_u8_def split: list.splits)

lemma read_exact_pending:
  "read_exact n r = Inr (bs, r') \<Longrightarrow> pending r = bs @ pending r' \<and> length bs = n \<and> ending r' = ending r"
  by (auto simp: read_exact_def split: if_splits)

lemma quic_read_exact_no_panic: "quic_read_exact n r \<noteq> Inl (Panic why)"
  by (auto simp: quic_read_exact_def quic_read_failure_def split: read_end.splits)

lemma quic_read_exact_pending:
  "quic_read_exact n r = Inr (bs, r') \<Longrightarrow>
   pending r = bs @ pending r' \<and> length bs = n \<and> ending r' = ending r"
  by (auto simp: quic_read_exact_def split: if_splits)


section \<open>Sending\<close>

text \<open>
  \<open>room\<close> is how many more bytes the peer takes before the stream is stopped (\<open>None\<close>: no limit).
\<close>

record writer =
  written :: bytes
  room :: "nat option"

definition fresh_writer :: writer where
  "fresh_writer = \<lparr>written = [], room = None\<rparr>"

definition accepts :: "nat \<Rightarrow> writer \<Rightarrow> bool" where
  "accepts n w = (case room w of None \<Rightarrow> True | Some k \<Rightarrow> n \<le> k)"

definition emit :: "bytes \<Rightarrow> writer \<Rightarrow> writer" where
  "emit bs w = w\<lparr>written := written w @ bs, room := map_option (\<lambda>k. k - length bs) (room w)\<rparr>"

definition write_all :: "bytes \<Rightarrow> writer \<Rightarrow> writer result" where
  "write_all bs w = (if accepts (length bs) w then Inr (emit bs w) else Inl (Io BrokenPipe))"

text \<open>
  A failed write reports the error and no writer. QUIC may have taken a prefix of the bytes by then, which
  is not recorded; no statement depends on what a failed stream carried.
\<close>

definition quic_write_all :: "bytes \<Rightarrow> writer \<Rightarrow> writer result" where
  "quic_write_all bs w =
     (if accepts (length bs) w then Inr (emit bs w) else Inl (Write (WriteStopped 0)))"

lemma emit_emit [simp]: "emit bs (emit as w) = emit (as @ bs) w"
  by (cases "room w") (simp_all add: emit_def)

lemma emit_Nil [simp]: "emit [] w = w"
  by (cases "room w") (simp_all add: emit_def)

lemma written_emit [simp]: "written (emit bs w) = written w @ bs"
  by (simp add: emit_def)

lemma accepts_emit: "accepts (length as) w \<Longrightarrow> accepts n (emit as w) \<longleftrightarrow> accepts (length as + n) w"
  by (cases "room w") (auto simp: accepts_def emit_def)

lemma accepts_mono: "accepts n w \<Longrightarrow> m \<le> n \<Longrightarrow> accepts m w"
  by (auto simp: accepts_def split: option.splits)

lemma accepts_addD: "accepts (m + n) w \<Longrightarrow> accepts m w"
  by (erule accepts_mono) simp

text \<open>A sequence of writes succeeds exactly when there is room for all of it.\<close>

lemma write_all_then [result_simps]:
  "bindR (write_all as w) (write_all bs) = write_all (as @ bs) w"
  by (auto simp: write_all_def accepts_emit dest: accepts_addD)

lemma quic_write_all_then [result_simps]:
  "bindR (quic_write_all as w) (quic_write_all bs) = quic_write_all (as @ bs) w"
  by (auto simp: quic_write_all_def accepts_emit dest: accepts_addD)

lemma write_all_fresh [simp, result_simps]: "write_all bs fresh_writer = Inr (emit bs fresh_writer)"
  by (simp add: write_all_def accepts_def fresh_writer_def)

lemma quic_write_all_fresh [simp, result_simps]:
  "quic_write_all bs fresh_writer = Inr (emit bs fresh_writer)"
  by (simp add: quic_write_all_def accepts_def fresh_writer_def)

lemma written_fresh [simp]: "written fresh_writer = []"
  by (simp add: fresh_writer_def)

lemma quic_write_all_emit_fresh [simp, result_simps]:
  "quic_write_all bs (emit as fresh_writer) = Inr (emit (as @ bs) fresh_writer)"
  by (simp add: quic_write_all_def accepts_def fresh_writer_def emit_def)

end
