(* ===== verification/Stream_Adapters.thy ===== *)
theory Stream_Adapters
  imports Sq_IO
begin

text \<open>
  The two stream types of the public interface, \<open>Hysteria2Stream\<close> (\<open>src/src/hysteria2/stream.rs\<close>) and
  \<open>ShadowQuicStream\<close> (\<open>src/src/shadowquic/mod.rs\<close>): a sending and a receiving half of one QUIC stream, each
  poll forwarded to its half. What a poll of a half does is the QUIC library's, a parameter: an
  operation on the half's state, with the waker of the caller. The contract both types fulfil, that the
  halves do not affect each other, is the locale \<open>duplex\<close>.
\<close>

datatype 'a poll = PollPending | PollReady 'a

type_synonym 'a io_poll = "(io_error + 'a) poll"

text \<open>\<open>ReadBuf\<close>: what is filled so far and how much more fits.\<close>

record read_buf =
  rb_filled :: bytes
  rb_remaining :: nat

record ('cx, 's, 'r) quinn_halves =
  recv_poll_read :: "'cx \<Rightarrow> read_buf \<Rightarrow> 'r \<Rightarrow> (unit io_poll \<times> read_buf) \<times> 'r"
  send_poll_write :: "'cx \<Rightarrow> bytes \<Rightarrow> 's \<Rightarrow> nat io_poll \<times> 's"
  send_poll_flush :: "'cx \<Rightarrow> 's \<Rightarrow> unit io_poll \<times> 's"
  send_poll_shutdown :: "'cx \<Rightarrow> 's \<Rightarrow> unit io_poll \<times> 's"

text \<open>The calls of \<open>AsyncRead\<close> and \<open>AsyncWrite\<close>, and their results.\<close>

datatype 'cx poll_call =
    PollRead 'cx read_buf
  | PollWrite 'cx bytes
  | PollFlush 'cx
  | PollShutdown 'cx

datatype poll_result =
    ReadPolled "unit io_poll \<times> read_buf"
  | WritePolled "nat io_poll"
  | FlushPolled "unit io_poll"
  | ShutdownPolled "unit io_poll"

fun is_read :: "'cx poll_call \<Rightarrow> bool" where
  "is_read (PollRead cx buf) = True"
| "is_read _ = False"

fun is_read_result :: "poll_result \<Rightarrow> bool" where
  "is_read_result (ReadPolled res) = True"
| "is_read_result _ = False"


section \<open>Hysteria2Stream\<close>

record ('s, 'r) hysteria2_stream =
  hs_send :: 's
  hs_recv :: 'r

definition hysteria2_stream_new :: "'s \<Rightarrow> 'r \<Rightarrow> ('s, 'r) hysteria2_stream" where
  "hysteria2_stream_new send recv = \<lparr>hs_send = send, hs_recv = recv\<rparr>"

definition hs_poll_read :: "('cx, 's, 'r) quinn_halves \<Rightarrow> 'cx \<Rightarrow> read_buf \<Rightarrow> ('s, 'r) hysteria2_stream \<Rightarrow>
    (unit io_poll \<times> read_buf) \<times> ('s, 'r) hysteria2_stream" where
  "hs_poll_read q cx buf st = (let (res, r) = recv_poll_read q cx buf (hs_recv st) in (res, st\<lparr>hs_recv := r\<rparr>))"

definition hs_poll_write :: "('cx, 's, 'r) quinn_halves \<Rightarrow> 'cx \<Rightarrow> bytes \<Rightarrow> ('s, 'r) hysteria2_stream \<Rightarrow>
    nat io_poll \<times> ('s, 'r) hysteria2_stream" where
  "hs_poll_write q cx bs st = (let (res, s) = send_poll_write q cx bs (hs_send st) in (res, st\<lparr>hs_send := s\<rparr>))"

definition hs_poll_flush :: "('cx, 's, 'r) quinn_halves \<Rightarrow> 'cx \<Rightarrow> ('s, 'r) hysteria2_stream \<Rightarrow>
    unit io_poll \<times> ('s, 'r) hysteria2_stream" where
  "hs_poll_flush q cx st = (let (res, s) = send_poll_flush q cx (hs_send st) in (res, st\<lparr>hs_send := s\<rparr>))"

definition hs_poll_shutdown :: "('cx, 's, 'r) quinn_halves \<Rightarrow> 'cx \<Rightarrow> ('s, 'r) hysteria2_stream \<Rightarrow>
    unit io_poll \<times> ('s, 'r) hysteria2_stream" where
  "hs_poll_shutdown q cx st = (let (res, s) = send_poll_shutdown q cx (hs_send st) in (res, st\<lparr>hs_send := s\<rparr>))"

fun hs_call :: "('cx, 's, 'r) quinn_halves \<Rightarrow> 'cx poll_call \<Rightarrow> ('s, 'r) hysteria2_stream \<Rightarrow>
    poll_result \<times> ('s, 'r) hysteria2_stream" where
  "hs_call q (PollRead cx buf) st = apfst ReadPolled (hs_poll_read q cx buf st)"
| "hs_call q (PollWrite cx bs) st = apfst WritePolled (hs_poll_write q cx bs st)"
| "hs_call q (PollFlush cx) st = apfst FlushPolled (hs_poll_flush q cx st)"
| "hs_call q (PollShutdown cx) st = apfst ShutdownPolled (hs_poll_shutdown q cx st)"


section \<open>ShadowQuicStream\<close>

record ('s, 'r) shadowquic_stream =
  ss_send :: 's
  ss_recv :: 'r

definition shadowquic_stream_new :: "'s \<Rightarrow> 'r \<Rightarrow> ('s, 'r) shadowquic_stream" where
  "shadowquic_stream_new send recv = \<lparr>ss_send = send, ss_recv = recv\<rparr>"

definition ss_poll_read :: "('cx, 's, 'r) quinn_halves \<Rightarrow> 'cx \<Rightarrow> read_buf \<Rightarrow> ('s, 'r) shadowquic_stream \<Rightarrow>
    (unit io_poll \<times> read_buf) \<times> ('s, 'r) shadowquic_stream" where
  "ss_poll_read q cx buf st = (let (res, r) = recv_poll_read q cx buf (ss_recv st) in (res, st\<lparr>ss_recv := r\<rparr>))"

definition ss_poll_write :: "('cx, 's, 'r) quinn_halves \<Rightarrow> 'cx \<Rightarrow> bytes \<Rightarrow> ('s, 'r) shadowquic_stream \<Rightarrow>
    nat io_poll \<times> ('s, 'r) shadowquic_stream" where
  "ss_poll_write q cx bs st = (let (res, s) = send_poll_write q cx bs (ss_send st) in (res, st\<lparr>ss_send := s\<rparr>))"

definition ss_poll_flush :: "('cx, 's, 'r) quinn_halves \<Rightarrow> 'cx \<Rightarrow> ('s, 'r) shadowquic_stream \<Rightarrow>
    unit io_poll \<times> ('s, 'r) shadowquic_stream" where
  "ss_poll_flush q cx st = (let (res, s) = send_poll_flush q cx (ss_send st) in (res, st\<lparr>ss_send := s\<rparr>))"

definition ss_poll_shutdown :: "('cx, 's, 'r) quinn_halves \<Rightarrow> 'cx \<Rightarrow> ('s, 'r) shadowquic_stream \<Rightarrow>
    unit io_poll \<times> ('s, 'r) shadowquic_stream" where
  "ss_poll_shutdown q cx st = (let (res, s) = send_poll_shutdown q cx (ss_send st) in (res, st\<lparr>ss_send := s\<rparr>))"

fun ss_call :: "('cx, 's, 'r) quinn_halves \<Rightarrow> 'cx poll_call \<Rightarrow> ('s, 'r) shadowquic_stream \<Rightarrow>
    poll_result \<times> ('s, 'r) shadowquic_stream" where
  "ss_call q (PollRead cx buf) st = apfst ReadPolled (ss_poll_read q cx buf st)"
| "ss_call q (PollWrite cx bs) st = apfst WritePolled (ss_poll_write q cx bs st)"
| "ss_call q (PollFlush cx) st = apfst FlushPolled (ss_poll_flush q cx st)"
| "ss_call q (PollShutdown cx) st = apfst ShutdownPolled (ss_poll_shutdown q cx st)"


section \<open>The specification: two independent halves\<close>

text \<open>A call on a half alone; a call of the other half does nothing to it.\<close>

fun recv_call :: "('cx, 's, 'r) quinn_halves \<Rightarrow> 'cx poll_call \<Rightarrow> 'r \<Rightarrow> poll_result option \<times> 'r" where
  "recv_call q (PollRead cx buf) r = apfst (Some \<circ> ReadPolled) (recv_poll_read q cx buf r)"
| "recv_call q _ r = (None, r)"

fun send_call :: "('cx, 's, 'r) quinn_halves \<Rightarrow> 'cx poll_call \<Rightarrow> 's \<Rightarrow> poll_result option \<times> 's" where
  "send_call q (PollRead cx buf) s = (None, s)"
| "send_call q (PollWrite cx bs) s = apfst (Some \<circ> WritePolled) (send_poll_write q cx bs s)"
| "send_call q (PollFlush cx) s = apfst (Some \<circ> FlushPolled) (send_poll_flush q cx s)"
| "send_call q (PollShutdown cx) s = apfst (Some \<circ> ShutdownPolled) (send_poll_shutdown q cx s)"

text \<open>A sequence of calls, with the results in order.\<close>

fun run_calls :: "('c \<Rightarrow> 'st \<Rightarrow> 'o \<times> 'st) \<Rightarrow> 'c list \<Rightarrow> 'st \<Rightarrow> 'o list \<times> 'st" where
  "run_calls step [] st = ([], st)"
| "run_calls step (c # cs) st = (let (o1, st) = step c st; (os, st) = run_calls step cs st in (o1 # os, st))"

lemma recv_call_other: "\<not> is_read c \<Longrightarrow> recv_call q c r = (None, r)"
  by (cases c) simp_all

lemma send_call_other: "is_read c \<Longrightarrow> send_call q c s = (None, s)"
  by (cases c) simp_all

locale duplex =
  fixes q :: "('cx, 's, 'r) quinn_halves"
    and call :: "'cx poll_call \<Rightarrow> 'st \<Rightarrow> poll_result \<times> 'st"
    and send_of :: "'st \<Rightarrow> 's"
    and recv_of :: "'st \<Rightarrow> 'r"
  assumes read_forwards: "is_read c \<Longrightarrow> call c st = (res, st') \<Longrightarrow>
      recv_call q c (recv_of st) = (Some res, recv_of st') \<and> send_of st' = send_of st"
    and write_forwards: "\<not> is_read c \<Longrightarrow> call c st = (res, st') \<Longrightarrow>
      send_call q c (send_of st) = (Some res, send_of st') \<and> recv_of st' = recv_of st"
    and result_kind: "call c st = (res, st') \<Longrightarrow> is_read_result res = is_read c"
begin

lemma run_read_half:
  "run_calls call cs st = (rs, st') \<Longrightarrow>
   run_calls (recv_call q) (filter is_read cs) (recv_of st) = (map Some (filter is_read_result rs), recv_of st')"
proof (induction cs arbitrary: st rs)
  case (Cons c cs)
  obtain res st1 where c: "call c st = (res, st1)" by fastforce
  obtain rs1 where run: "run_calls call cs st1 = (rs1, st')" "rs = res # rs1"
    using Cons.prems c by (auto split: prod.splits)
  show ?case
    using Cons.IH [OF run(1)] read_forwards [OF _ c] write_forwards [OF _ c] result_kind [OF c] run(2)
    by (cases "is_read c") auto
qed simp

lemma run_write_half:
  "run_calls call cs st = (rs, st') \<Longrightarrow>
   run_calls (send_call q) (filter (\<lambda>c. \<not> is_read c) cs) (send_of st) =
     (map Some (filter (\<lambda>r. \<not> is_read_result r) rs), send_of st')"
proof (induction cs arbitrary: st rs)
  case (Cons c cs)
  obtain res st1 where c: "call c st = (res, st1)" by fastforce
  obtain rs1 where run: "run_calls call cs st1 = (rs1, st')" "rs = res # rs1"
    using Cons.prems c by (auto split: prod.splits)
  show ?case
    using Cons.IH [OF run(1)] read_forwards [OF _ c] write_forwards [OF _ c] result_kind [OF c] run(2)
    by (cases "is_read c") auto
qed simp

lemmas run_halves = run_read_half run_write_half

end

lemmas hs_polls = hs_poll_read_def hs_poll_write_def hs_poll_flush_def hs_poll_shutdown_def
lemmas ss_polls = ss_poll_read_def ss_poll_write_def ss_poll_flush_def ss_poll_shutdown_def

interpretation hs: duplex q "hs_call q" hs_send hs_recv for q :: "('cx, 's, 'r) quinn_halves"
proof
  fix c :: "'cx poll_call" and st st' :: "('s, 'r) hysteria2_stream" and res
  assume call: "hs_call q c st = (res, st')"
  show "is_read c \<Longrightarrow> recv_call q c (hs_recv st) = (Some res, hs_recv st') \<and> hs_send st' = hs_send st"
    using call by (cases c) (auto simp: hs_polls split: prod.splits)
  show "\<not> is_read c \<Longrightarrow> send_call q c (hs_send st) = (Some res, hs_send st') \<and> hs_recv st' = hs_recv st"
    using call by (cases c) (auto simp: hs_polls split: prod.splits)
  show "is_read_result res = is_read c"
    using call by (cases c) (auto simp: hs_polls split: prod.splits)
qed

interpretation ss: duplex q "ss_call q" ss_send ss_recv for q :: "('cx, 's, 'r) quinn_halves"
proof
  fix c :: "'cx poll_call" and st st' :: "('s, 'r) shadowquic_stream" and res
  assume call: "ss_call q c st = (res, st')"
  show "is_read c \<Longrightarrow> recv_call q c (ss_recv st) = (Some res, ss_recv st') \<and> ss_send st' = ss_send st"
    using call by (cases c) (auto simp: ss_polls split: prod.splits)
  show "\<not> is_read c \<Longrightarrow> send_call q c (ss_send st) = (Some res, ss_send st') \<and> ss_recv st' = ss_recv st"
    using call by (cases c) (auto simp: ss_polls split: prod.splits)
  show "is_read_result res = is_read c"
    using call by (cases c) (auto simp: ss_polls split: prod.splits)
qed

text \<open>
  Property (C27). Both stream types implement two independent halves: in any interleaving of polls on a
  \<open>Hysteria2Stream\<close> or a \<open>ShadowQuicStream\<close>, the reads return, and leave the receiving half, exactly as if
  they alone had been made on the QUIC receiving stream, and the writes, flushes and shutdowns as if
  they alone had been made on the QUIC sending stream.
\<close>

theorem streams_are_two_halves:
  fixes q :: "('cx, 's, 'r) quinn_halves"
  assumes "run_calls (hs_call q) cs (hysteria2_stream_new snd_half rcv_half) = (rs, h)"
    and "run_calls (ss_call q) ds (shadowquic_stream_new snd_half rcv_half) = (ts, g)"
  shows "run_calls (recv_call q) (filter is_read cs) rcv_half = (map Some (filter is_read_result rs), hs_recv h) \<and>
     run_calls (send_call q) (filter (\<lambda>c. \<not> is_read c) cs) snd_half =
       (map Some (filter (\<lambda>r. \<not> is_read_result r) rs), hs_send h) \<and>
     run_calls (recv_call q) (filter is_read ds) rcv_half = (map Some (filter is_read_result ts), ss_recv g) \<and>
     run_calls (send_call q) (filter (\<lambda>c. \<not> is_read c) ds) snd_half =
       (map Some (filter (\<lambda>r. \<not> is_read_result r) ts), ss_send g)"
  using hs.run_halves [OF assms(1)] ss.run_halves [OF assms(2)]
  by (simp_all add: hysteria2_stream_new_def shadowquic_stream_new_def)

definition demo_halves :: "(unit, writer, reader) quinn_halves" where
  "demo_halves = \<lparr>recv_poll_read = \<lambda>_ buf r. ((PollReady (Inr ()),
         \<lparr>rb_filled = rb_filled buf @ take (rb_remaining buf) (pending r),
          rb_remaining = rb_remaining buf - length (pending r)\<rparr>),
         r\<lparr>pending := drop (rb_remaining buf) (pending r)\<rparr>),
     send_poll_write = \<lambda>_ bs w. (PollReady (Inr (length bs)), emit bs w),
     send_poll_flush = \<lambda>_ w. (PollReady (Inr ()), w),
     send_poll_shutdown = \<lambda>_ w. (PollReady (Inr ()), w\<lparr>room := Some 0\<rparr>)\<rparr>"

definition demo_calls :: "unit poll_call list" where
  "demo_calls = [PollWrite () [1], PollRead () \<lparr>rb_filled = [], rb_remaining = 2\<rparr>, PollWrite () [2], PollShutdown ()]"

theorem streams_are_two_halves_witness:
  "\<exists>rs h. run_calls (hs_call demo_halves) demo_calls
      (hysteria2_stream_new fresh_writer \<lparr>pending = [7, 8, 9], ending = Finished\<rparr>) = (rs, h) \<and>
     hs_recv h = \<lparr>pending = [9], ending = Finished\<rparr> \<and> hs_send h = \<lparr>written = [1, 2], room = Some 0\<rparr>"
proof -
  obtain rs h where hs: "run_calls (hs_call demo_halves) demo_calls
      (hysteria2_stream_new fresh_writer \<lparr>pending = [7, 8, 9], ending = Finished\<rparr>) = (rs, h)"
    by fastforce
  obtain ts g where ss: "run_calls (ss_call demo_halves) demo_calls
      (shadowquic_stream_new fresh_writer \<lparr>pending = [7, 8, 9], ending = Finished\<rparr>) = (ts, g)"
    by fastforce
  from streams_are_two_halves [OF hs ss]
  have "hs_recv h = \<lparr>pending = [9], ending = Finished\<rparr>" "hs_send h = \<lparr>written = [1, 2], room = Some 0\<rparr>"
    by (auto simp: demo_calls_def demo_halves_def fresh_writer_def emit_def)
  with hs show ?thesis by blast
qed

end
