(* ===== verification/Transport.thy ===== *)
theory Transport
  imports Congestion
begin

text \<open>
  \<open>src/src/transport.rs\<close> (flow-control windows that follow bandwidth and round-trip time) and the
  transport configurations of \<open>src/src/hysteria2/transport.rs\<close> and \<open>src/src/shadowquic/mod.rs\<close>.
  Arithmetic is at the widths of the code: 128-bit saturating products, 64-bit windows. The default
  configuration of the QUIC library is a parameter.
\<close>


section \<open>Adaptive windows\<close>

definition saturating_mul :: "nat \<Rightarrow> nat \<Rightarrow> nat \<Rightarrow> nat" where
  "saturating_mul w a b = min (a * b) (2 ^ w - 1)"

definition WINDOW_HEADROOM :: nat where
  "WINDOW_HEADROOM = 2"

definition INITIAL_WINDOW_PACKETS :: nat where
  "INITIAL_WINDOW_PACKETS = 10"

text \<open>\<open>rtt\<close> is in nanoseconds.\<close>

definition adaptive_window :: "u64 \<Rightarrow> nat \<Rightarrow> u64 \<Rightarrow> u64" where
  "adaptive_window rate rtt minimum =
     (let bdp = saturating_mul 128 (unat rate) rtt div 1000000000;
          target = min (saturating_mul 128 bdp WINDOW_HEADROOM) (2 ^ 64 - 1)
      in max (word_of_nat target) minimum)"

record path_stats =
  path_rtt :: nat
  path_mtu :: u16
  path_cwnd :: u64

text \<open>\<open>receive_window\<close> is a QUIC integer: \<open>VarInt::try_from\<close> fails from $2^{62}$ on.\<close>

record windows =
  send_window :: u64
  receive_window :: u64

definition VARINT_LIMIT :: u64 where
  "VARINT_LIMIT = 4611686018427387903"

definition u64_saturating_mul :: "u64 \<Rightarrow> nat \<Rightarrow> u64" where
  "u64_saturating_mul a b = word_of_nat (saturating_mul 64 (unat a) b)"

definition update_connection_windows :: "path_stats \<Rightarrow> u64 \<Rightarrow> u64 \<Rightarrow> u64 \<Rightarrow> u64 \<Rightarrow> windows" where
  "update_connection_windows stats send_rate receive_rate minimum_send minimum_receive =
     (let rtt = path_rtt stats;
          mtu_window = u64_saturating_mul (ucast (path_mtu stats)) INITIAL_WINDOW_PACKETS;
          send = max (max (adaptive_window send_rate rtt minimum_send)
                          (u64_saturating_mul (path_cwnd stats) WINDOW_HEADROOM)) mtu_window;
          receive = max (adaptive_window receive_rate rtt minimum_receive) mtu_window
      in \<lparr>send_window = send, receive_window = (if receive \<le> VARINT_LIMIT then receive else VARINT_LIMIT)\<rparr>)"

text \<open>
  \<open>AdaptiveWindowTask\<close>: one update at once, then one per tick until the connection has closed. A tick
  carries the statistics at that moment, or \<open>None\<close> once the connection is closed.
\<close>

fun window_task :: "(path_stats \<Rightarrow> windows) \<Rightarrow> path_stats option list \<Rightarrow> windows list" where
  "window_task update [] = []"
| "window_task update (None # ticks) = []"
| "window_task update (Some stats # ticks) = update stats # window_task update ticks"

definition adaptive_window_task ::
  "path_stats \<Rightarrow> path_stats option list \<Rightarrow> u64 \<Rightarrow> u64 \<Rightarrow> u64 \<Rightarrow> u64 \<Rightarrow> windows list" where
  "adaptive_window_task stats ticks send_rate receive_rate minimum_send minimum_receive =
     (let update = (\<lambda>st. update_connection_windows st send_rate receive_rate minimum_send minimum_receive)
      in update stats # window_task update ticks)"

lemma unat_max: "unat (max a b) = max (unat a) (unat (b :: 'a::len word))"
  by (simp add: max_def word_le_nat_alt)

lemma unat_u64_saturating_mul: "unat (u64_saturating_mul a b) = min (unat a * b) (2 ^ 64 - 1)"
proof -
  have "saturating_mul 64 (unat a) b < 2 ^ 64"
    unfolding saturating_mul_def by (rule le_less_trans [OF min.cobounded2]) simp
  then have "unat (word_of_nat (saturating_mul 64 (unat a) b) :: u64) = saturating_mul 64 (unat a) b"
    by (intro unat_of_nat_small) simp
  then show ?thesis
    by (simp add: u64_saturating_mul_def saturating_mul_def)
qed

lemma saturation_unobservable:
  fixes x :: nat
  shows "min (min (min x (2 ^ 128 - 1) div 1000000000 * 2) (2 ^ 128 - 1)) (2 ^ 64 - 1) =
    min (x div 1000000000 * 2) (2 ^ 64 - 1)"
proof (cases "x \<le> 2 ^ 128 - 1")
  case True
  then show ?thesis by (simp add: min_def)
next
  case False
  have "2 ^ 64 - 1 \<le> (2 ^ 128 - 1 :: nat) div 1000000000 * 2"
    by simp
  moreover have "(2 ^ 128 - 1 :: nat) div 1000000000 \<le> x div 1000000000"
    using False by (intro div_le_mono) simp
  ultimately have "2 ^ 64 - 1 \<le> x div 1000000000 * 2"
    by linarith
  then show ?thesis
    using False by (simp add: min_absorb2)
qed

lemma unat_adaptive_window:
  "unat (adaptive_window rate rtt m) = max (min (unat rate * rtt div 1000000000 * 2) (2 ^ 64 - 1)) (unat m)"
proof -
  let ?t = "min (saturating_mul 128 (saturating_mul 128 (unat rate) rtt div 1000000000) 2) (2 ^ 64 - 1)"
  have "?t < 2 ^ 64"
    by (rule le_less_trans [OF min.cobounded2]) simp
  then have "unat (word_of_nat ?t :: u64) = ?t"
    by (intro unat_of_nat_small) simp
  moreover have "?t = min (unat rate * rtt div 1000000000 * 2) (2 ^ 64 - 1)"
    unfolding saturating_mul_def by (rule saturation_unobservable)
  ultimately show ?thesis
    by (simp only: adaptive_window_def WINDOW_HEADROOM_def Let_def unat_max)
qed


section \<open>Transport configuration\<close>

definition STREAM_RECEIVE_WINDOW :: u32 where
  "STREAM_RECEIVE_WINDOW = 8 * 1024 * 1024"

definition CONNECTION_RECEIVE_WINDOW :: u32 where
  "CONNECTION_RECEIVE_WINDOW = 20 * 1024 * 1024"

definition SEND_WINDOW :: u64 where
  "SEND_WINDOW = 20 * 1024 * 1024"

definition DATAGRAM_BUFFER_SIZE :: nat where
  "DATAGRAM_BUFFER_SIZE = 2500000"

definition MAX_CONCURRENT_STREAMS :: u32 where
  "MAX_CONCURRENT_STREAMS = 1000"

definition SHADOWQUIC_INITIAL_MTU :: u16 where
  "SHADOWQUIC_INITIAL_MTU = 1300"

definition SHADOWQUIC_MIN_MTU :: u16 where
  "SHADOWQUIC_MIN_MTU = 1290"

record quic_transport_options =
  initial_packet_size :: u16
  disable_path_mtu_discovery :: bool

text \<open>The fields of quinn's \<open>TransportConfig\<close> the crate sets; durations in milliseconds.\<close>

record transport_config =
  switchable_congestion :: bool
  stream_receive_window :: u32
  config_receive_window :: u32
  config_send_window :: u64
  datagram_receive_buffer :: "nat option"
  datagram_send_buffer :: nat
  max_idle_timeout :: "nat option"
  keep_alive_interval :: "nat option"
  config_initial_mtu :: u16
  config_min_mtu :: u16
  mtu_discovery :: bool
  max_bidi_streams :: u64
  max_uni_streams :: u64

text \<open>The builder never sets an MTU below 1200 (\<open>INITIAL_MTU\<close> of quinn, as in the vendored copy).\<close>

definition INITIAL_MTU :: u16 where
  "INITIAL_MTU = 1200"

definition set_initial_mtu :: "u16 \<Rightarrow> transport_config \<Rightarrow> transport_config" where
  "set_initial_mtu v c = c\<lparr>config_initial_mtu := max v INITIAL_MTU\<rparr>"

definition set_min_mtu :: "u16 \<Rightarrow> transport_config \<Rightarrow> transport_config" where
  "set_min_mtu v c = c\<lparr>config_min_mtu := max v INITIAL_MTU\<rparr>"

definition get_initial_mtu :: "transport_config \<Rightarrow> u16" where
  "get_initial_mtu c = max (config_initial_mtu c) (config_min_mtu c)"

definition base_transport_config :: "transport_config \<Rightarrow> quic_transport_options \<Rightarrow> transport_config" where
  "base_transport_config defaults options =
     (let transport = defaults\<lparr>switchable_congestion := True,
            stream_receive_window := STREAM_RECEIVE_WINDOW,
            config_receive_window := CONNECTION_RECEIVE_WINDOW,
            config_send_window := SEND_WINDOW,
            datagram_receive_buffer := Some DATAGRAM_BUFFER_SIZE,
            datagram_send_buffer := DATAGRAM_BUFFER_SIZE,
            max_idle_timeout := Some 30000,
            keep_alive_interval := Some 10000\<rparr>;
          transport = (if initial_packet_size options > 0
                       then set_initial_mtu (initial_packet_size options) transport else transport)
      in if disable_path_mtu_discovery options then transport\<lparr>mtu_discovery := False\<rparr> else transport)"

definition shadowquic_transport_config :: "transport_config \<Rightarrow> transport_config" where
  "shadowquic_transport_config defaults =
     (let transport = base_transport_config defaults \<lparr>initial_packet_size = 0, disable_path_mtu_discovery = False\<rparr>
      in set_initial_mtu SHADOWQUIC_INITIAL_MTU
           (set_min_mtu SHADOWQUIC_MIN_MTU
             (transport\<lparr>max_bidi_streams := ucast MAX_CONCURRENT_STREAMS, max_uni_streams := ucast MAX_CONCURRENT_STREAMS,
                        datagram_receive_buffer := Some DATAGRAM_BUFFER_SIZE,
                        datagram_send_buffer := DATAGRAM_BUFFER_SIZE\<rparr>)))"


section \<open>Properties\<close>

text \<open>
  (C23) \<open>adaptive_window\<close> is twice the bandwidth-delay product, capped at the largest 64-bit value and
  never below the minimum; the 128-bit saturations on the way never show in the result.
\<close>

theorem adaptive_window_exact:
  "unat (adaptive_window rate rtt minimum) =
     max (min (2 * (unat rate * rtt div 1000000000)) (2 ^ 64 - 1)) (unat minimum)"
  by (simp only: unat_adaptive_window mult.commute)

text \<open>
  (C24) The windows the task installs. The send window is at least the minimum send window, ten packets
  and twice the congestion window (or 2^64 - 1, if that is less): it does not limit the controller.
  The receive window is below 2^62, the range of a QUIC integer, at least ten packets, and at
  least the minimum receive window when that is in the range. No window is installed after
  the connection closed.
\<close>

theorem adaptive_window_task_room:
  assumes "w \<in> set (adaptive_window_task stats ticks sr rr ms mr)"
  shows "\<exists>st. (st = stats \<or> Some st \<in> set (takeWhile (\<lambda>t. t \<noteq> None) ticks)) \<and>
    unat ms \<le> unat (send_window w) \<and> 10 * unat (path_mtu st) \<le> unat (send_window w) \<and>
    min (2 * unat (path_cwnd st)) (2 ^ 64 - 1) \<le> unat (send_window w) \<and>
    unat (receive_window w) < 2 ^ 62 \<and>
    (unat mr < 2 ^ 62 \<longrightarrow> unat mr \<le> unat (receive_window w)) \<and> 10 * unat (path_mtu st) \<le> unat (receive_window w)"
proof -
  have ticks: "v \<in> set (window_task u ts) \<Longrightarrow> \<exists>st. Some st \<in> set (takeWhile (\<lambda>t. t \<noteq> None) ts) \<and> v = u st" for u v ts
    by (induction u ts rule: window_task.induct) auto
  obtain st where st: "st = stats \<or> Some st \<in> set (takeWhile (\<lambda>t. t \<noteq> None) ticks)"
    and w: "w = update_connection_windows st sr rr ms mr"
    using assms ticks by (fastforce simp: adaptive_window_task_def Let_def)
  have mtu: "unat (ucast (path_mtu st) :: u64) = unat (path_mtu st)"
    using unat_u16_less [of "path_mtu st"] by (simp add: unsigned_ucast_eq take_bit_nat_eq_self_iff)
  then have "unat (u64_saturating_mul (ucast (path_mtu st)) 10) = 10 * unat (path_mtu st)"
    using unat_u16_less [of "path_mtu st"] by (simp add: unat_u64_saturating_mul)
  moreover have "unat (u64_saturating_mul (path_cwnd st) 2) = min (2 * unat (path_cwnd st)) (2 ^ 64 - 1)"
    by (simp only: unat_u64_saturating_mul mult.commute)
  moreover have "unat VARINT_LIMIT = 2 ^ 62 - 1" "unat (path_mtu st) < 65536"
    using unat_u16_less by (simp_all add: VARINT_LIMIT_def)
  moreover have "unat m \<le> unat (adaptive_window r t m)" for r t m
    by (simp add: unat_adaptive_window)
  ultimately have
    "unat ms \<le> unat (send_window w)" "10 * unat (path_mtu st) \<le> unat (send_window w)"
    "min (2 * unat (path_cwnd st)) (2 ^ 64 - 1) \<le> unat (send_window w)"
    "unat (receive_window w) < 2 ^ 62"
    "unat mr < 2 ^ 62 \<longrightarrow> unat mr \<le> unat (receive_window w)" "10 * unat (path_mtu st) \<le> unat (receive_window w)"
    unfolding w update_connection_windows_def Let_def INITIAL_WINDOW_PACKETS_def WINDOW_HEADROOM_def
    by (auto simp: unat_max word_le_nat_alt le_max_iff_disj)
  with st show ?thesis by blast
qed

theorem adaptive_window_task_room_witness:
  "\<exists>w. adaptive_window_task \<lparr>path_rtt = 5, path_mtu = 1200, path_cwnd = 9\<rparr> [] 1 2 3 4 = [w] \<and> 12000 \<le> unat (send_window w)"
proof -
  let ?s = "\<lparr>path_rtt = 5, path_mtu = 1200, path_cwnd = 9\<rparr>"
  obtain w where w: "adaptive_window_task ?s [] 1 2 3 4 = [w]"
    by (simp add: adaptive_window_task_def)
  then show ?thesis
    using adaptive_window_task_room [of w ?s "[]" 1 2 3 4] by auto
qed

text \<open>
  The effective first packet size of both transports is never below the minimum they configure:
  1300 over 1290 bytes for ShadowQUIC, and at least 1200 for Hysteria2 whatever size is asked for;
  both use the switchable controller that the congestion switch needs, and keep the connection
  alive more often than it can time out.
\<close>

theorem transport_config_mtu:
  assumes "config_initial_mtu defaults \<ge> INITIAL_MTU" "config_min_mtu defaults = INITIAL_MTU"
  shows "config_initial_mtu (shadowquic_transport_config defaults) = 1300 \<and>
    config_min_mtu (shadowquic_transport_config defaults) = 1290 \<and>
    get_initial_mtu (base_transport_config defaults options) \<ge> 1200 \<and>
    (initial_packet_size options > 1200 \<longrightarrow>
       get_initial_mtu (base_transport_config defaults options) = initial_packet_size options) \<and>
    (\<forall>c \<in> {shadowquic_transport_config defaults, base_transport_config defaults options}.
       switchable_congestion c \<and> the (keep_alive_interval c) < the (max_idle_timeout c))"
  using assms less_trans [of 0 1200 "initial_packet_size options"]
  by (auto simp: shadowquic_transport_config_def base_transport_config_def Let_def set_initial_mtu_def set_min_mtu_def
      get_initial_mtu_def INITIAL_MTU_def SHADOWQUIC_INITIAL_MTU_def SHADOWQUIC_MIN_MTU_def max_def)

theorem transport_config_mtu_witness:
  "get_initial_mtu (base_transport_config \<lparr>switchable_congestion = False, stream_receive_window = 1, config_receive_window = 1,
     config_send_window = 1, datagram_receive_buffer = None, datagram_send_buffer = 1, max_idle_timeout = None,
     keep_alive_interval = None, config_initial_mtu = 1200, config_min_mtu = 1200, mtu_discovery = True,
     max_bidi_streams = 100, max_uni_streams = 100\<rparr> \<lparr>initial_packet_size = 1400, disable_path_mtu_discovery = False\<rparr>) = 1400"
  by (subst transport_config_mtu [THEN conjunct2, THEN conjunct2, THEN conjunct2, THEN conjunct1, THEN mp])
    (simp_all add: INITIAL_MTU_def)

end
