(* ===== verification/Quic_Setup.thy ===== *)
theory Quic_Setup
  imports Std_Net Transport Sq_IO
begin

text \<open>
  What every endpoint of the crate is built from: the UDP socket of \<open>src/src/hysteria2/transport.rs\<close>
  (\<open>bind_udp_socket\<close>, \<open>tune_udp_socket\<close>, \<open>bind_endpoint\<close>), trust anchors and private keys. The operating
  system and the TLS library are parameters: records of what their calls answer. A function that
  touches the system returns, beside its result, the calls it made and what it logged, in order.
\<close>


section \<open>Sockets\<close>

datatype domain = Ipv4Domain | Ipv6Domain

fun domain_of :: "ip_addr \<Rightarrow> domain" where
  "domain_of (V4 a) = Ipv4Domain"
| "domain_of (V6 a) = Ipv6Domain"

datatype socket_op =
    NewSocket domain
  | SetOnlyV6 bool
  | BindTo socket_addr
  | SetSendBuffer nat
  | SetRecvBuffer nat

datatype socket_log =
    NotDualStack io_error
  | TuningUnavailable io_error
  | SendBufferRefused io_error
  | RecvBufferRefused io_error
  | BuffersLimited nat nat
  | BuffersConfigured nat nat

text \<open>The answers of the operating system and of quinn's socket layer.\<close>

record os_calls =
  os_socket :: "domain \<Rightarrow> io_error option"
  os_only_v6 :: "bool \<Rightarrow> io_error option"
  os_bind :: "socket_addr \<Rightarrow> io_error option"
  os_udp_state :: "io_error option"
  os_set_send_buffer :: "nat \<Rightarrow> io_error option"
  os_set_recv_buffer :: "nat \<Rightarrow> io_error option"
  os_send_buffer :: "io_error + nat"
  os_recv_buffer :: "io_error + nat"
  os_endpoint :: "io_error option"
  os_local_addr :: "socket_addr \<Rightarrow> io_error + socket_addr"

type_synonym socket_trace = "socket_op list \<times> socket_log list"

definition UDP_SOCKET_BUFFER_SIZE :: nat where
  "UDP_SOCKET_BUFFER_SIZE = 16 * 1024 * 1024"

text \<open>A socket that cannot be made dual-stack is used as it is.\<close>

definition bind_udp_socket :: "os_calls \<Rightarrow> socket_addr \<Rightarrow> (io_error + unit) \<times> socket_trace" where
  "bind_udp_socket os address =
     (let domain = domain_of (ip address)
      in case os_socket os domain of
           Some e \<Rightarrow> (Inl e, [NewSocket domain], [])
         | None \<Rightarrow>
             (let (ops, logs) =
                (if domain = Ipv6Domain
                 then ([SetOnlyV6 False], case os_only_v6 os False of Some e \<Rightarrow> [NotDualStack e] | None \<Rightarrow> [])
                 else ([], []))
              in (case os_bind os address of Some e \<Rightarrow> Inl e | None \<Rightarrow> Inr (),
                  NewSocket domain # ops @ [BindTo address], logs)))"

definition unwrap_or_default :: "'e + nat \<Rightarrow> nat" where
  "unwrap_or_default r = (case r of Inl _ \<Rightarrow> 0 | Inr n \<Rightarrow> n)"

definition tune_udp_socket :: "os_calls \<Rightarrow> socket_trace" where
  "tune_udp_socket os = (case os_udp_state os of
       Some e \<Rightarrow> ([], [TuningUnavailable e])
     | None \<Rightarrow>
         (let send_buffer = unwrap_or_default (os_send_buffer os);
              receive_buffer = unwrap_or_default (os_recv_buffer os)
          in ([SetSendBuffer UDP_SOCKET_BUFFER_SIZE, SetRecvBuffer UDP_SOCKET_BUFFER_SIZE],
              (case os_set_send_buffer os UDP_SOCKET_BUFFER_SIZE of Some e \<Rightarrow> [SendBufferRefused e] | None \<Rightarrow> []) @
              (case os_set_recv_buffer os UDP_SOCKET_BUFFER_SIZE of Some e \<Rightarrow> [RecvBufferRefused e] | None \<Rightarrow> []) @
              (if send_buffer < UDP_SOCKET_BUFFER_SIZE \<or> receive_buffer < UDP_SOCKET_BUFFER_SIZE
               then [BuffersLimited send_buffer receive_buffer]
               else [BuffersConfigured send_buffer receive_buffer]))))"


section \<open>TLS\<close>

datatype trust_anchor = WebPkiRoots | CaCertificate bytes

datatype private_key = Pkcs8 bytes | Pkcs1 bytes | Sec1 bytes

text \<open>
  The configurations of the TLS library, as far as the crate sets them. The JLS server configuration is
  built by a chain of calls into the library; it is represented by the chain.
\<close>

datatype jls_call =
    JlsEnable bool
  | JlsRateLimit u64
  | JlsUpstreamAddr string
  | JlsServerName string
  | JlsAddUser string string

record tls_client =
  tls_roots :: "trust_anchor list"
  tls_client_alpn :: "string list"
  tls_early_data :: bool
  tls_jls_client :: "(string \<times> string) option"

record tls_server =
  tls_certificates :: "bytes list"
  tls_private_key :: private_key
  tls_server_alpn :: "string list"
  tls_max_early_data :: u32
  tls_jls_server :: "jls_call list option"

record quic_client_config =
  qc_tls :: tls_client
  qc_transport :: transport_config

record quic_server_config =
  qs_tls :: tls_server
  qs_transport :: transport_config
  qs_disable_path_manager :: "bool option"

record tls_library =
  lib_add_root :: "bytes \<Rightarrow> string option"
  lib_unsupported :: "private_key \<Rightarrow> string option"
  lib_single_cert :: "bytes list \<Rightarrow> private_key \<Rightarrow> string option"
  lib_self_signed :: "string list \<Rightarrow> string + (bytes \<times> bytes)"
  lib_quic_client :: "tls_client \<Rightarrow> string option"
  lib_quic_server :: "tls_server \<Rightarrow> string option"
  lib_transport_defaults :: transport_config

definition ALPN_H3 :: string where
  "ALPN_H3 = ''h3''"

text \<open>The loop that adds CA certificates: the first one the library refuses ends it.\<close>

fun add_roots :: "tls_library \<Rightarrow> trust_anchor list \<Rightarrow> bytes list \<Rightarrow> trust_anchor list result" where
  "add_roots lib roots [] = Inr roots"
| "add_roots lib roots (c # cs) = (case lib_add_root lib c of
       Some e \<Rightarrow> Inl (Tls e)
     | None \<Rightarrow> add_roots lib (roots @ [CaCertificate c]) cs)"

text \<open>\<open>detect_private_key\<close>: the first of the three encodings the crypto library supports.\<close>

fun first_supported :: "(private_key \<Rightarrow> string option) \<Rightarrow> string option \<Rightarrow> private_key list \<Rightarrow> private_key result" where
  "first_supported unsupported last_error [] =
     (case last_error of None \<Rightarrow> Inl (Panic ''private key candidates'') | Some e \<Rightarrow> Inl (Tls e))"
| "first_supported unsupported last_error (k # ks) =
     (case unsupported k of None \<Rightarrow> Inr k | Some e \<Rightarrow> first_supported unsupported (Some e) ks)"

definition detect_private_key :: "(private_key \<Rightarrow> string option) \<Rightarrow> bytes \<Rightarrow> private_key result" where
  "detect_private_key unsupported key = first_supported unsupported None [Pkcs8 key, Pkcs1 key, Sec1 key]"

text \<open>\<open>with_single_cert\<close> and the two \<open>try_from\<close> conversions into QUIC configurations.\<close>

definition single_cert :: "tls_library \<Rightarrow> bytes list \<Rightarrow> private_key \<Rightarrow> tls_server result" where
  "single_cert lib certificates key = (case lib_single_cert lib certificates key of
       Some e \<Rightarrow> Inl (Tls e)
     | None \<Rightarrow> Inr \<lparr>tls_certificates = certificates, tls_private_key = key, tls_server_alpn = [],
                    tls_max_early_data = 0, tls_jls_server = None\<rparr>)"

definition quic_client_crypto :: "tls_library \<Rightarrow> tls_client \<Rightarrow> tls_client result" where
  "quic_client_crypto lib tls = (case lib_quic_client lib tls of Some e \<Rightarrow> Inl (QuicTls e) | None \<Rightarrow> Inr tls)"

definition quic_server_crypto :: "tls_library \<Rightarrow> tls_server \<Rightarrow> tls_server result" where
  "quic_server_crypto lib tls = (case lib_quic_server lib tls of Some e \<Rightarrow> Inl (QuicTls e) | None \<Rightarrow> Inr tls)"


section \<open>Endpoints\<close>

record endpoint =
  endpoint_bound :: socket_addr
  endpoint_server :: "quic_server_config option"
  endpoint_client :: "quic_client_config option"
  endpoint_open :: bool

definition bind_endpoint ::
  "os_calls \<Rightarrow> socket_addr \<Rightarrow> quic_server_config option \<Rightarrow> (io_error + endpoint) \<times> socket_trace" where
  "bind_endpoint os address server_config = (case bind_udp_socket os address of
       (Inl e, trace) \<Rightarrow> (Inl e, trace)
     | (Inr _, ops, logs) \<Rightarrow>
         (let (tune_ops, tune_logs) = tune_udp_socket os
          in (case os_endpoint os of
                Some e \<Rightarrow> Inl e
              | None \<Rightarrow> Inr \<lparr>endpoint_bound = address, endpoint_server = server_config, endpoint_client = None,
                             endpoint_open = True\<rparr>,
              ops @ tune_ops, logs @ tune_logs)))"

text \<open>A client binds the unspecified address of the server's family, port 0.\<close>

definition client_bind_address :: "socket_addr \<Rightarrow> socket_addr" where
  "client_bind_address server = (case ip server of
       V4 _ \<Rightarrow> \<lparr>ip = V4 0, sport = 0\<rparr>
     | V6 _ \<Rightarrow> \<lparr>ip = V6 0, sport = 0\<rparr>)"

definition endpoint_local_addr :: "os_calls \<Rightarrow> endpoint \<Rightarrow> socket_addr result" where
  "endpoint_local_addr os ep = map_errR Io (os_local_addr os (endpoint_bound ep))"

definition endpoint_close :: "endpoint \<Rightarrow> endpoint" where
  "endpoint_close ep = ep\<lparr>endpoint_open := False\<rparr>"

text \<open>
  The common end of the three client constructors: a QUIC configuration, then a socket, then the
  endpoint with that configuration.
\<close>

definition client_endpoint ::
  "os_calls \<Rightarrow> socket_addr \<Rightarrow> quic_client_config result \<Rightarrow> endpoint result \<times> socket_trace" where
  "client_endpoint os server config = (case config of
       Inl e \<Rightarrow> (Inl e, [], [])
     | Inr config \<Rightarrow>
         (case bind_endpoint os (client_bind_address server) None of
            (Inl e, trace) \<Rightarrow> (Inl (Io e), trace)
          | (Inr ep, trace) \<Rightarrow> (Inr (ep\<lparr>endpoint_client := Some config\<rparr>), trace)))"


section \<open>Facts\<close>

lemma add_roots_eq:
  "add_roots lib roots cs =
     (case List.find (\<lambda>c. lib_add_root lib c \<noteq> None) cs of
        Some c \<Rightarrow> Inl (Tls (the (lib_add_root lib c)))
      | None \<Rightarrow> Inr (roots @ map CaCertificate cs))"
  by (induction lib roots cs rule: add_roots.induct) (simp_all split: option.splits)

lemma add_roots_Inr_iff:
  "add_roots lib roots cs = Inr rs \<longleftrightarrow> (\<forall>c \<in> set cs. lib_add_root lib c = None) \<and> rs = roots @ map CaCertificate cs"
  by (auto simp: add_roots_eq find_None_iff find_Some_iff split: option.splits)

lemma first_supported_no_panic:
  "first_supported unsupported (Some e) ks \<noteq> Inl (Panic why)"
  by (induction ks arbitrary: e) (simp_all split: option.splits)

lemma detect_private_key_no_panic: "detect_private_key unsupported key \<noteq> Inl (Panic why)"
  using first_supported_no_panic by (simp add: detect_private_key_def split: option.splits)

lemma detect_private_key_Inr:
  "detect_private_key unsupported key = Inr k \<Longrightarrow> unsupported k = None \<and> k \<in> {Pkcs8 key, Pkcs1 key, Sec1 key}"
  by (auto simp: detect_private_key_def split: option.splits)

lemma single_cert_Inr:
  "single_cert lib cs k = Inr tls \<longleftrightarrow> lib_single_cert lib cs k = None \<and>
     tls = \<lparr>tls_certificates = cs, tls_private_key = k, tls_server_alpn = [], tls_max_early_data = 0, tls_jls_server = None\<rparr>"
  by (auto simp: single_cert_def split: option.splits)

lemma quic_client_crypto_Inr: "quic_client_crypto lib tls = Inr tls' \<longleftrightarrow> lib_quic_client lib tls = None \<and> tls' = tls"
  by (auto simp: quic_client_crypto_def split: option.splits)

lemma quic_server_crypto_Inr: "quic_server_crypto lib tls = Inr tls' \<longleftrightarrow> lib_quic_server lib tls = None \<and> tls' = tls"
  by (auto simp: quic_server_crypto_def split: option.splits)

lemmas setup_iffs = add_roots_Inr_iff single_cert_Inr quic_client_crypto_Inr quic_server_crypto_Inr

lemma bind_udp_socket_result:
  "fst (bind_udp_socket os a) =
     (case os_socket os (domain_of (ip a)) of Some e \<Rightarrow> Inl e
      | None \<Rightarrow> (case os_bind os a of Some e \<Rightarrow> Inl e | None \<Rightarrow> Inr ()))"
  by (simp add: bind_udp_socket_def Let_def split: option.splits prod.splits)

lemma bind_endpoint_Inr:
  "bind_endpoint os a cfg = (Inr ep, trace) \<Longrightarrow>
   ep = \<lparr>endpoint_bound = a, endpoint_server = cfg, endpoint_client = None, endpoint_open = True\<rparr>"
  by (auto simp: bind_endpoint_def Let_def split: prod.splits sum.splits option.splits)

lemma client_endpoint_Inr:
  assumes "client_endpoint os server config = (Inr ep, trace)"
  shows "\<exists>c. config = Inr c \<and> ep = \<lparr>endpoint_bound = client_bind_address server, endpoint_server = None,
    endpoint_client = Some c, endpoint_open = True\<rparr>"
  using assms by (auto simp: client_endpoint_def dest: bind_endpoint_Inr split: sum.splits prod.splits)

lemma client_bind_family: "domain_of (ip (client_bind_address server)) = domain_of (ip server)"
  by (simp add: client_bind_address_def split: ip_addr.splits)


section \<open>Properties\<close>

text \<open>
  (C37) Opening an endpoint fails exactly with the first error of creating the socket, binding it and
  creating the endpoint; what only degrades it (no dual-stack mode, socket buffers that cannot be
  tuned or are too small) never does. An IPv6 socket is asked to serve IPv4 too before it is bound.
  A tuned socket is logged as limited exactly when a buffer is below 16 MiB or cannot be read.
\<close>

theorem bind_endpoint_outcome:
  fixes os a cfg
  defines "r \<equiv> bind_endpoint os a cfg"
  shows "fst r = (case os_socket os (domain_of (ip a)) of Some e \<Rightarrow> Inl e
      | None \<Rightarrow> (case os_bind os a of Some e \<Rightarrow> Inl e
      | None \<Rightarrow> (case os_endpoint os of Some e \<Rightarrow> Inl e
      | None \<Rightarrow> Inr \<lparr>endpoint_bound = a, endpoint_server = cfg, endpoint_client = None, endpoint_open = True\<rparr>))) \<and>
    (BindTo a \<in> set (fst (snd r)) \<and> domain_of (ip a) = Ipv6Domain \<longrightarrow>
       take 3 (fst (snd r)) = [NewSocket Ipv6Domain, SetOnlyV6 False, BindTo a]) \<and>
    ((\<exists>n m. BuffersLimited n m \<in> set (snd (snd r))) \<longleftrightarrow>
       fst (bind_udp_socket os a) = Inr () \<and> os_udp_state os = None \<and>
       (unwrap_or_default (os_send_buffer os) < 16777216 \<or> unwrap_or_default (os_recv_buffer os) < 16777216))"
proof -
  have result: "fst r = (case fst (bind_udp_socket os a) of Inl e \<Rightarrow> Inl e
      | Inr _ \<Rightarrow> (case os_endpoint os of Some e \<Rightarrow> Inl e
      | None \<Rightarrow> Inr \<lparr>endpoint_bound = a, endpoint_server = cfg, endpoint_client = None, endpoint_open = True\<rparr>))"
    by (simp add: r_def bind_endpoint_def Let_def split: prod.splits sum.splits)
  have ops: "BindTo a \<in> set (fst (snd r)) \<and> domain_of (ip a) = Ipv6Domain \<longrightarrow>
       take 3 (fst (snd r)) = [NewSocket Ipv6Domain, SetOnlyV6 False, BindTo a]"
    by (auto simp: r_def bind_endpoint_def bind_udp_socket_def Let_def split: prod.splits option.splits)
  have quiet: "BuffersLimited n m \<notin> set (snd (snd (bind_udp_socket os a)))" for n m
    by (simp add: bind_udp_socket_def Let_def split: option.splits prod.splits)
  have tuned: "(\<exists>n m. BuffersLimited n m \<in> set (snd (tune_udp_socket os))) \<longleftrightarrow> os_udp_state os = None \<and>
       (unwrap_or_default (os_send_buffer os) < 16777216 \<or> unwrap_or_default (os_recv_buffer os) < 16777216)"
    by (auto simp: tune_udp_socket_def UDP_SOCKET_BUFFER_SIZE_def Let_def split: option.splits)
  have "snd (snd r) = snd (snd (bind_udp_socket os a)) @
      (case fst (bind_udp_socket os a) of Inl _ \<Rightarrow> [] | Inr _ \<Rightarrow> snd (tune_udp_socket os))"
    by (simp add: r_def bind_endpoint_def Let_def split: prod.splits sum.splits)
  then have "(\<exists>n m. BuffersLimited n m \<in> set (snd (snd r))) \<longleftrightarrow>
      fst (bind_udp_socket os a) = Inr () \<and> (\<exists>n m. BuffersLimited n m \<in> set (snd (tune_udp_socket os)))"
    using quiet by (cases "fst (bind_udp_socket os a)") auto
  with tuned have logs: "(\<exists>n m. BuffersLimited n m \<in> set (snd (snd r))) \<longleftrightarrow>
       fst (bind_udp_socket os a) = Inr () \<and> os_udp_state os = None \<and>
       (unwrap_or_default (os_send_buffer os) < 16777216 \<or> unwrap_or_default (os_recv_buffer os) < 16777216)"
    by blast
  from result ops logs show ?thesis
    by (auto simp: bind_udp_socket_result split: option.splits)
qed

definition plain_os :: os_calls where
  "plain_os = \<lparr>os_socket = (\<lambda>_. None), os_only_v6 = (\<lambda>_. Some (OtherIo ''unsupported'')), os_bind = (\<lambda>_. None),
     os_udp_state = None, os_set_send_buffer = (\<lambda>_. None), os_set_recv_buffer = (\<lambda>_. None),
     os_send_buffer = Inr 212992, os_recv_buffer = Inr 16777216, os_endpoint = None, os_local_addr = Inr\<rparr>"

definition plain_library :: "transport_config \<Rightarrow> tls_library" where
  "plain_library defaults =
     \<lparr>lib_add_root = (\<lambda>_. None), lib_unsupported = (\<lambda>_. None), lib_single_cert = (\<lambda>_ _. None),
      lib_self_signed = (\<lambda>_. Inr ([1], [2])), lib_quic_client = (\<lambda>_. None), lib_quic_server = (\<lambda>_. None),
      lib_transport_defaults = defaults\<rparr>"

theorem bind_endpoint_outcome_witness:
  "fst (bind_endpoint plain_os \<lparr>ip = V6 0, sport = 443\<rparr> None) =
     Inr \<lparr>endpoint_bound = \<lparr>ip = V6 0, sport = 443\<rparr>, endpoint_server = None, endpoint_client = None, endpoint_open = True\<rparr> \<and>
   (\<exists>n m. BuffersLimited n m \<in> set (snd (snd (bind_endpoint plain_os \<lparr>ip = V6 0, sport = 443\<rparr> None))))"
  using bind_endpoint_outcome [of plain_os "\<lparr>ip = V6 0, sport = 443\<rparr>" None]
  by (simp add: plain_os_def bind_udp_socket_result unwrap_or_default_def)

end
