(* ===== verification/Varint.thy ===== *)
theory Varint
  imports Sq_IO
begin

text \<open>
  QUIC variable-length integers. The first part is the abstract format (RFC 9000, section 16): two
  tag bits for the length, then the value big-endian; the locales state what an implementation of
  the format promises and derive the wire properties once. The second part models
  \<open>src/src/varint.rs\<close> and interprets the locale on it.
\<close>


section \<open>The wire format\<close>

definition qv_tag :: "nat \<Rightarrow> nat" where
  "qv_tag v = (if v < 2 ^ 6 then 0 else if v < 2 ^ 14 then 1 else if v < 2 ^ 30 then 2 else 3)"

definition qv_encode :: "nat \<Rightarrow> bytes" where
  "qv_encode v = (let n = 2 ^ qv_tag v in be_bytes n (qv_tag v * 2 ^ (8 * n - 2) + v))"

definition qv_decode :: "bytes \<Rightarrow> (nat \<times> bytes) option" where
  "qv_decode bs =
     (if bs = [] then None
      else let n = 2 ^ (unat (hd bs) div 64)
           in if length bs < n then None
              else Some (be_val (take n bs) mod 2 ^ (8 * n - 2), drop n bs))"

lemma qv_tag_cases:
  assumes "v < 2 ^ 62"
  obtains "qv_tag v = 0" "v < 2 ^ 6" | "qv_tag v = 1" "v < 2 ^ 14" | "qv_tag v = 2" "v < 2 ^ 30"
    | "qv_tag v = 3" "v < 2 ^ 62"
  using assms by (cases "v < 2 ^ 6"; cases "v < 2 ^ 14"; cases "v < 2 ^ 30") (auto simp: qv_tag_def)

lemma qv_tag_le: "qv_tag v \<le> 3"
  by (simp add: qv_tag_def)

lemma length_qv_encode: "length (qv_encode v) = 2 ^ qv_tag v"
  by (simp add: qv_encode_def Let_def)

lemma length_qv_encode_bounds: "1 \<le> length (qv_encode v)" "length (qv_encode v) \<le> 8"
proof -
  have "(2::nat) ^ qv_tag v \<le> 2 ^ 3"
    by (rule power_increasing) (simp_all add: qv_tag_le)
  then show "1 \<le> length (qv_encode v)" "length (qv_encode v) \<le> 8"
    by (simp_all add: length_qv_encode)
qed

text \<open>The value of an encoding, the first byte of which carries the tag.\<close>

lemma qv_value_less:
  assumes "v < 2 ^ 62"
  shows "v < 2 ^ (8 * 2 ^ qv_tag v - 2)"
  using assms by (cases rule: qv_tag_cases) simp_all

lemma be_val_qv_encode:
  assumes "v < 2 ^ 62"
  shows "be_val (qv_encode v) = qv_tag v * 2 ^ (8 * 2 ^ qv_tag v - 2) + v"
proof -
  have "qv_tag v * 2 ^ (8 * 2 ^ qv_tag v - 2) + v < 256 ^ 2 ^ qv_tag v"
    using assms by (cases rule: qv_tag_cases) simp_all
  then show ?thesis
    by (simp add: qv_encode_def Let_def be_val_be_bytes_id)
qed

lemma tag_power: "0 < n \<Longrightarrow> (2 :: nat) ^ (8 * n - 2) = 64 * 256 ^ (n - 1)"
proof -
  assume "0 < n"
  then have "8 * n - 2 = 8 * (n - 1) + 6" by arith
  then show ?thesis by (simp only: power_add power_mult) simp
qed

lemma hd_byte_tag:
  assumes "bs \<noteq> []" "be_val bs = t * 2 ^ (8 * length bs - 2) + v" "v < 2 ^ (8 * length bs - 2)"
  shows "unat (hd bs) div 64 = t"
proof -
  obtain b cs where bs: "bs = b # cs"
    using assms(1) by (cases bs) simp_all
  let ?k = "length cs"
  have pow: "2 ^ (8 * length bs - 2) = 64 * (256 :: nat) ^ ?k"
    using tag_power [of "length bs"] by (simp add: bs)
  have "unat b * 256 ^ ?k + be_val cs = t * (64 * 256 ^ ?k) + v"
    using assms(2) by (simp only: bs be_val_Cons pow [unfolded bs])
  then have "(unat b * 256 ^ ?k + be_val cs) div 256 ^ ?k div 64 = (t * (64 * 256 ^ ?k) + v) div (256 ^ ?k * 64)"
    by (simp only: div_mult2_eq)
  then have "(unat b * 256 ^ ?k + be_val cs) div 256 ^ ?k div 64 = (t * (64 * 256 ^ ?k) + v) div (64 * 256 ^ ?k)"
    by (simp only: mult.commute)
  moreover have "(unat b * 256 ^ ?k + be_val cs) div 256 ^ ?k = unat b"
    using be_val_less [of cs] by simp
  moreover have "(t * (64 * 256 ^ ?k) + v) div (64 * 256 ^ ?k) = t"
    using assms(3) by (simp add: pow)
  ultimately show ?thesis
    by (simp add: bs)
qed

theorem qv_roundtrip:
  assumes "v < 2 ^ 62"
  shows "qv_decode (qv_encode v @ rest) = Some (v, rest)"
proof -
  let ?e = "qv_encode v"
  have len: "length ?e = 2 ^ qv_tag v"
    by (rule length_qv_encode)
  have ne: "?e \<noteq> []"
    using len by fastforce
  have val: "be_val ?e = qv_tag v * 2 ^ (8 * length ?e - 2) + v"
    unfolding len by (rule be_val_qv_encode [OF assms])
  have small: "v < 2 ^ (8 * length ?e - 2)"
    unfolding len by (rule qv_value_less [OF assms])
  have tag: "unat (hd ?e) div 64 = qv_tag v"
    by (rule hd_byte_tag [OF ne val small])
  have "qv_decode (?e @ rest) = Some (be_val ?e mod 2 ^ (8 * length ?e - 2), rest)"
    using len ne tag by (simp add: qv_decode_def Let_def)
  then show ?thesis
    using val small by simp
qed

lemma qv_decode_SomeE:
  assumes "qv_decode bs = Some (v, rest)"
  obtains n where "n = 2 ^ (unat (hd bs) div 64)" "n \<le> length bs" "bs \<noteq> []" "rest = drop n bs"
    "v = be_val (take n bs) mod 2 ^ (8 * n - 2)" "n \<in> {1, 2, 4, 8}"
proof -
  obtain b cs where bs: "bs = b # cs"
    using assms by (cases bs) (simp_all add: qv_decode_def)
  have "unat b div 64 < 4"
    using unat_u8_less [of b] by simp
  then have "unat b div 64 \<in> {0, 1, 2, 3}"
    by auto
  then have "(2::nat) ^ (unat b div 64) \<in> {1, 2, 4, 8}"
    by auto
  then show ?thesis
    using that [of "2 ^ (unat b div 64)"] assms
    by (auto simp: bs qv_decode_def Let_def split: if_splits)
qed

lemma qv_decode_bound: "qv_decode bs = Some (v, rest) \<Longrightarrow> v < 2 ^ 62"
proof (erule qv_decode_SomeE)
  fix n
  assume v: "v = be_val (take n bs) mod 2 ^ (8 * n - 2)" and n: "n \<in> {1, 2, 4, 8}"
  have "v < 2 ^ (8 * n - 2)"
    by (simp add: v)
  also have "\<dots> \<le> (2::nat) ^ 62"
    using n by (intro power_increasing) auto
  finally show "v < 2 ^ 62" .
qed

lemma qv_decode_consumes: "qv_decode bs = Some (v, rest) \<Longrightarrow> \<exists>us. bs = us @ rest \<and> us \<noteq> [] \<and> length us \<le> 8"
proof (erule qv_decode_SomeE)
  fix n
  assume "n \<le> length bs" "rest = drop n bs" "n \<in> {1, 2, 4, 8}" "bs \<noteq> []"
  then show "\<exists>us. bs = us @ rest \<and> us \<noteq> [] \<and> length us \<le> 8"
    by (intro exI [of _ "take n bs"]) auto
qed

lemma qv_decode_append: "qv_decode bs = Some (v, rest) \<Longrightarrow> qv_decode (bs @ xs) = Some (v, rest @ xs)"
  by (auto simp: qv_decode_def Let_def split: if_splits)

text \<open>No encoding of a value is shorter than the one \<open>qv_encode\<close> chooses.\<close>

lemma qv_encode_minimal:
  assumes "qv_decode bs = Some (v, rest)"
  shows "length (qv_encode v) + length rest \<le> length bs"
  using assms
proof (rule qv_decode_SomeE)
  fix n
  assume n: "n \<le> length bs" "rest = drop n bs" "v = be_val (take n bs) mod 2 ^ (8 * n - 2)" "n \<in> {1, 2, 4, 8}"
  have "v < 2 ^ (8 * n - 2)"
    by (simp add: n(3))
  then have "2 ^ qv_tag v \<le> n"
    using n(4) by (auto simp: qv_tag_def)
  then show ?thesis
    using n by (simp add: length_qv_encode)
qed


section \<open>What an implementation promises\<close>

locale varint_decoder =
  fixes dec :: "bytes \<Rightarrow> 'f + (u64 \<times> bytes)"
  assumes dec_some: "qv_decode bs = Some (v, rest) \<Longrightarrow> dec bs = Inr (word_of_nat v, rest)"
    and dec_none: "qv_decode bs = None \<Longrightarrow> \<exists>e. dec bs = Inl e"
begin

lemma dec_Inr_iff: "dec bs = Inr (w, rest) \<longleftrightarrow> qv_decode bs = Some (unat w, rest)"
proof (cases "qv_decode bs")
  case None
  with dec_none [of bs] show ?thesis by fastforce
next
  case (Some p)
  obtain v r where p: "p = (v, r)" by (cases p)
  have "v < 2 ^ 62"
    using Some p qv_decode_bound by blast
  then have "unat (word_of_nat v :: u64) = v"
    by (intro unat_of_nat_small) simp
  then show ?thesis
    using Some p dec_some [of bs v r] by auto
qed

lemma dec_bound: "dec bs = Inr (w, rest) \<Longrightarrow> unat w < 2 ^ 62"
  by (auto simp: dec_Inr_iff dest: qv_decode_bound)

lemma dec_progress: "dec bs = Inr (w, rest) \<Longrightarrow> length rest < length bs"
  by (auto simp: dec_Inr_iff dest: qv_decode_consumes)

lemma dec_append: "dec bs = Inr (w, rest) \<Longrightarrow> dec (bs @ xs) = Inr (w, rest @ xs)"
  by (simp add: dec_Inr_iff qv_decode_append)

lemma dec_encoded: "unat w < 2 ^ 62 \<Longrightarrow> dec (qv_encode (unat w) @ rest) = Inr (w, rest)"
  by (simp add: dec_Inr_iff qv_roundtrip)

end

locale varint_codec = varint_decoder +
  fixes enc :: "u64 \<Rightarrow> 'e + bytes"
  assumes enc_ok: "unat v < 2 ^ 62 \<Longrightarrow> enc v = Inr (qv_encode (unat v))"
    and enc_err: "2 ^ 62 \<le> unat v \<Longrightarrow> \<exists>e. enc v = Inl e"
begin

lemma enc_Inr_iff: "enc v = Inr bs \<longleftrightarrow> unat v < 2 ^ 62 \<and> bs = qv_encode (unat v)"
  using enc_ok [of v] enc_err [of v] by (cases "unat v < 2 ^ 62") auto

lemma roundtrip: "enc v = Inr bs \<Longrightarrow> dec (bs @ rest) = Inr (v, rest)"
  by (auto simp: enc_Inr_iff dec_encoded)

lemma prefix_free:
  assumes "enc v = Inr as" "enc w = Inr bs" "as @ xs = bs @ ys"
  shows "v = w \<and> xs = ys"
  using roundtrip [OF assms(1), of xs] roundtrip [OF assms(2), of ys] assms(3) by simp

lemma minimal:
  assumes "dec bs = Inr (v, rest)"
  shows "\<exists>cs. enc v = Inr cs \<and> length cs + length rest \<le> length bs"
  using assms dec_bound [OF assms] by (auto simp: enc_Inr_iff dec_Inr_iff qv_encode_minimal)

lemma enc_length: "enc v = Inr bs \<Longrightarrow> 1 \<le> length bs \<and> length bs \<le> 8"
  using length_qv_encode_bounds [of "unat v"] by (auto simp: enc_Inr_iff)

end


section \<open>The encoder and reader of the crate\<close>

definition VARINT_MAX :: u64 where
  "VARINT_MAX = push_bit 62 1 - 1"

text \<open>The loop of \<open>read\<close>: one byte is shifted in per iteration.\<close>

fun varint_read_rest :: "nat \<Rightarrow> u64 \<Rightarrow> reader \<Rightarrow> (u64 \<times> reader) result" where
  "varint_read_rest 0 value r = Inr (value, r)"
| "varint_read_rest (Suc n) value r =
     bindR (read_u8 r) (\<lambda>(b, r). varint_read_rest n (push_bit 8 value OR ucast b) r)"

definition varint_read :: "reader \<Rightarrow> (u64 \<times> reader) result" where
  "varint_read r =
     bindR (read_u8 r) (\<lambda>(first, r).
       let len = push_bit (unat (drop_bit 6 first)) (1::nat);
           value = ucast (first AND 0x3f)
       in varint_read_rest (len - 1) value r)"

text \<open>The loop of \<open>encode\<close> fills the buffer from its last byte backwards.\<close>

fun varint_fill :: "nat \<Rightarrow> u64 \<Rightarrow> bytes" where
  "varint_fill 0 remaining = []"
| "varint_fill (Suc n) remaining = varint_fill n (drop_bit 8 remaining) @ [ucast remaining]"

definition varint_length :: "u64 \<Rightarrow> nat" where
  "varint_length value =
     (if value \<le> 63 then 1 else if value \<le> 16383 then 2 else if value \<le> 1073741823 then 4 else 8)"

definition varint_length_bits :: "nat \<Rightarrow> u8 result" where
  "varint_length_bits len =
     (if len = 1 then Inr 0x00 else if len = 2 then Inr 0x40
      else if len = 4 then Inr 0x80 else if len = 8 then Inr 0xc0
      else Inl (Panic ''unreachable''))"

definition varint_encode :: "u64 \<Rightarrow> bytes result" where
  "varint_encode value =
     (if VARINT_MAX < value then Inl InvalidVarInt
      else let len = varint_length value;
               output = varint_fill len value
           in bindR (varint_length_bits len) (\<lambda>bits. Inr (output[0 := output ! 0 OR bits])))"

definition varint_write :: "u64 \<Rightarrow> writer \<Rightarrow> writer result" where
  "varint_write value w = bindR (varint_encode value) (\<lambda>bs. write_all bs w)"


subsection \<open>The encoder produces the wire format\<close>

lemma unat_MAX: "unat VARINT_MAX = 2 ^ 62 - 1"
  by (simp add: VARINT_MAX_def)

lemma varint_fill_eq: "varint_fill n r = be_bytes n (unat r)"
proof (induction n arbitrary: r)
  case (Suc n)
  have "unat (drop_bit 8 r) = unat r div 256"
    by (simp add: drop_bit_eq_div unat_div_distrib)
  moreover have "ucast r = (word_of_nat (unat r) :: u8)"
    by simp
  ultimately show ?case
    by (simp only: varint_fill.simps be_bytes.simps Suc.IH)
qed simp

lemma varint_length_eq: "varint_length v = 2 ^ qv_tag (unat v)"
  by (simp add: varint_length_def qv_tag_def word_le_nat_alt)

text \<open>Setting the two top bits of a byte below 64 adds the tag.\<close>

lemma byte_or_tag:
  assumes "unat (b :: u8) < 64" "t < 4"
  shows "unat (b OR push_bit 6 (word_of_nat t)) = t * 64 + unat b"
proof -
  have b: "take_bit 6 b = b"
    using assms(1) by (simp add: word_unat_eq_iff take_bit_eq_mod unat_mod_distrib)
  have "b OR push_bit 6 (word_of_nat t) = b + push_bit 6 (word_of_nat t)"
    by (rule disjunctive_add [symmetric])
      (metis b bit_push_bit_iff bit_take_bit_iff not_less)
  moreover have "unat (push_bit 6 (word_of_nat t) :: u8) = t * 64"
    using assms(2) by (simp add: push_bit_eq_mult unat_word_ariths unat_word_of_nat_u8)
  ultimately show ?thesis
    using assms by (simp add: unat_word_ariths)
qed

lemma varint_length_bits_eq:
  "t \<le> 3 \<Longrightarrow> varint_length_bits (2 ^ t) = Inr (push_bit 6 (word_of_nat t))"
proof -
  assume "t \<le> 3"
  then consider "t = 0" | "t = 1" | "t = 2" | "t = 3" by linarith
  then show ?thesis by cases (simp_all add: varint_length_bits_def)
qed

lemma set_tag_bits:
  assumes "be_val bs < 64 * 256 ^ (length bs - 1)" "bs \<noteq> []" "t < 4"
  shows "bs[0 := bs ! 0 OR push_bit 6 (word_of_nat t)] =
         be_bytes (length bs) (t * 2 ^ (8 * length bs - 2) + be_val bs)"
proof -
  obtain b cs where bs: "bs = b # cs"
    using assms(2) by (cases bs) simp_all
  let ?k = "length cs"
  have pow: "2 ^ (8 * length bs - 2) = 64 * (256 :: nat) ^ ?k"
    using tag_power [of "length bs"] by (simp add: bs)
  have "unat b * 256 ^ ?k \<le> be_val bs"
    by (simp add: bs be_val_Cons)
  also have "\<dots> < 64 * 256 ^ ?k"
    using assms(1) by (simp add: bs)
  finally have "unat b < 64"
    by simp
  then have hd: "unat (b OR push_bit 6 (word_of_nat t)) = t * 64 + unat b"
    using assms(3) by (rule byte_or_tag)
  have "be_val (bs[0 := bs ! 0 OR push_bit 6 (word_of_nat t)]) = t * 2 ^ (8 * length bs - 2) + be_val bs"
    unfolding pow by (simp add: bs be_val_Cons hd algebra_simps)
  then show ?thesis
    by (metis be_bytes_be_val length_list_update)
qed

theorem varint_encode_refines:
  "varint_encode v =
     (if unat v < 2 ^ 62 then Inr (qv_encode (unat v)) else Inl InvalidVarInt)"
proof (cases "unat v < 2 ^ 62")
  case True
  let ?n = "2 ^ qv_tag (unat v)" and ?bs = "be_bytes (2 ^ qv_tag (unat v)) (unat v)"
  have le: "\<not> VARINT_MAX < v"
    using True by (simp add: word_less_nat_alt unat_MAX)
  have small: "unat v < 64 * 256 ^ (?n - 1)" and fits: "unat v < 256 ^ ?n"
    using True by (cases rule: qv_tag_cases; simp)+
  have val: "be_val ?bs = unat v"
    by (rule be_val_be_bytes_id [OF fits])
  have ne: "?bs \<noteq> []"
    by (metis length_be_bytes length_0_conv power_not_zero zero_neq_numeral)
  have "?bs[0 := ?bs ! 0 OR push_bit 6 (word_of_nat (qv_tag (unat v)))] = qv_encode (unat v)"
    using set_tag_bits [OF _ ne, of "qv_tag (unat v)"] small qv_tag_le [of "unat v"]
    by (simp add: val qv_encode_def Let_def)
  then show ?thesis
    using True le
    by (simp add: varint_encode_def varint_length_eq varint_length_bits_eq [OF qv_tag_le] varint_fill_eq)
next
  case False
  then have "VARINT_MAX < v"
    by (simp add: word_less_nat_alt unat_MAX)
  with False show ?thesis
    by (simp add: varint_encode_def)
qed


subsection \<open>The reader accepts the wire format\<close>

lemma first_byte_value: "unat ((ucast (b AND 0x3f :: u8)) :: u64) = unat b mod 64"
proof -
  have "(b :: u8) AND 0x3f = take_bit 6 b"
    by (simp add: take_bit_eq_mask mask_eq_exp_minus_1)
  then have "unat (b AND 0x3f :: u8) = unat b mod 64"
    by (simp add: take_bit_eq_mod unat_mod_distrib)
  moreover have "unat (ucast c :: u64) = unat (c :: u8)" for c
    using unat_u8_less [of c] by (simp add: unsigned_ucast_eq take_bit_eq_mod)
  ultimately show ?thesis by simp
qed

lemma first_byte_length: "push_bit (unat (drop_bit 6 (b :: u8))) (1::nat) = 2 ^ (unat b div 64)"
  by (simp add: push_bit_eq_mult drop_bit_eq_div unat_div_distrib)

lemma varint_read_rest_enough:
  assumes "n \<le> length bs" "(unat v + 1) * 256 ^ n \<le> 2 ^ 62"
  shows "\<exists>w. varint_read_rest n v \<lparr>pending = bs, ending = e\<rparr> = Inr (w, \<lparr>pending = drop n bs, ending = e\<rparr>) \<and>
    unat w = unat v * 256 ^ n + be_val (take n bs)"
  using assms
proof (induction n arbitrary: bs v)
  case (Suc n)
  obtain b cs where bs: "bs = b # cs"
    using Suc.prems(1) by (cases bs) simp_all
  let ?v = "push_bit 8 v OR ucast b"
  have "(unat v + 1) * 256 * 1 \<le> (unat v + 1) * 256 * 256 ^ n"
    by (rule mult_left_mono) simp_all
  also have "\<dots> \<le> 2 ^ 62"
    using Suc.prems(2) by (simp only: mult.assoc power_Suc)
  finally have "unat v < 2 ^ 56"
    by simp
  then have v: "unat ?v = unat v * 256 + unat b"
    by (rule unat_shift_in_byte)
  have "(unat ?v + 1) * 256 ^ n \<le> (unat v + 1) * 256 * 256 ^ n"
    using unat_u8_less [of b] by (intro mult_right_mono) (simp_all add: v)
  also have "\<dots> \<le> 2 ^ 62"
    using Suc.prems(2) by (simp only: mult.assoc power_Suc)
  finally obtain w where
    "varint_read_rest n ?v \<lparr>pending = cs, ending = e\<rparr> = Inr (w, \<lparr>pending = drop n cs, ending = e\<rparr>)"
    "unat w = unat ?v * 256 ^ n + be_val (take n cs)"
    using Suc.IH [of cs ?v] Suc.prems(1) by (auto simp: bs)
  moreover have "length (take n cs) = n"
    using Suc.prems(1) by (simp add: bs)
  ultimately show ?case
    by (simp add: bs v be_val_Cons algebra_simps)
qed simp

lemma varint_read_rest_short:
  "length bs < n \<Longrightarrow> varint_read_rest n v \<lparr>pending = bs, ending = e\<rparr> = Inl (io_read_failure e)"
proof (induction n arbitrary: bs v)
  case (Suc n)
  then show ?case by (cases bs) simp_all
qed simp

theorem varint_read_refines:
  "varint_read \<lparr>pending = bs, ending = e\<rparr> =
     (case qv_decode bs of
        None \<Rightarrow> Inl (io_read_failure e)
      | Some (v, rest) \<Rightarrow> Inr (word_of_nat v, \<lparr>pending = rest, ending = e\<rparr>))"
proof (cases bs)
  case Nil
  then show ?thesis by (simp add: varint_read_def qv_decode_def)
next
  case (Cons b cs)
  let ?n = "2 ^ (unat b div 64) :: nat" and ?v = "ucast (b AND 0x3f) :: u64"
  have v: "unat ?v = unat b mod 64"
    by (rule first_byte_value)
  have read: "varint_read \<lparr>pending = bs, ending = e\<rparr> = varint_read_rest (?n - 1) ?v \<lparr>pending = cs, ending = e\<rparr>"
    by (simp only: Cons varint_read_def read_u8_Cons bindR_simps prod.case Let_def first_byte_length)
  show ?thesis
  proof (cases "length bs < ?n")
    case True
    then have "length cs < ?n - 1"
      using Cons by simp
    then show ?thesis
      using True Cons unfolding read by (simp add: varint_read_rest_short qv_decode_def Let_def)
  next
    case False
    have "unat b div 64 < 4"
      using unat_u8_less [of b] by simp
    then have n: "?n - 1 \<le> 7"
      using power_increasing [of "unat b div 64" 3 "2::nat"] by auto
    have "(unat ?v + 1) * 256 ^ (?n - 1) \<le> 64 * 256 ^ 7"
      using n by (intro mult_mono power_increasing) (simp_all add: v Suc_le_eq)
    moreover have "?n - 1 \<le> length cs"
      using False Cons by simp
    ultimately obtain w where
      w: "varint_read_rest (?n - 1) ?v \<lparr>pending = cs, ending = e\<rparr> = Inr (w, \<lparr>pending = drop (?n - 1) cs, ending = e\<rparr>)"
        "unat w = unat b mod 64 * 256 ^ (?n - 1) + be_val (take (?n - 1) cs)"
      using varint_read_rest_enough [of "?n - 1" cs ?v e] v by auto
    have take: "take ?n bs = b # take (?n - 1) cs" "drop ?n bs = drop (?n - 1) cs"
      using Cons by (simp_all add: take_Cons' drop_Cons')
    have len: "length (take (?n - 1) cs) = ?n - 1"
      using False Cons by simp
    have "be_val (take ?n bs) mod (64 * 256 ^ (?n - 1)) = unat w"
      unfolding take be_val_Cons len w(2) using be_val_less [of "take (?n - 1) cs"] len
      by (simp add: mod_mult2_eq mult.commute [of 64])
    then have "be_val (take ?n bs) mod 2 ^ (8 * ?n - 2) = unat w"
      using tag_power [of ?n] by simp
    then show ?thesis
      using False Cons unfolding read w(1) by (simp add: qv_decode_def Let_def drop_Cons')
  qed
qed

lemma varint_read_rest_foldl:
  "n \<le> length bs \<Longrightarrow> varint_read_rest n v \<lparr>pending = bs, ending = e\<rparr> =
     Inr (foldl (\<lambda>value b. push_bit 8 value OR ucast b) v (take n bs), \<lparr>pending = drop n bs, ending = e\<rparr>)"
proof (induction n arbitrary: bs v)
  case (Suc n)
  then show ?case by (cases bs) simp_all
qed simp

text \<open>The same shifts over a slice instead of a stream, as other decoders of the format do them.\<close>

lemma qv_decode_foldl:
  assumes "2 ^ (unat b div 64) \<le> length (b # bs)"
  shows "\<exists>v. qv_decode (b # bs) = Some (v, drop (2 ^ (unat b div 64)) (b # bs)) \<and>
    foldl (\<lambda>value c. push_bit 8 value OR ucast c) (ucast (b AND 0x3f :: u8) :: u64)
      (take (2 ^ (unat b div 64) - 1) bs) = word_of_nat v"
proof -
  let ?n = "2 ^ (unat b div 64) :: nat" and ?e = "Finished"
  have "varint_read \<lparr>pending = b # bs, ending = ?e\<rparr> =
      varint_read_rest (?n - 1) (ucast (b AND 0x3f)) \<lparr>pending = bs, ending = ?e\<rparr>"
    by (simp only: varint_read_def read_u8_Cons bindR_simps prod.case Let_def first_byte_length)
  then have "varint_read \<lparr>pending = b # bs, ending = ?e\<rparr> =
      Inr (foldl (\<lambda>value c. push_bit 8 value OR ucast c) (ucast (b AND 0x3f)) (take (?n - 1) bs),
        \<lparr>pending = drop (?n - 1) bs, ending = ?e\<rparr>)"
    using assms by (simp add: varint_read_rest_foldl)
  moreover obtain v where "qv_decode (b # bs) = Some (v, drop ?n (b # bs))"
    using assms by (auto simp: qv_decode_def Let_def)
  ultimately show ?thesis
    by (simp add: varint_read_refines)
qed


subsection \<open>The contract, on the crate's code\<close>

definition varint_read_bytes :: "bytes \<Rightarrow> (u64 \<times> bytes) result" where
  "varint_read_bytes bs =
     bindR (varint_read \<lparr>pending = bs, ending = Finished\<rparr>) (\<lambda>(v, r). Inr (v, pending r))"

interpretation crate_varint: varint_codec varint_read_bytes varint_encode
  by unfold_locales
    (auto simp: varint_read_bytes_def varint_read_refines varint_encode_refines)

lemma varint_read_Inr_iff:
  "varint_read \<lparr>pending = bs, ending = e\<rparr> = Inr (v, r) \<longleftrightarrow>
     (\<exists>rest. varint_read_bytes bs = Inr (v, rest) \<and> r = \<lparr>pending = rest, ending = e\<rparr>)"
  by (auto simp: varint_read_bytes_def varint_read_refines split: option.splits)

lemma varint_read_encoded [simp, result_simps]:
  "varint_encode v = Inr bs \<Longrightarrow>
   varint_read \<lparr>pending = bs @ rest, ending = e\<rparr> = Inr (v, \<lparr>pending = rest, ending = e\<rparr>)"
  by (simp add: varint_read_Inr_iff crate_varint.roundtrip)

lemma varint_encode_small:
  "n < 2 ^ 62 \<Longrightarrow> varint_encode (word_of_nat n) = Inr (qv_encode n)"
  by (simp add: varint_encode_refines unat_of_nat_small)

lemma varint_read_qv_encode [simp, result_simps]:
  "n < 2 ^ 62 \<Longrightarrow>
   varint_read \<lparr>pending = qv_encode n @ rest, ending = e\<rparr> = Inr (word_of_nat n, \<lparr>pending = rest, ending = e\<rparr>)"
  using varint_encode_small [of n] by (rule varint_read_encoded)

lemma varint_write_small:
  "n < 2 ^ 62 \<Longrightarrow> varint_write (word_of_nat n) = write_all (qv_encode n)"
  by (rule ext) (simp add: varint_write_def varint_encode_small)

section \<open>Properties\<close>

text \<open>
  (C28) \<open>varint::encode\<close> refuses exactly the values of more than 62 bits; what it produces for the others is
  read back by \<open>varint::read\<close> to the same value, leaving the rest of the stream, and no other byte
  string that \<open>read\<close> maps to the same value is shorter.
\<close>

theorem varint_encode_read:
  "(if unat v < 2 ^ 62
    then \<exists>bs. varint_encode v = Inr bs \<and> 1 \<le> length bs \<and> length bs \<le> 8 \<and>
      (\<forall>rest e. varint_read \<lparr>pending = bs @ rest, ending = e\<rparr> = Inr (v, \<lparr>pending = rest, ending = e\<rparr>)) \<and>
      (\<forall>cs e. varint_read \<lparr>pending = cs, ending = e\<rparr> = Inr (v, \<lparr>pending = [], ending = e\<rparr>) \<longrightarrow> length bs \<le> length cs)
    else varint_encode v = Inl InvalidVarInt)"
proof (cases "unat v < 2 ^ 62")
  case True
  then have enc: "varint_encode v = Inr (qv_encode (unat v))"
    by (simp add: varint_encode_refines)
  have "length (qv_encode (unat v)) \<le> length cs"
    if "varint_read \<lparr>pending = cs, ending = e\<rparr> = Inr (v, \<lparr>pending = [], ending = e\<rparr>)" for cs e
    using that enc crate_varint.minimal [of cs v "[]"] by (auto simp: varint_read_Inr_iff)
  then show ?thesis
    using True enc length_qv_encode_bounds [of "unat v"] by auto
qed (simp add: varint_encode_refines)

theorem varint_encode_read_witness:
  "\<exists>bs. varint_encode 300 = Inr bs \<and>
     varint_read \<lparr>pending = bs @ [1, 2], ending = Finished\<rparr> = Inr (300, \<lparr>pending = [1, 2], ending = Finished\<rparr>)"
  using varint_encode_read [of 300] by auto

end
