(* ===== verification/Address.thy ===== *)
theory Address
  imports Std_Net Sq_IO
begin

text \<open>
  \<open>src/src/address.rs\<close>: a destination is a non-empty host and a port; it is written as
  \<open>host:port\<close>, with brackets around a host that contains a colon, and read back through
  \<open>SocketAddr\<close> first and by splitting at the last colon otherwise.
\<close>

record address =
  host :: string
  port :: u16

definition address_new :: "string \<Rightarrow> u16 \<Rightarrow> address result" where
  "address_new h p = (if h = [] then Inl InvalidAddress else Inr \<lparr>host = h, port = p\<rparr>)"

definition address_from_socket :: "socket_addr \<Rightarrow> address" where
  "address_from_socket value = \<lparr>host = show_ip (ip value), port = sport value\<rparr>"

text \<open>\<open>str::rsplit_once\<close> and the bracket stripping of \<open>from_str\<close>.\<close>

definition rsplit_once :: "char \<Rightarrow> string \<Rightarrow> (string \<times> string) option" where
  "rsplit_once c s =
     (if c \<in> set s
      then Some (rev (tl (dropWhile (\<lambda>x. x \<noteq> c) (rev s))), rev (takeWhile (\<lambda>x. x \<noteq> c) (rev s)))
      else None)"

definition strip_prefix :: "char \<Rightarrow> string \<Rightarrow> string option" where
  "strip_prefix c s = (case s of [] \<Rightarrow> None | x # xs \<Rightarrow> if x = c then Some xs else None)"

definition strip_suffix :: "char \<Rightarrow> string \<Rightarrow> string option" where
  "strip_suffix c s = (if s \<noteq> [] \<and> last s = c then Some (butlast s) else None)"

definition strip_brackets :: "string \<Rightarrow> string" where
  "strip_brackets h = (case Option.bind (strip_prefix CHR ''['' h) (strip_suffix CHR '']'') of
       None \<Rightarrow> h | Some inner \<Rightarrow> inner)"

definition address_from_str :: "string \<Rightarrow> address result" where
  "address_from_str value = (case parse_socket_addr value of
       Some socket \<Rightarrow> Inr (address_from_socket socket)
     | None \<Rightarrow>
         bindR (ok_or InvalidAddress (rsplit_once CHR '':'' value)) (\<lambda>(h, p).
         bindR (ok_or InvalidAddress (parse_uint (2 ^ 16) p)) (\<lambda>n.
         address_new (strip_brackets h) (word_of_nat n))))"

definition address_to_string :: "address \<Rightarrow> string" where
  "address_to_string a =
     (if CHR '':'' \<in> set (host a)
      then ''['' @ host a @ '']:'' @ show_nat (unat (port a))
      else host a @ '':'' @ show_nat (unat (port a)))"


section \<open>Splitting off the port\<close>

lemma rsplit_once_append: "c \<notin> set v \<Longrightarrow> rsplit_once c (u @ c # v) = Some (u, v)"
  by (simp add: rsplit_once_def takeWhile_append dropWhile_append)

lemma show_nat_no_colon: "CHR '':'' \<notin> set (show_nat n)"
  using show_radix_digits [of 10 n] not_digit_separators(2) by fastforce

lemma strip_brackets_wrapped [simp]: "strip_brackets (CHR ''['' # h @ '']'') = h"
  by (simp add: strip_brackets_def strip_prefix_def strip_suffix_def)

definition bracketed :: "string \<Rightarrow> bool" where
  "bracketed h \<longleftrightarrow> 2 \<le> length h \<and> hd h = CHR ''['' \<and> last h = CHR '']''"

lemma strip_brackets_other: "\<not> bracketed h \<Longrightarrow> strip_brackets h = h"
  by (cases h)
    (auto simp: bracketed_def strip_brackets_def strip_prefix_def strip_suffix_def Suc_le_eq split: if_splits)

lemma address_from_str_fallback:
  assumes "parse_socket_addr (h @ CHR '':'' # show_nat (unat p)) = None"
  shows "address_from_str (h @ CHR '':'' # show_nat (unat p)) = address_new (strip_brackets h) p"
  using assms unat_u16_less [of p]
  by (simp add: address_from_str_def rsplit_once_append show_nat_no_colon)


section \<open>Reading back what was written\<close>

text \<open>
  A host is in normal form when it is an IPv6 literal spelled the way the standard library displays
  it, or contains no colon (a domain name or an IPv4 literal) and is not itself in brackets.
\<close>

definition normal_host :: "string \<Rightarrow> bool" where
  "normal_host h \<longleftrightarrow>
     h \<noteq> [] \<and>
     (if CHR '':'' \<in> set h then (case parse_ip h of None \<Rightarrow> False | Some a \<Rightarrow> show_ip a = h)
      else \<not> bracketed h)"

lemma split_at_colon:
  assumes "u @ CHR '':'' # v = x @ CHR '':'' # y" "CHR '':'' \<notin> set v" "CHR '':'' \<notin> set y"
  shows "u = x \<and> v = y"
proof -
  have "Some (u, v) = rsplit_once CHR '':'' (u @ CHR '':'' # v)"
    by (rule rsplit_once_append [symmetric, OF assms(2)])
  also have "\<dots> = Some (x, y)"
    unfolding assms(1) by (rule rsplit_once_append [OF assms(3)])
  finally show ?thesis by simp
qed

lemma digits_no_colon: "\<forall>c \<in> set ds. is_digit 10 c \<Longrightarrow> CHR '':'' \<notin> set ds"
  using not_digit_separators(2) by blast

lemma address_from_str_no_colon:
  assumes "CHR '':'' \<notin> set h" "h \<noteq> []" "\<not> bracketed h"
  shows "address_from_str (h @ CHR '':'' # show_nat (unat p)) = Inr \<lparr>host = h, port = p\<rparr>"
proof (cases "parse_socket_addr (h @ CHR '':'' # show_nat (unat p))")
  case None
  then show ?thesis
    using assms by (simp add: address_from_str_fallback strip_brackets_other address_new_def)
next
  case (Some x)
  then show ?thesis
  proof (cases rule: parse_socket_addr_cases)
    case (v4 a ds)
    have "h = show_ipv4 a" "show_nat (unat p) = ds"
      using split_at_colon [OF v4(1) show_nat_no_colon digits_no_colon [OF v4(3)]] by blast+
    moreover have "sport x = p"
      using v4(4) digits_val_show_radix [of 10 "unat p"] calculation by simp
    ultimately show ?thesis
      using Some v4(2) by (simp add: address_from_str_def address_from_socket_def)
  next
    case (v6 g ds)
    then have "h @ CHR '':'' # show_nat (unat p) = (CHR ''['' # g @ '']'') @ CHR '':'' # ds"
      by simp
    then have "h = CHR ''['' # g @ '']''"
      by (rule split_at_colon [THEN conjunct1]) (simp_all add: show_nat_no_colon digits_no_colon [OF v6(2)])
    then show ?thesis
      using assms(3) by (simp add: bracketed_def)
  qed
qed

lemma address_from_to_string:
  assumes "normal_host (host a)"
  shows "address_from_str (address_to_string a) = Inr a"
proof (cases "CHR '':'' \<in> set (host a)")
  case True
  then obtain v where "host a = show_ipv6 v"
    using assms show_ipv4_no_colon by (auto simp: normal_host_def elim!: show_ip.elims split: option.splits)
  then show ?thesis
    using True parse_socket_addr_v6 [of v "port a"]
    by (simp add: address_to_string_def address_from_str_def address_from_socket_def show_port_def)
next
  case False
  then show ?thesis
    using assms address_from_str_no_colon [of "host a" "port a"]
    by (simp add: address_to_string_def normal_host_def)
qed

text \<open>An IP address always gives a normal host, so do domain names.\<close>

lemma bracketed_not_octets: "\<not> bracketed (show_ipv4 a)"
proof -
  have "hd (show_ipv4 a) \<in> set (show_ipv4 a)" "CHR ''['' \<notin> set (show_ipv4 a)"
    using four_octets [of a] show_radix_digits [of 10] not_digit_separators(5)
    by (auto simp: show_ipv4_def) fastforce+
  then show ?thesis
    by (auto simp: bracketed_def)
qed

lemma normal_host_show_ip: "normal_host (show_ip i)"
proof (cases i)
  case (V4 a)
  then show ?thesis
    using four_octets [of a] show_ipv4_no_colon [of a] bracketed_not_octets [of a]
    by (auto simp: normal_host_def show_ipv4_def)
next
  case (V6 a)
  then show ?thesis
    using parse_ip_show_ip [of i] show_ipv6_has_colon [of a] by (auto simp: normal_host_def)
qed

lemma address_from_str_host: "address_from_str s = Inr a \<Longrightarrow> host a \<noteq> []"
  using normal_host_show_ip
  by (auto simp: address_from_str_def address_new_def address_from_socket_def normal_host_def result_iffs
      split: option.splits if_splits)


lemma utf8_address_to_string: "utf8_string (host a) \<Longrightarrow> utf8_string (address_to_string a)"
proof -
  have "is_ascii ''[''" "is_ascii '']:''" "is_ascii '':''"
    by (simp_all add: is_ascii_def byte_of_char_def)
  then have "utf8_string ''[''" "utf8_string '']:''" "utf8_string '':''" "utf8_string (show_nat n)" for n
    by (simp_all add: ascii_utf8_string show_nat_ascii)
  moreover assume "utf8_string (host a)"
  ultimately show ?thesis
    unfolding address_to_string_def
    by (cases "CHR '':'' \<in> set (host a)") (simp_all only: utf8_string_append if_True if_False not_False_eq_True)
qed

section \<open>Properties\<close>

text \<open>
  (C30) An address whose host is a displayed IP address, or a name without a colon that is not in
  brackets, is read back from its displayed form unchanged, port included. Every socket address
  gives such an address.
\<close>

theorem address_display_parse:
  "(normal_host (host a) \<longrightarrow> address_from_str (address_to_string a) = Inr a) \<and>
   address_from_str (address_to_string (address_from_socket socket)) = Inr (address_from_socket socket)"
  using address_from_to_string normal_host_show_ip by (simp add: address_from_socket_def)

theorem address_display_parse_witness:
  "address_from_str (address_to_string \<lparr>host = ''example.com'', port = 443\<rparr>) = Inr \<lparr>host = ''example.com'', port = 443\<rparr>"
proof -
  have "normal_host (host \<lparr>host = ''example.com'', port = 443\<rparr>)"
    by (simp add: normal_host_def bracketed_def)
  with address_display_parse show ?thesis by blast
qed

text \<open>
  The normal form is needed: a host in brackets loses them when its displayed form is read back.
\<close>

theorem address_brackets_lost:
  "address_from_str (address_to_string \<lparr>host = ''[x]'', port = 5\<rparr>) = Inr \<lparr>host = ''x'', port = 5\<rparr>"
proof -
  have "parse_socket_addr (''[x]'' @ CHR '':'' # show_nat (unat (5 :: u16))) = None"
  proof -
    have "read_groups (Suc 7) 0 (''x]:'' @ t) = ([], False, ''x]:'' @ t)" for t
      unfolding read_groups.simps
      by (simp add: read_sep_def read_ipv4_no_octet read_number_no_digit is_digit_def to_digit_def)
    then have "read_ipv6 (''x]:'' @ t) = None" for t
      by (simp add: read_ipv6_def)
    then show ?thesis
      by (simp add: parse_socket_addr_def parse_with_def read_socket_addr_def read_socket_addr_v4_def
          read_socket_addr_v6_def read_ipv4_no_octet)
  qed
  then have "address_from_str (''[x]'' @ CHR '':'' # show_nat (unat (5 :: u16))) = address_new (strip_brackets ''[x]'') 5"
    by (rule address_from_str_fallback)
  moreover have "address_to_string \<lparr>host = ''[x]'', port = 5\<rparr> = ''[x]'' @ CHR '':'' # show_nat (unat (5 :: u16))"
    by (simp add: address_to_string_def)
  moreover have "address_new (strip_brackets ''[x]'') 5 = Inr \<lparr>host = ''x'', port = 5\<rparr>"
    using strip_brackets_wrapped [of "''x''"] by (simp add: address_new_def)
  ultimately show ?thesis by simp
qed

end
