(* ===== verification/Hy2_Protocol.thy ===== *)
theory Hy2_Protocol
  imports Varint Address
begin

text \<open>
  \<open>src/src/hysteria2/protocol.rs\<close>: the bandwidth header, the random padding and the TCP request and
  response frames of Hysteria2. The random number generator and the header type belong to other
  crates: they are arguments (\<open>rng\<close>, \<open>to_str\<close>) with their documented behaviour as hypotheses.
\<close>


section \<open>The bandwidth header\<close>

datatype congestion_receive = Auto | Rate u64

definition parse_congestion_receive ::
  "('h \<Rightarrow> string option) \<Rightarrow> 'h option \<Rightarrow> congestion_receive" where
  "parse_congestion_receive to_str value = (case Option.bind value to_str of
       None \<Rightarrow> Rate 0
     | Some s \<Rightarrow>
         if s = ''auto'' then Auto
         else Rate (case parse_uint (2 ^ 64) s of None \<Rightarrow> 0 | Some n \<Rightarrow> word_of_nat n))"

fun congestion_receive_value :: "congestion_receive \<Rightarrow> string" where
  "congestion_receive_value Auto = ''auto''"
| "congestion_receive_value (Rate bytes_per_second) = show_nat (unat bytes_per_second)"

lemma show_nat_not_auto: "show_nat n \<noteq> ''auto''"
proof
  assume "show_nat n = ''auto''"
  then have "is_digit 10 CHR ''a''"
    using show_radix_digits [of 10 n] by simp
  then show False
    by (simp add: is_digit_def to_digit_def)
qed

lemma parse_congestion_receive_value:
  "to_str h = Some (congestion_receive_value v) \<Longrightarrow> parse_congestion_receive to_str (Some h) = v"
  using unat_less_exp [of "case v of Auto \<Rightarrow> 0 | Rate r \<Rightarrow> r"]
  by (cases v) (simp_all add: parse_congestion_receive_def show_nat_not_auto)


section \<open>Padding\<close>

record rng =
  gen_range :: "nat \<Rightarrow> nat \<Rightarrow> nat"
  alphanumeric :: "nat \<Rightarrow> char"

definition padding :: "rng \<Rightarrow> nat \<Rightarrow> nat \<Rightarrow> string" where
  "padding rng lo hi = map (alphanumeric rng) [0..<gen_range rng lo hi]"

text \<open>\<open>gen_range(lo..hi)\<close> returns a value of the half-open range; samples are ASCII.\<close>

definition rng_ok :: "rng \<Rightarrow> bool" where
  "rng_ok rng \<longleftrightarrow>
     (\<forall>lo hi. lo < hi \<longrightarrow> lo \<le> gen_range rng lo hi \<and> gen_range rng lo hi < hi) \<and>
     (\<forall>i. byte_of_char (alphanumeric rng i) < 0x80)"

lemma length_padding: "length (padding rng lo hi) = gen_range rng lo hi"
  by (simp add: padding_def)

lemma padding_bounds:
  "rng_ok rng \<Longrightarrow> lo < hi \<Longrightarrow> lo \<le> length (padding rng lo hi) \<and> length (padding rng lo hi) < hi"
  by (simp add: rng_ok_def length_padding)


section \<open>TCP frames\<close>

definition FRAME_TYPE_TCP_REQUEST :: u64 where
  "FRAME_TYPE_TCP_REQUEST = 0x401"

definition MAX_ADDRESS_LENGTH :: nat where
  "MAX_ADDRESS_LENGTH = 2048"

definition MAX_MESSAGE_LENGTH :: nat where
  "MAX_MESSAGE_LENGTH = 2048"

definition MAX_PADDING_LENGTH :: nat where
  "MAX_PADDING_LENGTH = 4096"

definition write_tcp_request :: "rng \<Rightarrow> address \<Rightarrow> writer \<Rightarrow> writer result" where
  "write_tcp_request rng destination w =
     (let addr = address_to_string destination
      in if addr = [] \<or> length addr > MAX_ADDRESS_LENGTH then Inl InvalidAddress
         else
           let pad = padding rng 64 512
           in bindR (varint_write FRAME_TYPE_TCP_REQUEST w) (\<lambda>w.
              bindR (varint_write (word_of_nat (length addr)) w) (\<lambda>w.
              bindR (write_all (as_bytes addr) w) (\<lambda>w.
              bindR (varint_write (word_of_nat (length pad)) w) (\<lambda>w.
              write_all (as_bytes pad) w)))))"

definition read_tcp_request :: "reader \<Rightarrow> (address \<times> reader) result" where
  "read_tcp_request r =
     bindR (varint_read r) (\<lambda>(frame_type, r).
       if frame_type \<noteq> FRAME_TYPE_TCP_REQUEST
       then Inl (Protocol (''unexpected stream frame type 0x'' @ show_radix 16 (unat frame_type)))
       else
         bindR (varint_read r) (\<lambda>(address_length, r).
           if unat address_length = 0 \<or> unat address_length > MAX_ADDRESS_LENGTH then Inl InvalidAddress
           else
             bindR (read_exact (unat address_length) r) (\<lambda>(addr, r).
             bindR (varint_read r) (\<lambda>(padding_length, r).
               if unat padding_length > MAX_PADDING_LENGTH
               then Inl (Protocol ''request padding is too large'')
               else
                 bindR (read_exact (unat padding_length) r) (\<lambda>(_, r).
                 bindR (ok_or InvalidAddress (from_utf8 addr)) (\<lambda>s.
                 bindR (address_from_str s) (\<lambda>a. Inr (a, r))))))))"

text \<open>The response carries \<open>Ok(())\<close> (\<open>None\<close>) or a message.\<close>

definition write_tcp_response :: "rng \<Rightarrow> string option \<Rightarrow> writer \<Rightarrow> writer result" where
  "write_tcp_response rng result w =
     (let (status, message) = (case result of None \<Rightarrow> (0 :: u8, []) | Some message \<Rightarrow> (1, message));
          msg = take (min (length message) MAX_MESSAGE_LENGTH) (as_bytes message);
          pad = padding rng 128 1024
      in bindR (write_all [status] w) (\<lambda>w.
         bindR (varint_write (word_of_nat (length msg)) w) (\<lambda>w.
         bindR (write_all msg w) (\<lambda>w.
         bindR (varint_write (word_of_nat (length pad)) w) (\<lambda>w.
         write_all (as_bytes pad) w)))))"

definition read_tcp_response :: "reader \<Rightarrow> reader result" where
  "read_tcp_response r =
     bindR (read_u8 r) (\<lambda>(status, r).
     bindR (varint_read r) (\<lambda>(message_length, r).
       if unat message_length > MAX_MESSAGE_LENGTH then Inl (Protocol ''response message is too large'')
       else
         bindR (read_exact (unat message_length) r) (\<lambda>(message, r).
         bindR (varint_read r) (\<lambda>(padding_length, r).
           if unat padding_length > MAX_PADDING_LENGTH then Inl (Protocol ''response padding is too large'')
           else
             bindR (read_exact (unat padding_length) r) (\<lambda>(_, r).
               if status = 0 then Inr r
               else Inl (Protocol (''remote error: '' @ from_utf8_lossy message)))))))"


section \<open>Frame layout\<close>

definition tcp_request_frame :: "string \<Rightarrow> string \<Rightarrow> bytes" where
  "tcp_request_frame addr pad =
     qv_encode 0x401 @ qv_encode (length addr) @ as_bytes addr @ qv_encode (length pad) @ as_bytes pad"

definition tcp_response_frame :: "u8 \<Rightarrow> bytes \<Rightarrow> string \<Rightarrow> bytes" where
  "tcp_response_frame status msg pad =
     [status] @ qv_encode (length msg) @ msg @ qv_encode (length pad) @ as_bytes pad"

lemma frame_type_small: "FRAME_TYPE_TCP_REQUEST = word_of_nat 0x401"
  by (simp add: FRAME_TYPE_TCP_REQUEST_def)

lemma write_tcp_request_frame:
  assumes "rng_ok rng" "address_to_string a \<noteq> []" "length (address_to_string a) \<le> MAX_ADDRESS_LENGTH"
  shows "write_tcp_request rng a w = write_all (tcp_request_frame (address_to_string a) (padding rng 64 512)) w"
proof -
  have "length (padding rng 64 512) < 2 ^ 62" "length (address_to_string a) < 2 ^ 62"
    using padding_bounds [OF assms(1), of 64 512] assms(3) by (simp_all add: MAX_ADDRESS_LENGTH_def)
  then show ?thesis
    using assms(2,3)
    by (simp add: write_tcp_request_def Let_def frame_type_small varint_write_small write_all_then
        tcp_request_frame_def flip: bindR_assoc del: of_nat_numeral)
qed

lemma write_response_steps:
  assumes "length msg < 2 ^ 62" "length pad < 2 ^ 62"
  shows "bindR (write_all [status] w) (\<lambda>w.
      bindR (varint_write (word_of_nat (length msg)) w) (\<lambda>w.
      bindR (write_all msg w) (\<lambda>w.
      bindR (varint_write (word_of_nat (length pad)) w) (\<lambda>w.
      write_all (as_bytes pad) w)))) = write_all (tcp_response_frame status msg pad) w"
  using assms
  by (simp add: varint_write_small write_all_then tcp_response_frame_def flip: bindR_assoc)

lemma write_tcp_response_frame:
  assumes "rng_ok rng"
  shows "write_tcp_response rng res w =
    write_all (tcp_response_frame (if res = None then 0 else 1)
      (take MAX_MESSAGE_LENGTH (as_bytes (case res of None \<Rightarrow> [] | Some m \<Rightarrow> m))) (padding rng 128 1024)) w"
proof -
  have pad: "length (padding rng 128 1024) < 2 ^ 62"
    using padding_bounds [OF assms, of 128 1024] by simp
  have cut: "take (min (length m) MAX_MESSAGE_LENGTH) (as_bytes m) = take MAX_MESSAGE_LENGTH (as_bytes m)" for m
    by (metis length_as_bytes min.commute take_take take_all order_refl)
  have "length (take MAX_MESSAGE_LENGTH (as_bytes m)) < 2 ^ 62" for m
    by (simp add: MAX_MESSAGE_LENGTH_def)
  then show ?thesis
    unfolding write_tcp_response_def Let_def
    by (cases res) (simp_all only: prod.case option.case cut write_response_steps [OF _ pad] if_True if_False
        refl option.distinct)
qed

lemma read_tcp_request_frame:
  assumes "0 < length addr" "length addr \<le> MAX_ADDRESS_LENGTH" "length pad \<le> MAX_PADDING_LENGTH" "utf8_string addr"
  shows "read_tcp_request \<lparr>pending = tcp_request_frame addr pad @ rest, ending = e\<rparr> =
    bindR (address_from_str addr) (\<lambda>a. Inr (a, \<lparr>pending = rest, ending = e\<rparr>))"
proof -
  have small: "length addr < 2 ^ 62" "length pad < 2 ^ 62"
    using assms(2,3) by (simp_all add: MAX_ADDRESS_LENGTH_def MAX_PADDING_LENGTH_def)
  then have "unat (word_of_nat (length addr) :: u64) = length addr" "unat (word_of_nat (length pad) :: u64) = length pad"
    by (simp_all add: unat_of_nat_small)
  then show ?thesis
    using assms small by (simp add: read_tcp_request_def tcp_request_frame_def frame_type_small del: of_nat_numeral)
qed

lemma read_tcp_response_frame:
  assumes "length msg \<le> MAX_MESSAGE_LENGTH" "length pad \<le> MAX_PADDING_LENGTH"
  shows "read_tcp_response \<lparr>pending = tcp_response_frame status msg pad @ rest, ending = e\<rparr> =
    (if status = 0 then Inr \<lparr>pending = rest, ending = e\<rparr>
     else Inl (Protocol (''remote error: '' @ from_utf8_lossy msg)))"
proof -
  have small: "length msg < 2 ^ 62" "length pad < 2 ^ 62"
    using assms by (simp_all add: MAX_MESSAGE_LENGTH_def MAX_PADDING_LENGTH_def)
  then have "unat (word_of_nat (length msg) :: u64) = length msg" "unat (word_of_nat (length pad) :: u64) = length pad"
    by (simp_all add: unat_of_nat_small)
  then show ?thesis
    using assms small by (simp add: read_tcp_response_def tcp_response_frame_def)
qed

section \<open>Properties\<close>

definition constant_rng :: rng where
  "constant_rng = \<lparr>gen_range = (\<lambda>lo hi. lo), alphanumeric = (\<lambda>_. CHR ''x'')\<rparr>"

lemma constant_rng_ok: "rng_ok constant_rng"
  by (simp add: rng_ok_def constant_rng_def byte_of_char_def)

text \<open>
  A TCP request that \<open>write_tcp_request\<close> writes is read back by \<open>read_tcp_request\<close> to the same
  destination, whatever padding was drawn, and the reader stops exactly at the end of the frame.
\<close>

theorem tcp_request_roundtrip:
  assumes "rng_ok rng" "normal_host (host a)" "utf8_string (host a)"
    "length (address_to_string a) \<le> MAX_ADDRESS_LENGTH"
  shows "\<exists>w. write_tcp_request rng a fresh_writer = Inr w \<and>
    read_tcp_request \<lparr>pending = written w @ rest, ending = e\<rparr> = Inr (a, \<lparr>pending = rest, ending = e\<rparr>)"
proof -
  have ne: "address_to_string a \<noteq> []"
    by (simp add: address_to_string_def)
  have "length (padding rng 64 512) \<le> MAX_PADDING_LENGTH"
    using padding_bounds [OF assms(1), of 64 512] by (simp add: MAX_PADDING_LENGTH_def)
  then show ?thesis
    using read_tcp_request_frame [OF _ assms(4) _ utf8_address_to_string [OF assms(3)], of "padding rng 64 512" rest e]
    by (simp add: write_tcp_request_frame [OF assms(1) ne assms(4)] ne address_from_to_string [OF assms(2)])
qed

text \<open>
  (C31) A TCP response is read back to its outcome: success, or the remote error with the first 2048
  bytes of the message (as lossy UTF-8), whatever the message length and the padding drawn.
\<close>

theorem tcp_response_roundtrip:
  assumes "rng_ok rng"
  shows "\<exists>w. write_tcp_response rng res fresh_writer = Inr w \<and>
    read_tcp_response \<lparr>pending = written w @ rest, ending = e\<rparr> =
      (case res of
         None \<Rightarrow> Inr \<lparr>pending = rest, ending = e\<rparr>
       | Some m \<Rightarrow> Inl (Protocol (''remote error: '' @ from_utf8_lossy (take MAX_MESSAGE_LENGTH (as_bytes m)))))"
proof -
  have "length (padding rng 128 1024) \<le> MAX_PADDING_LENGTH"
    using padding_bounds [OF assms, of 128 1024] by (simp add: MAX_PADDING_LENGTH_def)
  then show ?thesis
    by (simp add: write_tcp_response_frame [OF assms] read_tcp_response_frame split: option.splits)
qed

theorem tcp_response_roundtrip_witness:
  "\<exists>w. write_tcp_response constant_rng None fresh_writer = Inr w \<and>
    read_tcp_response \<lparr>pending = written w @ [5], ending = Finished\<rparr> = Inr \<lparr>pending = [5], ending = Finished\<rparr>"
  using tcp_response_roundtrip [OF constant_rng_ok, of None "[5]" Finished] by simp

text \<open>
  The bandwidth header survives the trip: parsing the text produced for a limit gives the limit,
  and anything that is missing, not text or not a number counts as no limit (0).
\<close>

theorem congestion_receive_roundtrip:
  "(to_str h = Some (congestion_receive_value v) \<longrightarrow> parse_congestion_receive to_str (Some h) = v) \<and>
   parse_congestion_receive to_str None = Rate 0 \<and>
   (to_str h = None \<longrightarrow> parse_congestion_receive to_str (Some h) = Rate 0) \<and>
   (\<forall>s. to_str h = Some s \<and> s \<noteq> ''auto'' \<and> parse_uint (2 ^ 64) s = None \<longrightarrow>
      parse_congestion_receive to_str (Some h) = Rate 0)"
  using parse_congestion_receive_value [of to_str h v] by (auto simp: parse_congestion_receive_def)

theorem congestion_receive_roundtrip_witness:
  "parse_congestion_receive Some (Some ''42'') = Rate 42"
proof -
  have "congestion_receive_value (Rate 42) = ''42''" by code_simp
  then show ?thesis
    using congestion_receive_roundtrip [of Some "''42''" "Rate 42"] by simp
qed

end
