(* ===== verification/Hy2_Negotiation.thy ===== *)
theory Hy2_Negotiation
  imports Hy2_Protocol
begin

text \<open>
  Bandwidth negotiation of Hysteria2: the two \<open>negotiated_send_rate\<close> functions
  (\<open>src/src/hysteria2/client.rs\<close>, \<open>src/src/hysteria2/server.rs\<close>), and the receive limit the server advertises.
  The rates both ends agree on through the headers are a theorem of \<open>Hy2_Client\<close>.
\<close>

record client_bandwidth =
  client_send_bps :: u64
  client_receive_bps :: u64
  client_disable_loss_compensation :: bool
  client_brutal_debug :: bool

record server_bandwidth =
  server_send_bps :: u64
  server_receive_bps :: u64
  ignore_client_bandwidth :: bool
  server_disable_loss_compensation :: bool
  server_brutal_debug :: bool

definition client_send_rate :: "u64 \<Rightarrow> congestion_receive \<Rightarrow> u64 option" where
  "client_send_rate configured remote_receive = (case remote_receive of
       Auto \<Rightarrow> None
     | Rate remote \<Rightarrow>
         let actual = (if remote = 0 \<or> remote > configured then configured else remote)
         in if actual > 0 then Some actual else None)"

definition server_send_rate :: "server_bandwidth \<Rightarrow> congestion_receive \<Rightarrow> u64 option" where
  "server_send_rate bandwidth client_receive =
     (if server_receive_bps bandwidth = 0 \<and> ignore_client_bandwidth bandwidth then None
      else case client_receive of
        Auto \<Rightarrow> None
      | Rate client \<Rightarrow>
          if client = 0 then None
          else Some (if server_send_bps bandwidth > 0 \<and> client > server_send_bps bandwidth
                     then server_send_bps bandwidth else client))"

text \<open>The limit the server announces in its response.\<close>

definition advertised_receive :: "server_bandwidth \<Rightarrow> u64 option \<Rightarrow> congestion_receive" where
  "advertised_receive bandwidth send_rate = (case send_rate of
       Some _ \<Rightarrow> Rate (server_receive_bps bandwidth)
     | None \<Rightarrow> Auto)"

end
