(* ===== verification/Hy2_Setup.thy ===== *)
theory Hy2_Setup
  imports Quic_Setup Hy2_Negotiation
begin

text \<open>
  Options and TLS configurations of \<open>src/src/hysteria2/client.rs\<close> and \<open>src/src/hysteria2/server.rs\<close>.
\<close>

record hy2_client_options =
  hco_server :: socket_addr
  hco_server_name :: string
  hco_password :: string
  hco_ca_certificates :: "bytes list"

text \<open>\<open>QuicTransportOptions::default()\<close>.\<close>

definition quic_transport_options_default :: quic_transport_options where
  "quic_transport_options_default = \<lparr>initial_packet_size = 0, disable_path_mtu_discovery = False\<rparr>"

text \<open>Only the given certificates are trusted, none when none is given.\<close>

definition hy2_client_config ::
  "tls_library \<Rightarrow> hy2_client_options \<Rightarrow> quic_transport_options \<Rightarrow> quic_client_config result" where
  "hy2_client_config lib options transport_options =
     (if hco_server_name options = [] then Inl (InvalidServerName (hco_server_name options))
      else bindR (add_roots lib [] (hco_ca_certificates options)) (\<lambda>roots.
        let tls = \<lparr>tls_roots = roots, tls_client_alpn = [ALPN_H3], tls_early_data = False, tls_jls_client = None\<rparr>
        in bindR (quic_client_crypto lib tls) (\<lambda>crypto.
             Inr \<lparr>qc_tls = crypto, qc_transport = base_transport_config (lib_transport_defaults lib) transport_options\<rparr>)))"

record hy2_user =
  hy2_name :: string
  hy2_password :: string

record hy2_server_options =
  hso_listen :: socket_addr
  hso_certificate_chain :: "bytes list"
  hso_private_key :: bytes
  hso_users :: "hy2_user list"

text \<open>The official stream limit, $2^{60}$, and a single network path.\<close>

definition hy2_build_server_config ::
  "tls_library \<Rightarrow> bytes list \<Rightarrow> bytes \<Rightarrow> quic_transport_options \<Rightarrow> quic_server_config result" where
  "hy2_build_server_config lib certificate_chain private_key transport_options =
     bindR (detect_private_key (lib_unsupported lib) private_key) (\<lambda>key.
     bindR (single_cert lib certificate_chain key) (\<lambda>tls.
     bindR (quic_server_crypto lib (tls\<lparr>tls_server_alpn := [ALPN_H3]\<rparr>)) (\<lambda>crypto.
       let transport = (base_transport_config (lib_transport_defaults lib) transport_options)\<lparr>max_bidi_streams := push_bit 60 1\<rparr>
       in Inr \<lparr>qs_tls = crypto, qs_transport = transport, qs_disable_path_manager = Some True\<rparr>)))"

lemma hy2_client_config_Inr:
  assumes "hy2_client_config lib options topts = Inr config"
  shows "hco_server_name options \<noteq> []" "qc_tls config =
    \<lparr>tls_roots = map CaCertificate (hco_ca_certificates options), tls_client_alpn = [''h3''], tls_early_data = False, tls_jls_client = None\<rparr>"
  using assms by (auto simp: hy2_client_config_def ALPN_H3_def result_iffs setup_iffs Let_def split: if_splits)

lemma hy2_build_server_config_Inr:
  assumes "hy2_build_server_config lib chain key topts = Inr config"
  shows "tls_server_alpn (qs_tls config) = [''h3'']" "tls_max_early_data (qs_tls config) = 0" "tls_jls_server (qs_tls config) = None"
    "max_bidi_streams (qs_transport config) = 2 ^ 60" "tls_certificates (qs_tls config) = chain"
  using assms by (auto simp: hy2_build_server_config_def ALPN_H3_def result_iffs setup_iffs Let_def push_bit_eq_mult)

end
