(* ===== verification/Hy2_Masquerade.thy ===== *)
theory Hy2_Masquerade
  imports Std_Net Sq_IO
begin

text \<open>
  The masquerade of \<open>src/src/hysteria2/server.rs\<close>: how a request that is not a valid authentication is
  answered. The request handler (the web site shown to strangers) and the HTTP/3 stream are
  parameters; a header map is an association list in which a name may repeat.
\<close>


section \<open>Messages\<close>

type_synonym headers = "(string \<times> string) list"

definition header_remove :: "string \<Rightarrow> headers \<Rightarrow> headers" where
  "header_remove k hs = filter (\<lambda>(n, _). n \<noteq> k) hs"

definition header_insert :: "string \<Rightarrow> string \<Rightarrow> headers \<Rightarrow> headers" where
  "header_insert k v hs = header_remove k hs @ [(k, v)]"

definition header_contains :: "string \<Rightarrow> headers \<Rightarrow> bool" where
  "header_contains k hs = (\<exists>(n, _) \<in> set hs. n = k)"

definition header_get :: "string \<Rightarrow> headers \<Rightarrow> string option" where
  "header_get k hs = map_of hs k"

record http_request =
  req_method :: string
  req_authority :: "string option"
  req_path :: string
  req_headers :: headers

record http_response =
  res_status :: nat
  res_headers :: headers
  res_body :: bytes

text \<open>
  The request stream of HTTP/3: the chunks of the request body, and the failures of sending the head of
  the response, its data, and of finishing the stream, if any. What is sent: a head, possibly one piece
  of data, and the end of the stream.
\<close>

record h3_stream =
  h3_chunks :: "(string + bytes) list"
  h3_response_error :: "string option"
  h3_data_error :: "string option"
  h3_finish_error :: "string option"

record sent_response =
  sent_head :: "(nat \<times> headers) option"
  sent_data :: "bytes option"
  sent_finished :: bool

definition nothing_sent :: sent_response where
  "nothing_sent = \<lparr>sent_head = None, sent_data = None, sent_finished = False\<rparr>"

text \<open>\<open>MasqueradeHandler::handle\<close>: the source address, the request and its whole body.\<close>

type_synonym masquerade_handler = "socket_addr \<Rightarrow> http_request \<Rightarrow> bytes \<Rightarrow> http_response"

definition body_is_allowed :: "nat \<Rightarrow> bool" where
  "body_is_allowed status \<longleftrightarrow> \<not> (100 \<le> status \<and> status < 200) \<and> status \<noteq> 204 \<and> status \<noteq> 304"

definition send_masquerade_response :: "h3_stream \<Rightarrow> http_response \<Rightarrow> bool \<Rightarrow> unit result \<times> sent_response" where
  "send_masquerade_response stream response is_head =
     (let headers = header_remove ''transfer-encoding'' (header_remove ''connection'' (res_headers response));
          body = res_body response;
          allowed = body_is_allowed (res_status response);
          len = show_nat (length body);
          headers =
            (if is_head then
               (if \<not> header_contains ''content-length'' headers then header_insert ''content-length'' len headers else headers)
             else if allowed then header_insert ''content-length'' len headers
             else header_remove ''content-length'' headers)
      in case h3_response_error stream of
           Some e \<Rightarrow> (Inl (Http3 e), nothing_sent)
         | None \<Rightarrow>
             (let sent = nothing_sent\<lparr>sent_head := Some (res_status response, headers)\<rparr>;
                  with_data = (\<not> is_head \<and> allowed \<and> body \<noteq> [])
              in case (if with_data then h3_data_error stream else None) of
                   Some e \<Rightarrow> (Inl (Http3 e), sent)
                 | None \<Rightarrow>
                     (let sent = (if with_data then sent\<lparr>sent_data := Some body\<rparr> else sent)
                      in case h3_finish_error stream of
                           Some e \<Rightarrow> (Inl (Http3 e), sent)
                         | None \<Rightarrow> (Inr (), sent\<lparr>sent_finished := True\<rparr>))))"

definition MAX_MASQUERADE_REQUEST_SIZE :: nat where
  "MAX_MASQUERADE_REQUEST_SIZE = 16 * 1024 * 1024"

definition empty_response :: "nat \<Rightarrow> http_response" where
  "empty_response status = \<lparr>res_status = status, res_headers = [], res_body = []\<rparr>"

text \<open>
  Reading the request body chunk by chunk: an HTTP/3 error, too much data, or the whole body.
\<close>

datatype body_outcome = BodyError string | BodyTooLarge | Body bytes

fun read_body :: "bytes \<Rightarrow> (string + bytes) list \<Rightarrow> body_outcome" where
  "read_body body [] = Body body"
| "read_body body (Inl e # chunks) = BodyError e"
| "read_body body (Inr chunk # chunks) =
     (if length body + length chunk > MAX_MASQUERADE_REQUEST_SIZE then BodyTooLarge
      else read_body (body @ chunk) chunks)"

definition serve_masquerade_request ::
  "masquerade_handler option \<Rightarrow> socket_addr \<Rightarrow> http_request \<Rightarrow> h3_stream \<Rightarrow> unit result \<times> sent_response" where
  "serve_masquerade_request masquerade source request stream =
     (let is_head = (req_method request = ''HEAD'')
      in case read_body [] (h3_chunks stream) of
           BodyError e \<Rightarrow> (Inl (Http3 e), nothing_sent)
         | BodyTooLarge \<Rightarrow> send_masquerade_response stream (empty_response 413) is_head
         | Body body \<Rightarrow>
             send_masquerade_response stream
               (case masquerade of Some handler \<Rightarrow> handler source request body | None \<Rightarrow> empty_response 404) is_head)"


section \<open>Headers\<close>

lemma header_remove_contains: "header_contains k (header_remove n hs) \<longleftrightarrow> k \<noteq> n \<and> header_contains k hs"
  by (auto simp: header_remove_def header_contains_def)

lemma header_insert_contains: "header_contains k (header_insert n v hs) \<longleftrightarrow> k = n \<or> header_contains k hs"
  by (auto simp: header_insert_def header_remove_def header_contains_def)

lemma header_get_insert: "header_get k (header_insert k v hs) = Some v"
proof -
  have "map_of (filter (\<lambda>(n, _). n \<noteq> k) hs) k = None"
    by (auto simp: map_of_eq_None_iff)
  then show ?thesis
    by (simp add: header_get_def header_insert_def header_remove_def map_add_def)
qed

lemmas header_simps = header_remove_contains header_insert_contains header_get_insert

lemma read_body_ok:
  "read_body acc chunks = Body b \<Longrightarrow> length acc \<le> MAX_MASQUERADE_REQUEST_SIZE \<Longrightarrow>
   length b \<le> MAX_MASQUERADE_REQUEST_SIZE \<and> (\<exists>cs. chunks = map Inr cs \<and> b = acc @ concat cs)"
proof (induction acc chunks rule: read_body.induct)
  case (1 body)
  then show ?case by simp
next
  case (3 body chunk chunks)
  then obtain cs where "length b \<le> MAX_MASQUERADE_REQUEST_SIZE" "chunks = map Inr cs" "b = (body @ chunk) @ concat cs"
    by (auto split: if_splits)
  then show ?case
    by (intro conjI exI [of _ "chunk # cs"]) simp_all
qed simp

lemma read_body_large: "read_body acc chunks = BodyTooLarge \<Longrightarrow>
    MAX_MASQUERADE_REQUEST_SIZE < length acc + length (concat [c. Inr c \<leftarrow> chunks])"
  by (induction acc chunks rule: read_body.induct) (auto split: if_splits)

lemma read_body_error: "read_body acc chunks = BodyError e \<Longrightarrow> Inl e \<in> set chunks"
  by (induction acc chunks rule: read_body.induct) (auto split: if_splits)


section \<open>Properties\<close>


definition open_h3 :: "bytes list \<Rightarrow> h3_stream" where
  "open_h3 chunks = \<lparr>h3_chunks = map Inr chunks, h3_response_error = None, h3_data_error = None, h3_finish_error = None\<rparr>"


text \<open>
  The masquerade handler only ever sees complete request bodies of at most 16 MiB: what it gets is
  the concatenation of all chunks, a larger body is answered with 413 without calling it, without a
  handler the answer is 404, and when the body cannot be read nothing is sent.
\<close>

theorem masquerade_body_limit:
  "(case read_body [] (h3_chunks stream) of
      Body b \<Rightarrow> length b \<le> 16777216 \<and> (\<exists>cs. h3_chunks stream = map Inr cs \<and> b = concat cs) \<and>
        serve_masquerade_request (Some handler) source request stream =
          send_masquerade_response stream (handler source request b) (req_method request = ''HEAD'') \<and>
        serve_masquerade_request None source request stream =
          send_masquerade_response stream (empty_response 404) (req_method request = ''HEAD'')
    | BodyTooLarge \<Rightarrow> length (concat [c. Inr c \<leftarrow> h3_chunks stream]) > 16777216 \<and>
        serve_masquerade_request (Some handler) source request stream =
          send_masquerade_response stream (empty_response 413) (req_method request = ''HEAD'')
    | BodyError e \<Rightarrow> Inl e \<in> set (h3_chunks stream) \<and>
        serve_masquerade_request (Some handler) source request stream = (Inl (Http3 e), nothing_sent))"
  using read_body_ok [of "[]" "h3_chunks stream"] read_body_large [of "[]" "h3_chunks stream"] read_body_error [of "[]" "h3_chunks stream"]
  by (auto simp: serve_masquerade_request_def MAX_MASQUERADE_REQUEST_SIZE_def split: body_outcome.splits)

end
