(* ===== verification/Hy2_Datagram.thy ===== *)
theory Hy2_Datagram
  imports Hy2_Protocol
begin

text \<open>
  The datagram codec of \<open>src/src/hysteria2/packet.rs\<close> (\<open>encode_message\<close>, \<open>decode_message\<close>,
  \<open>decode_varint\<close>): an eight-byte header, the destination as a length-prefixed \<open>host:port\<close> string, the
  payload. \<open>decode_varint\<close> is a second decoder of the QUIC integer format; it is shown to meet the
  contract of \<^theory_text>\<open>varint_decoder\<close>.
\<close>

definition UDP_HEADER_SIZE :: nat where
  "UDP_HEADER_SIZE = 8"

record udp_message =
  session_id :: u32
  packet_id :: u16
  fragment_id :: u8
  fragment_total :: u8
  msg_destination :: address
  msg_data :: bytes

definition decode_varint :: "bytes \<Rightarrow> (u64 \<times> nat) result" where
  "decode_varint bs =
     bindR (ok_or (Protocol ''missing Hysteria2 UDP address length'') (case bs of [] \<Rightarrow> None | b # _ \<Rightarrow> Some b)) (\<lambda>first.
       let len = push_bit (unat (drop_bit 6 first)) (1::nat)
       in if length bs < len then Inl (Protocol ''truncated Hysteria2 UDP address length'')
          else Inr (foldl (\<lambda>value b. push_bit 8 value OR ucast b) (ucast (first AND 0x3f))
                      (take (len - 1) (drop 1 bs)), len))"

definition decode_message :: "bytes \<Rightarrow> udp_message result" where
  "decode_message bs =
     (if length bs < UDP_HEADER_SIZE then Inl (Protocol ''truncated Hysteria2 UDP message'')
      else
        let session_id = from_be_bytes (take 4 bs);
            packet_id = from_be_bytes (take 2 (drop 4 bs));
            fragment_id = bs ! 6;
            fragment_total = bs ! 7
        in bindR (decode_varint (drop UDP_HEADER_SIZE bs)) (\<lambda>(address_length, encoded_length).
           let address_length = unat address_length
           in if address_length = 0 \<or> address_length > MAX_ADDRESS_LENGTH then Inl InvalidAddress
              else
                let address_start = UDP_HEADER_SIZE + encoded_length;
                    address_end = address_start + address_length
                in if address_end > length bs then Inl (Protocol ''truncated Hysteria2 UDP address'')
                   else bindR (ok_or InvalidAddress (from_utf8 (take address_length (drop address_start bs)))) (\<lambda>s.
                        bindR (address_from_str s) (\<lambda>destination.
                        Inr \<lparr>session_id = session_id, packet_id = packet_id, fragment_id = fragment_id,
                             fragment_total = fragment_total, msg_destination = destination,
                             msg_data = drop address_end bs\<rparr>))))"

definition encode_message :: "u32 \<Rightarrow> u16 \<Rightarrow> u8 \<Rightarrow> u8 \<Rightarrow> string \<Rightarrow> bytes \<Rightarrow> bytes \<Rightarrow> bytes" where
  "encode_message session packet frag_id frag_total addr address_length payload =
     to_be_bytes session @ to_be_bytes packet @ [frag_id] @ [frag_total] @
     address_length @ as_bytes addr @ payload"


section \<open>The integer decoder\<close>

definition decode_varint_bytes :: "bytes \<Rightarrow> (u64 \<times> bytes) result" where
  "decode_varint_bytes bs = bindR (decode_varint bs) (\<lambda>(v, n). Inr (v, drop n bs))"

lemma decode_varint_Cons:
  "decode_varint (b # bs) =
     (if length (b # bs) < 2 ^ (unat b div 64) then Inl (Protocol ''truncated Hysteria2 UDP address length'')
      else Inr (foldl (\<lambda>value b. push_bit 8 value OR ucast b) (ucast (b AND 0x3f))
        (take (2 ^ (unat b div 64) - 1) bs), 2 ^ (unat b div 64)))"
  unfolding decode_varint_def list.case ok_or_simps bindR_simps first_byte_length Let_def by simp

lemma decode_varint_refines:
  "qv_decode bs = Some (v, rest) \<Longrightarrow> decode_varint bs = Inr (word_of_nat v, length bs - length rest)"
  "qv_decode bs = None \<Longrightarrow> \<exists>e. decode_varint bs = Inl e"
proof -
  assume *: "qv_decode bs = Some (v, rest)"
  then obtain n where n: "n = 2 ^ (unat (hd bs) div 64)" "n \<le> length bs" "bs \<noteq> []" "rest = drop n bs"
    by (rule qv_decode_SomeE)
  then obtain b cs where bs: "bs = b # cs" by (cases bs) auto
  then have "n = 2 ^ (unat b div 64)"
    using n(1) by simp
  then show "decode_varint bs = Inr (word_of_nat v, length bs - length rest)"
    using qv_decode_foldl [of b cs] * n(2,4) unfolding bs decode_varint_Cons by auto
next
  assume "qv_decode bs = None"
  then show "\<exists>e. decode_varint bs = Inl e"
    by (cases bs) (simp add: decode_varint_def, auto simp: decode_varint_Cons qv_decode_def Let_def split: if_splits)
qed

interpretation udp_varint: varint_decoder decode_varint_bytes
proof
  show "decode_varint_bytes bs = Inr (word_of_nat v, rest)" if "qv_decode bs = Some (v, rest)" for bs v rest
    using that qv_decode_consumes [OF that] by (auto simp: decode_varint_bytes_def decode_varint_refines(1))
  show "\<exists>e. decode_varint_bytes bs = Inl e" if "qv_decode bs = None" for bs
    using decode_varint_refines(2) [OF that] by (auto simp: decode_varint_bytes_def)
qed

lemma decode_varint_qv_encode:
  "n < 2 ^ 62 \<Longrightarrow> decode_varint (qv_encode n @ rest) = Inr (word_of_nat n, length (qv_encode n))"
  using decode_varint_refines(1) [OF qv_roundtrip] by simp


section \<open>Messages\<close>

lemma length_encode_message:
  "length (encode_message s p i n a al d) = UDP_HEADER_SIZE + length al + length a + length d"
  by (simp add: encode_message_def UDP_HEADER_SIZE_def)

lemma encode_message_header:
  "take 4 (encode_message s p i n a al d) = to_be_bytes s"
  "take 2 (drop 4 (encode_message s p i n a al d)) = to_be_bytes p"
  "encode_message s p i n a al d ! 6 = i"
  "encode_message s p i n a al d ! 7 = n"
  "drop UDP_HEADER_SIZE (encode_message s p i n a al d) = al @ as_bytes a @ d"
  "drop (UDP_HEADER_SIZE + length al) (encode_message s p i n a al d) = as_bytes a @ d"
  "drop (UDP_HEADER_SIZE + length al + length a) (encode_message s p i n a al d) = d"
  by (simp_all add: encode_message_def UDP_HEADER_SIZE_def nth_append)

lemma decode_encode_message:
  assumes "0 < length a" "length a \<le> MAX_ADDRESS_LENGTH" "utf8_string a"
  shows "decode_message (encode_message s p i n a (qv_encode (length a)) d) =
    bindR (address_from_str a) (\<lambda>dest.
      Inr \<lparr>session_id = s, packet_id = p, fragment_id = i, fragment_total = n, msg_destination = dest, msg_data = d\<rparr>)"
proof -
  have small: "length a < 2 ^ 62"
    using assms(2) by (simp add: MAX_ADDRESS_LENGTH_def)
  then have "unat (word_of_nat (length a) :: u64) = length a"
    by (simp add: unat_of_nat_small)
  then show ?thesis
    using assms unfolding decode_message_def
    by (simp add: encode_message_header length_encode_message decode_varint_qv_encode [OF small] Let_def)
qed

lemma decode_message_no_panic: "decode_message bs \<noteq> Inl (Panic why)"
  by (auto simp: decode_message_def decode_varint_def address_from_str_def address_new_def Let_def result_iffs ok_or_def
      split: option.splits if_splits list.splits)

end
