(* ===== verification/Hy2_Packet.thy ===== *)
theory Hy2_Packet
  imports Hy2_Datagram
begin

text \<open>
  \<open>src/src/hysteria2/packet.rs\<close>: UDP over QUIC datagrams. A packet larger than a datagram is cut into
  fragments; the receiver keeps one fragment set per packet id and delivers the packet when the last
  missing fragment arrives. Time is a natural number of nanoseconds, and \<open>Instant::duration_since\<close> is
  truncated subtraction.
\<close>


section \<open>Data\<close>

definition MAX_UDP_SIZE :: nat where
  "MAX_UDP_SIZE = 4096"

definition FRAGMENT_LIFETIME :: nat where
  "FRAGMENT_LIFETIME = 10 * 1000000000"

definition INITIAL_UDP_MTU :: nat where
  "INITIAL_UDP_MTU = 1200 - 3"

record hysteria2_packet =
  data :: bytes
  destination :: address

record fragment_set =
  updated_at :: nat
  set_destination :: address
  parts :: "bytes option list"
  received :: nat

type_synonym defragger = "u16 \<rightharpoonup> fragment_set"


section \<open>Defragmentation\<close>

definition retain_fresh :: "nat \<Rightarrow> defragger \<Rightarrow> defragger" where
  "retain_fresh now d k = (case d k of
       None \<Rightarrow> None
     | Some f \<Rightarrow> if now - updated_at f \<le> FRAGMENT_LIFETIME then Some f else None)"

definition new_fragment_set :: "nat \<Rightarrow> address \<Rightarrow> nat \<Rightarrow> fragment_set" where
  "new_fragment_set now dest n =
     \<lparr>updated_at = now, set_destination = dest, parts = map (\<lambda>_. None) [0..<n], received = 0\<rparr>"

text \<open>The set the fragment goes into: the entry of its packet id, replaced if its size differs.\<close>

definition entry_set :: "nat \<Rightarrow> defragger \<Rightarrow> udp_message \<Rightarrow> fragment_set" where
  "entry_set now d message =
     (let total = unat (fragment_total message);
          fresh = new_fragment_set now (msg_destination message) total;
          fragment = (case d (packet_id message) of None \<Rightarrow> fresh | Some f \<Rightarrow> f)
      in if length (parts fragment) \<noteq> total then fresh else fragment)"

definition place_fragment :: "nat \<Rightarrow> bytes \<Rightarrow> fragment_set \<Rightarrow> fragment_set result" where
  "place_fragment i bs f =
     (if i < length (parts f) then
        Inr (case parts f ! i of
               None \<Rightarrow> f\<lparr>parts := (parts f)[i := Some bs], received := received f + 1\<rparr>
             | Some _ \<Rightarrow> f)
      else Inl (Panic ''index out of bounds''))"

definition assemble :: "fragment_set \<Rightarrow> hysteria2_packet result" where
  "assemble f =
     (if None \<in> set (parts f) then Inl (Panic ''complete Hysteria2 fragment'')
      else let chunks = map the (parts f)
           in if sum_list (map length chunks) > MAX_UDP_SIZE
              then Inl (Protocol ''Hysteria2 reassembled UDP packet exceeds 4096 bytes'')
              else Inr \<lparr>data = concat chunks, destination = set_destination f\<rparr>)"

definition feed :: "nat \<Rightarrow> defragger \<Rightarrow> udp_message \<Rightarrow> hysteria2_packet option result \<times> defragger" where
  "feed now d message =
     (if fragment_total message \<le> 1 then
        (Inr (Some \<lparr>data = msg_data message, destination = msg_destination message\<rparr>), d)
      else if fragment_id message \<ge> fragment_total message then (Inr None, d)
      else
        let d = retain_fresh now d;
            total = unat (fragment_total message);
            fragment = (entry_set now d message)\<lparr>updated_at := now\<rparr>
        in case place_fragment (unat (fragment_id message)) (msg_data message) fragment of
             Inl e \<Rightarrow> (Inl e, d(packet_id message \<mapsto> fragment))
           | Inr fragment \<Rightarrow>
               if received fragment \<noteq> total then (Inr None, d(packet_id message \<mapsto> fragment))
               else (bindR (assemble fragment) (\<lambda>p. Inr (Some p)), d(packet_id message := None)))"


section \<open>The invariant of the fragment table\<close>

definition filled :: "bytes option list \<Rightarrow> nat" where
  "filled ps = length (filter (\<lambda>p. p \<noteq> None) ps)"

definition fragment_ok :: "fragment_set \<Rightarrow> bool" where
  "fragment_ok f \<longleftrightarrow>
     2 \<le> length (parts f) \<and> length (parts f) \<le> 255 \<and>
     received f = filled (parts f) \<and> filled (parts f) < length (parts f)"

definition defragger_ok :: "defragger \<Rightarrow> bool" where
  "defragger_ok d \<longleftrightarrow> (\<forall>k f. d k = Some f \<longrightarrow> fragment_ok f)"

lemma filled_fresh [simp]: "filled (map (\<lambda>_. None) xs) = 0"
  by (simp add: filled_def)

lemma filled_le: "filled ps \<le> length ps"
  by (simp add: filled_def)

lemma filled_update:
  "i < length ps \<Longrightarrow> ps ! i = None \<Longrightarrow> filled (ps[i := Some bs]) = Suc (filled ps)"
  unfolding filled_def
  by (induction ps arbitrary: i) (auto simp: nth_Cons split: nat.splits)

lemma filled_full: "filled ps = length ps \<longleftrightarrow> None \<notin> set ps"
proof (induction ps)
  case (Cons p ps)
  have "length (filter (\<lambda>p. \<exists>y. p = Some y) ps) \<noteq> Suc (length ps)"
    by (metis Suc_n_not_le_n length_filter_le)
  then show ?case
    using Cons by (cases p) (auto simp: filled_def)
qed (simp add: filled_def)

lemma retain_fresh_ok: "defragger_ok d \<Longrightarrow> defragger_ok (retain_fresh now d)"
  by (auto simp: defragger_ok_def retain_fresh_def split: option.splits if_splits)

lemma entry_set_ok:
  assumes "defragger_ok d" "1 < unat (fragment_total m)"
  shows "fragment_ok (entry_set now d m)" "length (parts (entry_set now d m)) = unat (fragment_total m)"
proof -
  have "fragment_ok (new_fragment_set now a (unat (fragment_total m)))" for a
    using assms(2) unat_u8_less [of "fragment_total m"] by (simp add: new_fragment_set_def fragment_ok_def)
  then show "fragment_ok (entry_set now d m)"
    using assms(1) by (simp add: entry_set_def defragger_ok_def Let_def split: option.splits)
  show "length (parts (entry_set now d m)) = unat (fragment_total m)"
    by (simp add: entry_set_def new_fragment_set_def Let_def)
qed

text \<open>The counter of a set always equals the number of its filled parts, so the \<open>expect\<close>s hold.\<close>

lemma place_fragment_ok:
  assumes "fragment_ok f" "i < length (parts f)"
  obtains g where "place_fragment i bs f = Inr g" "length (parts g) = length (parts f)"
    "received g = filled (parts g)" "set_destination g = set_destination f" "updated_at g = updated_at f"
proof (cases "parts f ! i")
  case None
  then show ?thesis
    using assms that [of "f\<lparr>parts := (parts f)[i := Some bs], received := received f + 1\<rparr>"]
    by (simp add: place_fragment_def fragment_ok_def filled_update)
next
  case (Some x)
  then show ?thesis
    using assms that [of f] by (simp add: place_fragment_def fragment_ok_def)
qed

lemma feed_set:
  assumes "defragger_ok d" "1 < fragment_total m" "fragment_id m < fragment_total m"
  obtains g where
    "place_fragment (unat (fragment_id m)) (msg_data m)
       ((entry_set now (retain_fresh now d) m)\<lparr>updated_at := now\<rparr>) = Inr g"
    "length (parts g) = unat (fragment_total m)" "received g = filled (parts g)"
proof -
  let ?f = "(entry_set now (retain_fresh now d) m)\<lparr>updated_at := now\<rparr>"
  have n: "1 < unat (fragment_total m)" "unat (fragment_id m) < unat (fragment_total m)"
    using assms(2,3) by (simp_all add: word_less_nat_alt)
  have "fragment_ok ?f" "length (parts ?f) = unat (fragment_total m)"
    using entry_set_ok [OF retain_fresh_ok [OF assms(1)] n(1)] by (simp_all add: fragment_ok_def)
  with n(2) that show ?thesis
    by (metis place_fragment_ok)
qed

lemma feed_invariant:
  assumes "defragger_ok d"
  shows "defragger_ok (snd (feed now d m))" "fst (feed now d m) \<noteq> Inl (Panic why)"
proof -
  consider "fragment_total m \<le> 1" | "\<not> fragment_total m \<le> 1" "fragment_total m \<le> fragment_id m"
    | "1 < fragment_total m" "fragment_id m < fragment_total m"
    by fastforce
  then have "defragger_ok (snd (feed now d m)) \<and> fst (feed now d m) \<noteq> Inl (Panic why)"
  proof cases
    case 3
    then have n: "1 < unat (fragment_total m)"
      by (simp add: word_less_nat_alt)
    obtain g where g: "place_fragment (unat (fragment_id m)) (msg_data m)
        ((entry_set now (retain_fresh now d) m)\<lparr>updated_at := now\<rparr>) = Inr g"
      "length (parts g) = unat (fragment_total m)" "received g = filled (parts g)"
      using feed_set [OF assms 3] by blast
    show ?thesis
    proof (cases "received g = unat (fragment_total m)")
      case True
      then have "None \<notin> set (parts g)"
        using g(2,3) filled_full [of "parts g"] by simp
      then show ?thesis
        using 3 g True retain_fresh_ok [OF assms, of now]
        by (auto simp: feed_def Let_def assemble_def defragger_ok_def result_iffs)
    next
      case False
      then have "fragment_ok g"
        using g(2,3) n unat_u8_less [of "fragment_total m"] filled_le [of "parts g"] by (simp add: fragment_ok_def)
      then show ?thesis
        using 3 g False retain_fresh_ok [OF assms, of now] by (auto simp: feed_def Let_def defragger_ok_def)
    qed
  qed (use assms in \<open>simp_all add: feed_def\<close>)
  then show "defragger_ok (snd (feed now d m))" "fst (feed now d m) \<noteq> Inl (Panic why)"
    by blast+
qed


section \<open>Reassembly\<close>

text \<open>
  Abstractly, a set under construction is the list of the packet's chunks and the set of the indices
  seen so far. \<open>holds_seen\<close> relates the table to it: the entry of packet id \<open>k\<close> stores exactly the seen
  chunks and is no older than \<open>t\<close>.
\<close>

definition seen_parts :: "bytes list \<Rightarrow> nat set \<Rightarrow> bytes option list" where
  "seen_parts cs S = map (\<lambda>i. if i \<in> S then Some (cs ! i) else None) [0..<length cs]"

definition holds_seen :: "nat \<Rightarrow> u16 \<Rightarrow> address \<Rightarrow> bytes list \<Rightarrow> nat set \<Rightarrow> defragger \<Rightarrow> bool" where
  "holds_seen t k dest cs S d \<longleftrightarrow>
     (if S = {} then d k = None
      else (\<exists>f. d k = Some f \<and> t \<le> updated_at f \<and> set_destination f = dest \<and>
                parts f = seen_parts cs S \<and> received f = card S))"

definition is_fragment :: "u16 \<Rightarrow> address \<Rightarrow> bytes list \<Rightarrow> udp_message \<Rightarrow> bool" where
  "is_fragment k dest cs m \<longleftrightarrow>
     packet_id m = k \<and> msg_destination m = dest \<and> unat (fragment_total m) = length cs \<and>
     unat (fragment_id m) < length cs \<and> msg_data m = cs ! unat (fragment_id m)"

lemma seen_parts_empty: "seen_parts cs {} = map (\<lambda>_. None) [0..<length cs]"
  by (simp add: seen_parts_def)

lemma length_seen_parts [simp]: "length (seen_parts cs S) = length cs"
  by (simp add: seen_parts_def)

lemma nth_seen_parts: "i < length cs \<Longrightarrow> seen_parts cs S ! i = (if i \<in> S then Some (cs ! i) else None)"
  by (simp add: seen_parts_def)

lemma seen_parts_insert:
  "i < length cs \<Longrightarrow> (seen_parts cs S)[i := Some (cs ! i)] = seen_parts cs (insert i S)"
  by (rule nth_equalityI) (auto simp: nth_seen_parts nth_list_update)

lemma seen_parts_all: "seen_parts cs {..<length cs} = map Some cs"
  by (rule nth_equalityI) (auto simp: nth_seen_parts)

lemma retain_fresh_seen:
  assumes "holds_seen t k dest cs S d" "now \<le> t + FRAGMENT_LIFETIME"
  shows "holds_seen t k dest cs S (retain_fresh now d)"
  using assms by (cases "S = {}") (auto simp: holds_seen_def retain_fresh_def)

lemma entry_set_seen:
  assumes "holds_seen t k dest cs S d" "is_fragment k dest cs m"
  shows "parts (entry_set now d m) = seen_parts cs S" "received (entry_set now d m) = card S"
    "set_destination (entry_set now d m) = dest"
  using assms
  by (auto simp: holds_seen_def is_fragment_def entry_set_def new_fragment_set_def seen_parts_empty Let_def
      split: if_splits)

lemma place_fragment_seen:
  assumes "is_fragment k dest cs m" "parts f = seen_parts cs S" "received f = card S" "finite S"
  obtains g where "place_fragment (unat (fragment_id m)) (msg_data m) f = Inr g"
    "parts g = seen_parts cs (insert (unat (fragment_id m)) S)"
    "received g = card (insert (unat (fragment_id m)) S)"
    "set_destination g = set_destination f" "updated_at g = updated_at f"
proof (cases "unat (fragment_id m) \<in> S")
  case True
  then show ?thesis
    using assms that [of f] by (simp add: place_fragment_def is_fragment_def nth_seen_parts insert_absorb)
next
  case False
  then show ?thesis
    using assms that [of "f\<lparr>parts := seen_parts cs (insert (unat (fragment_id m)) S), received := received f + 1\<rparr>"]
    by (simp add: place_fragment_def is_fragment_def nth_seen_parts seen_parts_insert)
qed

lemma feed_fragment:
  assumes "holds_seen t k dest cs S d" "is_fragment k dest cs m" "2 \<le> length cs" "S \<subseteq> {..<length cs}"
    "t \<le> now" "now \<le> t + FRAGMENT_LIFETIME" "sum_list (map length cs) \<le> MAX_UDP_SIZE"
    "S' = insert (unat (fragment_id m)) S"
  shows "S' \<noteq> {..<length cs} \<Longrightarrow> fst (feed now d m) = Inr None \<and> holds_seen t k dest cs S' (snd (feed now d m))"
    "S' = {..<length cs} \<Longrightarrow> fst (feed now d m) = Inr (Some \<lparr>data = concat cs, destination = dest\<rparr>) \<and>
       snd (feed now d m) k = None"
proof -
  let ?d = "retain_fresh now d" and ?f = "(entry_set now (retain_fresh now d) m)\<lparr>updated_at := now\<rparr>"
  note kept = entry_set_seen [OF retain_fresh_seen [OF assms(1,6)] assms(2), of now]
  have k: "packet_id m = k" "unat (fragment_total m) = length cs" "unat (fragment_id m) < length cs"
    using assms(2) by (simp_all add: is_fragment_def)
  have guards: "\<not> fragment_total m \<le> 1" "\<not> fragment_total m \<le> fragment_id m"
    using k(2,3) assms(3) by (simp_all add: word_le_nat_alt)
  have "finite S"
    using assms(4) finite_subset by blast
  then obtain g where g: "place_fragment (unat (fragment_id m)) (msg_data m) ?f = Inr g"
    "parts g = seen_parts cs S'" "received g = card S'" "set_destination g = dest" "updated_at g = now"
    using place_fragment_seen [OF assms(2), of ?f S] kept assms(8) by auto
  have feed: "feed now d m =
      (if card S' \<noteq> length cs then (Inr None, ?d(k \<mapsto> g))
       else (bindR (assemble g) (\<lambda>p. Inr (Some p)), ?d(k := None)))"
    unfolding feed_def Let_def g(1) using guards k g(3) by simp
  have sub: "S' \<subseteq> {..<length cs}"
    using assms(4,8) k(3) by simp
  have full: "card S' = length cs \<longleftrightarrow> S' = {..<length cs}"
    using card_subset_eq [OF _ sub] by auto
  show "fst (feed now d m) = Inr None \<and> holds_seen t k dest cs S' (snd (feed now d m))"
    if "S' \<noteq> {..<length cs}"
    using that full g assms(5,8) by (simp add: feed holds_seen_def)
  show "fst (feed now d m) = Inr (Some \<lparr>data = concat cs, destination = dest\<rparr>) \<and> snd (feed now d m) k = None"
    if "S' = {..<length cs}"
    using that full g assms(7) by (simp add: feed assemble_def seen_parts_all comp_def image_iff)
qed

lemma feed_other:
  assumes "holds_seen t k dest cs S d" "packet_id m \<noteq> k" "now \<le> t + FRAGMENT_LIFETIME"
  shows "holds_seen t k dest cs S (snd (feed now d m))"
  using assms(1,2) retain_fresh_seen [OF assms(1,3)]
  by (auto simp: feed_def holds_seen_def Let_def split: sum.splits if_splits)

text \<open>
  A run of the receiver: timed messages, among them fragments of our packet in any order and any
  number of times, and messages with other packet ids.
\<close>

definition feed_all :: "defragger \<Rightarrow> (nat \<times> udp_message) list \<Rightarrow> defragger" where
  "feed_all d es = foldl (\<lambda>d (now, m). snd (feed now d m)) d es"

definition seen_ids :: "u16 \<Rightarrow> (nat \<times> udp_message) list \<Rightarrow> nat set" where
  "seen_ids k es = {unat (fragment_id m) | now m. (now, m) \<in> set es \<and> packet_id m = k}"

definition run_of :: "nat \<Rightarrow> u16 \<Rightarrow> address \<Rightarrow> bytes list \<Rightarrow> (nat \<times> udp_message) list \<Rightarrow> bool" where
  "run_of t k dest cs es \<longleftrightarrow>
     (\<forall>(now, m) \<in> set es. t \<le> now \<and> now \<le> t + FRAGMENT_LIFETIME \<and>
        (packet_id m = k \<longrightarrow> is_fragment k dest cs m))"

lemma seen_ids_snoc:
  "seen_ids k (es @ [(now, m)]) = (if packet_id m = k then insert (unat (fragment_id m)) (seen_ids k es) else seen_ids k es)"
  by (auto simp: seen_ids_def)

lemma seen_ids_sub: "run_of t k dest cs es \<Longrightarrow> seen_ids k es \<subseteq> {..<length cs}"
  by (fastforce simp: run_of_def seen_ids_def is_fragment_def)

lemma run_of_snoc:
  "run_of t k dest cs (es @ [(now, m)]) \<longleftrightarrow> run_of t k dest cs es \<and> t \<le> now \<and> now \<le> t + FRAGMENT_LIFETIME \<and>
     (packet_id m = k \<longrightarrow> is_fragment k dest cs m)"
  by (auto simp: run_of_def)

lemma feed_all_seen:
  assumes "run_of t k dest cs es" "d k = None" "2 \<le> length cs" "sum_list (map length cs) \<le> MAX_UDP_SIZE"
    "seen_ids k es \<noteq> {..<length cs}"
  shows "holds_seen t k dest cs (seen_ids k es) (feed_all d es)"
  using assms(1,5)
proof (induction es rule: rev_induct)
  case Nil
  then show ?case
    using assms(2) by (simp add: holds_seen_def seen_ids_def feed_all_def)
next
  case (snoc e es)
  obtain now m where e: "e = (now, m)" by (cases e)
  have run: "run_of t k dest cs es" "t \<le> now" "now \<le> t + FRAGMENT_LIFETIME" "packet_id m = k \<Longrightarrow> is_fragment k dest cs m"
    using snoc.prems(1) by (simp_all add: e run_of_snoc)
  have "seen_ids k es \<noteq> {..<length cs}"
    using snoc.prems e seen_ids_sub [OF snoc.prems(1)] by (auto simp: seen_ids_snoc split: if_splits)
  then have IH: "holds_seen t k dest cs (seen_ids k es) (feed_all d es)"
    by (rule snoc.IH [OF run(1)])
  have step: "feed_all d (es @ [e]) = snd (feed now (feed_all d es) m)"
    by (simp add: feed_all_def e)
  show ?case
  proof (cases "packet_id m = k")
    case True
    then show ?thesis
      using feed_fragment(1) [OF IH run(4) [OF True] assms(3) seen_ids_sub [OF run(1)] run(2,3) assms(4) refl] snoc.prems(2)
      unfolding step unfolding e seen_ids_snoc by simp
  next
    case False
    then show ?thesis
      using feed_other [OF IH False run(3)] unfolding step unfolding e seen_ids_snoc by simp
  qed
qed

end
