(* ===== verification/Hy2_Udp.thy ===== *)
theory Hy2_Udp
  imports Hy2_Packet
begin

text \<open>
  \<open>Hysteria2PacketConnection\<close> of \<open>src/src/hysteria2/packet.rs\<close>: sending a packet as one or more datagrams,
  the bounded queue of received packets, receiving, and the idle timer. The QUIC connection is a
  parameter: its datagram size limit, and for every datagram (given those sent before it) the error
  text if it is refused.
\<close>


section \<open>State and operations\<close>

record datagram_sender =
  max_datagram_size :: "nat option"
  send_datagram :: "bytes list \<Rightarrow> bytes \<Rightarrow> string option"

record packet_connection =
  conn_session :: u32
  next_packet_id :: u32
  incoming :: "hysteria2_packet list"
  fragments :: defragger
  activity :: nat

definition packet_connection_new :: "nat \<Rightarrow> u32 \<Rightarrow> packet_connection" where
  "packet_connection_new now session =
     \<lparr>conn_session = session, next_packet_id = 0, incoming = [], fragments = Map.empty, activity = now\<rparr>"

text \<open>The channel between the datagram reader and \<open>recv\<close> holds 64 packets; \<open>try_send\<close> drops when full.\<close>

definition packet_input :: "nat \<Rightarrow> udp_message \<Rightarrow> packet_connection \<Rightarrow> unit result \<times> packet_connection" where
  "packet_input now message c = (case feed now (fragments c) message of
       (Inl e, d) \<Rightarrow> (Inl e, c\<lparr>fragments := d\<rparr>)
     | (Inr None, d) \<Rightarrow> (Inr (), c\<lparr>fragments := d\<rparr>)
     | (Inr (Some packet), d) \<Rightarrow>
         (Inr (), c\<lparr>fragments := d,
                    incoming := (if length (incoming c) < 64 then incoming c @ [packet] else incoming c)\<rparr>))"

text \<open>\<open>slice::chunks\<close> and \<open>usize::div_ceil\<close>; the chunk size is positive wherever they are used.\<close>

function chunks :: "nat \<Rightarrow> 'a list \<Rightarrow> 'a list list" where
  "chunks n xs = (if xs = [] \<or> n = 0 then [] else take n xs # chunks n (drop n xs))"
  by pat_completeness auto
termination by (relation "measure (\<lambda>(n, xs). length xs)") auto

definition div_ceil :: "nat \<Rightarrow> nat \<Rightarrow> nat" where
  "div_ceil a b = (if a mod b = 0 then a div b else a div b + 1)"

declare chunks.simps [simp del]

fun send_frames :: "datagram_sender \<Rightarrow> bytes list \<Rightarrow> bytes list \<Rightarrow> unit result \<times> bytes list" where
  "send_frames q sent [] = (Inr (), sent)"
| "send_frames q sent (frame # frames) = (case send_datagram q sent frame of
       Some text \<Rightarrow> (Inl (Protocol text), sent)
     | None \<Rightarrow> send_frames q (sent @ [frame]) frames)"

definition datagram_limit :: "datagram_sender \<Rightarrow> nat" where
  "datagram_limit q =
     min (case max_datagram_size q of None \<Rightarrow> INITIAL_UDP_MTU | Some limit \<Rightarrow> limit - 3) INITIAL_UDP_MTU"

definition next_id :: "u32 \<Rightarrow> u16" where
  "next_id counter = ucast ((counter + 1) mod 65535)"

definition packet_frames ::
  "u32 \<Rightarrow> u16 \<Rightarrow> u8 \<Rightarrow> string \<Rightarrow> bytes \<Rightarrow> nat \<Rightarrow> bytes \<Rightarrow> bytes list" where
  "packet_frames session pid frag_total addr address_length fragment_size payload =
     map (\<lambda>(i, chunk). encode_message session pid (word_of_nat i) frag_total addr address_length chunk)
       (enumerate 0 (chunks fragment_size payload)) @
     (if payload = [] then [encode_message session pid 0 1 addr address_length []] else [])"

definition packet_send ::
  "datagram_sender \<Rightarrow> nat \<Rightarrow> hysteria2_packet \<Rightarrow> bytes list \<Rightarrow> packet_connection \<Rightarrow>
   unit result \<times> bytes list \<times> packet_connection" where
  "packet_send q now packet sent c =
     (if length (data packet) > MAX_UDP_SIZE
      then (Inl (Protocol ''Hysteria2 UDP packet exceeds 4096 bytes''), sent, c)
      else
        let pid = next_id (next_packet_id c);
            c = c\<lparr>next_packet_id := next_packet_id c + 1\<rparr>;
            addr = address_to_string (destination packet)
        in if addr = [] \<or> length addr > MAX_ADDRESS_LENGTH then (Inl InvalidAddress, sent, c)
           else case varint_encode (word_of_nat (length addr)) of
             Inl e \<Rightarrow> (Inl e, sent, c)
           | Inr address_length \<Rightarrow>
               let header_size = UDP_HEADER_SIZE + length address_length + length addr
               in if header_size \<ge> datagram_limit q
                  then (Inl (Protocol ''Hysteria2 UDP address exceeds QUIC datagram size''), sent, c)
                  else
                    let fragment_size = datagram_limit q - header_size;
                        frag_total = max (div_ceil (length (data packet)) fragment_size) 1
                    in if frag_total > 255 then (Inl (Protocol ''too many Hysteria2 UDP fragments''), sent, c)
                       else case send_frames q sent
                              (packet_frames (conn_session c) pid (word_of_nat frag_total) addr address_length
                                 fragment_size (data packet)) of
                           (Inl e, sent) \<Rightarrow> (Inl e, sent, c)
                         | (Inr _, sent) \<Rightarrow> (Inr (), sent, c\<lparr>activity := now\<rparr>))"

text \<open>
  One poll of \<open>recv\<close>: nothing (\<open>None\<close>) while no packet is queued and the connection is open. When both
  branches of the \<open>select!\<close> are ready it takes either one, given by \<open>pick\<close>.
\<close>

definition packet_recv ::
  "bool \<Rightarrow> nat \<Rightarrow> connection_error option \<Rightarrow> packet_connection \<Rightarrow>
   hysteria2_packet result option \<times> packet_connection" where
  "packet_recv pick now closed c = (case (incoming c, closed) of
       ([], None) \<Rightarrow> (None, c)
     | ([], Some e) \<Rightarrow> (Some (Inl (Connection e)), c)
     | (p # ps, Some e) \<Rightarrow>
         if pick then (Some (Inr p), c\<lparr>incoming := ps, activity := now\<rparr>) else (Some (Inl (Connection e)), c)
     | (p # ps, None) \<Rightarrow> (Some (Inr p), c\<lparr>incoming := ps, activity := now\<rparr>))"

text \<open>
  \<open>wait_inactive\<close> sleeps until the last activity plus the timeout and checks again. A wake-up is the
  timer firing at some time with the then current activity, a change of the activity (or its
  sender gone), or the connection closing.
\<close>

datatype wake = TimerFired nat nat | ActivityChanged bool | ConnectionGone

fun wait_inactive :: "nat \<Rightarrow> wake list \<Rightarrow> wake option" where
  "wait_inactive timeout [] = None"
| "wait_inactive timeout (w # ws) = (case w of
       TimerFired now last_activity \<Rightarrow>
         if now - last_activity \<ge> timeout then Some w else wait_inactive timeout ws
     | ActivityChanged changed \<Rightarrow> if \<not> changed then Some w else wait_inactive timeout ws
     | ConnectionGone \<Rightarrow> Some w)"


section \<open>Chunks\<close>

lemma chunks_Nil [simp]: "chunks n [] = []"
  by (simp add: chunks.simps)

lemma chunks_step: "0 < n \<Longrightarrow> xs \<noteq> [] \<Longrightarrow> chunks n xs = take n xs # chunks n (drop n xs)"
  by (simp add: chunks.simps)

lemma concat_chunks: "0 < n \<Longrightarrow> concat (chunks n xs) = xs"
proof (induction n xs rule: chunks.induct)
  case (1 n xs)
  then show ?case
    by (cases "xs = []") (simp_all add: chunks_step)
qed

lemma chunks_bounds: "0 < n \<Longrightarrow> c \<in> set (chunks n xs) \<Longrightarrow> 0 < length c \<and> length c \<le> n"
proof (induction n xs rule: chunks.induct)
  case (1 n xs)
  then show ?case
    by (cases "xs = []") (auto simp: chunks_step)
qed

lemma div_ceil_step: "0 < b \<Longrightarrow> 0 < a \<Longrightarrow> div_ceil a b = Suc (div_ceil (a - b) b)"
proof -
  assume b: "0 < b" and a: "0 < a"
  show ?thesis
  proof (cases "a < b")
    case True
    then show ?thesis using a by (simp add: div_ceil_def)
  next
    case False
    then show ?thesis using b by (simp add: div_ceil_def le_div_geq le_mod_geq)
  qed
qed

lemma length_chunks: "0 < n \<Longrightarrow> length (chunks n xs) = div_ceil (length xs) n"
proof (induction n xs rule: chunks.induct)
  case (1 n xs)
  then show ?case
    by (cases "xs = []") (simp_all add: chunks_step div_ceil_step div_ceil_def [of 0])
qed


section \<open>The frames of a packet\<close>

definition accepts_all :: "datagram_sender \<Rightarrow> bool" where
  "accepts_all q \<longleftrightarrow> (\<forall>sent frame. send_datagram q sent frame = None)"

lemma send_frames_ok: "accepts_all q \<Longrightarrow> send_frames q sent fs = (Inr (), sent @ fs)"
  by (induction fs arbitrary: sent) (simp_all add: accepts_all_def)

lemma send_frames_prefix: "\<exists>k. snd (send_frames q sent fs) = sent @ take k fs"
proof (induction fs arbitrary: sent)
  case (Cons f fs)
  show ?case
  proof (cases "send_datagram q sent f")
    case None
    obtain k where "snd (send_frames q (sent @ [f]) fs) = (sent @ [f]) @ take k fs"
      using Cons.IH by blast
    then show ?thesis
      using None by (intro exI [of _ "Suc k"]) simp
  next
    case (Some t)
    then show ?thesis by (intro exI [of _ 0]) simp
  qed
qed simp

text \<open>The layout \<open>send\<close> computes for a packet: where its fields come from when no guard fails.\<close>

definition header_size :: "address \<Rightarrow> nat" where
  "header_size a =
     UDP_HEADER_SIZE + length (qv_encode (length (address_to_string a))) + length (address_to_string a)"

definition fragment_size :: "datagram_sender \<Rightarrow> address \<Rightarrow> nat" where
  "fragment_size q a = datagram_limit q - header_size a"

definition sendable :: "datagram_sender \<Rightarrow> hysteria2_packet \<Rightarrow> bool" where
  "sendable q p \<longleftrightarrow>
     length (data p) \<le> MAX_UDP_SIZE \<and>
     length (address_to_string (destination p)) \<le> MAX_ADDRESS_LENGTH \<and>
     header_size (destination p) < datagram_limit q \<and>
     div_ceil (length (data p)) (fragment_size q (destination p)) \<le> 255"

definition frames_of :: "datagram_sender \<Rightarrow> u32 \<Rightarrow> u16 \<Rightarrow> hysteria2_packet \<Rightarrow> bytes list" where
  "frames_of q session pid p =
     (let a = destination p; addr = address_to_string a; al = qv_encode (length addr)
      in packet_frames session pid (word_of_nat (max (div_ceil (length (data p)) (fragment_size q a)) 1))
           addr al (fragment_size q a) (data p))"

lemma address_to_string_not_Nil [simp]: "address_to_string a \<noteq> []"
  by (simp add: address_to_string_def)

lemma packet_send_cases:
  "packet_send q now p sent c =
     (if sendable q p then
        (case send_frames q sent (frames_of q (conn_session c) (next_id (next_packet_id c)) p) of
           (Inl e, sent') \<Rightarrow> (Inl e, sent', c\<lparr>next_packet_id := next_packet_id c + 1\<rparr>)
         | (Inr _, sent') \<Rightarrow> (Inr (), sent', c\<lparr>next_packet_id := next_packet_id c + 1, activity := now\<rparr>))
      else (Inl (if length (data p) > MAX_UDP_SIZE then Protocol ''Hysteria2 UDP packet exceeds 4096 bytes''
                 else if length (address_to_string (destination p)) > MAX_ADDRESS_LENGTH then InvalidAddress
                 else if header_size (destination p) \<ge> datagram_limit q
                 then Protocol ''Hysteria2 UDP address exceeds QUIC datagram size''
                 else Protocol ''too many Hysteria2 UDP fragments''),
            sent,
            if length (data p) > MAX_UDP_SIZE then c else c\<lparr>next_packet_id := next_packet_id c + 1\<rparr>))"
proof (cases "length (data p) > MAX_UDP_SIZE \<or> length (address_to_string (destination p)) > MAX_ADDRESS_LENGTH")
  case True
  then show ?thesis
    by (auto simp: packet_send_def sendable_def Let_def)
next
  case False
  let ?n = "length (address_to_string (destination p))"
  have "?n < 2 ^ 62"
    using False by (simp add: MAX_ADDRESS_LENGTH_def)
  then have "varint_encode (word_of_nat ?n) = Inr (qv_encode ?n)"
    by (rule varint_encode_small)
  moreover have "255 < max n 1 \<longleftrightarrow> 255 < n" for n :: nat
    by auto
  ultimately show ?thesis
    using False
    by (cases "header_size (destination p) < datagram_limit q";
        cases "255 < div_ceil (length (data p)) (fragment_size q (destination p))")
      (simp_all add: packet_send_def sendable_def frames_of_def header_size_def fragment_size_def Let_def)
qed

lemma frames_of_empty:
  "data p = [] \<Longrightarrow> frames_of q s k p =
     [encode_message s k 0 1 (address_to_string (destination p)) (qv_encode (length (address_to_string (destination p)))) []]"
  by (simp add: frames_of_def packet_frames_def Let_def)

lemma frames_of_chunks:
  assumes "data p \<noteq> []" "cs = chunks (fragment_size q (destination p)) (data p)" "sendable q p"
  shows "frames_of q s k p =
     map (\<lambda>i. encode_message s k (word_of_nat i) (word_of_nat (length cs)) (address_to_string (destination p))
        (qv_encode (length (address_to_string (destination p)))) (cs ! i)) [0..<length cs]"
proof -
  have pos: "0 < fragment_size q (destination p)"
    using assms(3) by (simp add: sendable_def fragment_size_def)
  then have "0 < length cs"
    using assms(1,2) by (simp add: chunks_step)
  then have "max (div_ceil (length (data p)) (fragment_size q (destination p))) 1 = length cs"
    using length_chunks [OF pos, of "data p"] assms(2) by simp
  moreover have "enumerate 0 cs = map (\<lambda>i. (i, cs ! i)) [0..<length cs]"
    by (rule nth_equalityI) (simp_all add: nth_enumerate_eq)
  ultimately show ?thesis
    using assms(1,2) by (simp add: frames_of_def packet_frames_def Let_def)
qed

lemma frame_size:
  assumes "sendable q p" "f \<in> set (frames_of q s k p)"
  shows "length f \<le> datagram_limit q"
proof (cases "data p = []")
  case True
  then show ?thesis
    using assms by (simp add: frames_of_empty length_encode_message sendable_def header_size_def)
next
  case False
  let ?cs = "chunks (fragment_size q (destination p)) (data p)"
  have pos: "0 < fragment_size q (destination p)"
    using assms(1) by (simp add: sendable_def fragment_size_def)
  obtain i where i: "i < length ?cs" "length f = header_size (destination p) + length (?cs ! i)"
    using assms(2) frames_of_chunks [OF False refl assms(1)] by (auto simp: length_encode_message header_size_def)
  have "length (?cs ! i) \<le> fragment_size q (destination p)"
    using chunks_bounds [OF pos nth_mem [OF i(1)]] by blast
  then show ?thesis
    using i(2) assms(1) unfolding fragment_size_def sendable_def by linarith
qed


section \<open>From frames back to the packet\<close>

definition frame_message :: "u32 \<Rightarrow> u16 \<Rightarrow> address \<Rightarrow> bytes list \<Rightarrow> nat \<Rightarrow> udp_message" where
  "frame_message s k a cs i =
     \<lparr>session_id = s, packet_id = k, fragment_id = word_of_nat i, fragment_total = word_of_nat (length cs),
      msg_destination = a, msg_data = cs ! i\<rparr>"

lemma decode_address_frame:
  assumes "sendable q p" "normal_host (host (destination p))" "utf8_string (host (destination p))"
  shows "decode_message (encode_message s k i n (address_to_string (destination p))
      (qv_encode (length (address_to_string (destination p)))) d) =
    Inr \<lparr>session_id = s, packet_id = k, fragment_id = i, fragment_total = n, msg_destination = destination p, msg_data = d\<rparr>"
  using decode_encode_message [of "address_to_string (destination p)" s k i n d] assms
    address_from_to_string [OF assms(2)] utf8_address_to_string [OF assms(3)]
  by (simp add: sendable_def)

text \<open>The fragment list of a packet: its chunks, or one empty chunk.\<close>

definition packet_chunks :: "datagram_sender \<Rightarrow> hysteria2_packet \<Rightarrow> bytes list" where
  "packet_chunks q p = (if data p = [] then [[]] else chunks (fragment_size q (destination p)) (data p))"

lemma packet_chunks_facts:
  assumes "sendable q p"
  shows "concat (packet_chunks q p) = data p" "0 < length (packet_chunks q p)" "length (packet_chunks q p) \<le> 255"
    "sum_list (map length (packet_chunks q p)) \<le> MAX_UDP_SIZE"
proof -
  have pos: "0 < fragment_size q (destination p)"
    using assms by (simp add: sendable_def fragment_size_def)
  show c: "concat (packet_chunks q p) = data p"
    by (simp add: packet_chunks_def concat_chunks [OF pos])
  show "0 < length (packet_chunks q p)"
    using pos by (simp add: packet_chunks_def chunks_step)
  show "length (packet_chunks q p) \<le> 255"
    using assms by (simp add: packet_chunks_def sendable_def length_chunks [OF pos])
  have "sum_list (map length (packet_chunks q p)) = length (data p)"
    by (simp add: c flip: length_concat)
  then show "sum_list (map length (packet_chunks q p)) \<le> MAX_UDP_SIZE"
    using assms by (simp add: sendable_def)
qed

lemma frames_of_decode:
  assumes "sendable q p" "normal_host (host (destination p))" "utf8_string (host (destination p))"
  shows "map decode_message (frames_of q s k p) =
    map (\<lambda>i. Inr (frame_message s k (destination p) (packet_chunks q p) i)) [0..<length (packet_chunks q p)]"
proof (cases "data p = []")
  case True
  then show ?thesis
    by (simp add: frames_of_empty packet_chunks_def frame_message_def decode_address_frame [OF assms])
next
  case False
  then show ?thesis
    by (simp add: frames_of_chunks [OF False refl assms(1)] packet_chunks_def frame_message_def
        decode_address_frame [OF assms])
qed

lemma decoded_frames:
  assumes "sendable q p" "normal_host (host (destination p))" "utf8_string (host (destination p))"
  shows "(\<exists>f \<in> set (frames_of q s k p). decode_message f = Inr m) \<longleftrightarrow>
    (\<exists>i < length (packet_chunks q p). m = frame_message s k (destination p) (packet_chunks q p) i)"
proof -
  have "(\<exists>f \<in> set (frames_of q s k p). decode_message f = Inr m) \<longleftrightarrow> Inr m \<in> set (map decode_message (frames_of q s k p))"
    by (auto simp: image_iff eq_commute)
  also have "\<dots> \<longleftrightarrow> (\<exists>i < length (packet_chunks q p). m = frame_message s k (destination p) (packet_chunks q p) i)"
    unfolding frames_of_decode [OF assms] by auto
  finally show ?thesis .
qed

lemma frame_message_fragment:
  assumes "i < length cs" "length cs \<le> 255"
  shows "is_fragment k a cs (frame_message s k a cs i)" "unat (fragment_id (frame_message s k a cs i)) = i"
    "packet_id (frame_message s k a cs i) = k"
  using assms by (simp_all add: is_fragment_def frame_message_def unat_of_nat_small)

lemma single_frame_delivered:
  "length cs = 1 \<Longrightarrow> fst (feed now d (frame_message s k a cs 0)) = Inr (Some \<lparr>data = cs ! 0, destination = a\<rparr>)"
  by (simp add: feed_def frame_message_def)

text \<open>
  The messages of a run that carry our packet id are frames of the packet, in any order and possibly
  repeated; \<open>last\<close> is the first one after which no frame is missing.
\<close>

definition frame_run :: "nat \<Rightarrow> u32 \<Rightarrow> u16 \<Rightarrow> address \<Rightarrow> bytes list \<Rightarrow> (nat \<times> udp_message) list \<Rightarrow> bool" where
  "frame_run t s k a cs es \<longleftrightarrow>
     (\<forall>(now, m) \<in> set es. t \<le> now \<and> now \<le> t + FRAGMENT_LIFETIME \<and>
        (packet_id m = k \<longrightarrow> (\<exists>i < length cs. m = frame_message s k a cs i)))"

lemma frame_run_of:
  assumes "frame_run t s k a cs es" "length cs \<le> 255"
  shows "run_of t k a cs es"
  unfolding run_of_def
proof clarify
  fix now m
  assume "(now, m) \<in> set es"
  then have m: "t \<le> now" "now \<le> t + FRAGMENT_LIFETIME" "packet_id m = k \<Longrightarrow> \<exists>i < length cs. m = frame_message s k a cs i"
    using assms(1) by (auto simp: frame_run_def)
  have "is_fragment k a cs m" if k: "packet_id m = k"
  proof -
    obtain i where "i < length cs" "m = frame_message s k a cs i"
      using m(3) [OF k] by (elim exE conjE)
    then show ?thesis
      by (simp only: frame_message_fragment(1) [OF _ assms(2)])
  qed
  then show "t \<le> now \<and> now \<le> t + FRAGMENT_LIFETIME \<and> (packet_id m = k \<longrightarrow> is_fragment k a cs m)"
    using m(1,2) by simp
qed

lemma frame_run_seen:
  assumes "frame_run t s k a cs es" "length cs \<le> 255" "i < length cs"
  shows "i \<in> seen_ids k es \<longleftrightarrow> frame_message s k a cs i \<in> snd ` set es"
proof
  assume "i \<in> seen_ids k es"
  then obtain now m where m: "(now, m) \<in> set es" "packet_id m = k" "i = unat (fragment_id m)"
    by (auto simp: seen_ids_def)
  then obtain j where "j < length cs" "m = frame_message s k a cs j"
    using assms(1) by (fastforce simp: frame_run_def)
  then show "frame_message s k a cs i \<in> snd ` set es"
    using m frame_message_fragment(2) [of j cs s k a] assms(2) by force
next
  assume "frame_message s k a cs i \<in> snd ` set es"
  then obtain now where "(now, frame_message s k a cs i) \<in> set es"
    by auto
  then show "i \<in> seen_ids k es"
    using frame_message_fragment(2,3) [OF assms(3,2), where s = s and k = k and a = a]
    unfolding seen_ids_def by (intro CollectI exI [of _ now] exI [of _ "frame_message s k a cs i"]) simp
qed

lemma frame_run_reassembles:
  assumes run: "frame_run t s k a cs (es @ [(t1, m)])" and cs: "0 < length cs" "length cs \<le> 255"
    and size: "sum_list (map length cs) \<le> MAX_UDP_SIZE" and fresh: "d k = None"
    and all: "\<forall>i < length cs. frame_message s k a cs i \<in> snd ` set (es @ [(t1, m)])"
    and missing: "i < length cs" "frame_message s k a cs i \<notin> snd ` set es"
  shows "fst (feed t1 (feed_all d es) m) = Inr (Some \<lparr>data = concat cs, destination = a\<rparr>)"
proof (cases "length cs = 1")
  case True
  then have "m = frame_message s k a cs 0"
    using all missing by auto
  moreover have "concat cs = cs ! 0"
    using True by (cases cs) auto
  ultimately show ?thesis
    using single_frame_delivered [OF True] by simp
next
  case False
  have es: "frame_run t s k a cs es" "t \<le> t1" "t1 \<le> t + FRAGMENT_LIFETIME"
    using run by (auto simp: frame_run_def)
  have m: "m = frame_message s k a cs i"
    using all missing by auto
  have ids: "j \<in> seen_ids k es \<or> j = i" if "j < length cs" for j
    using that all frame_run_seen [OF es(1) cs(2) that] m frame_message_fragment(2) [of _ cs s k a] missing(1) cs(2)
    by (metis image_insert insert_iff list.set(2) rotate1.simps(2) set_rotate1 snd_conv)
  have sub: "seen_ids k es \<subseteq> {..<length cs}"
    by (rule seen_ids_sub [OF frame_run_of [OF es(1) cs(2)]])
  have "i \<notin> seen_ids k es"
    using frame_run_seen [OF es(1) cs(2) missing(1)] missing(2) by simp
  then have "seen_ids k es \<noteq> {..<length cs}"
    using missing(1) by auto
  then have seen: "holds_seen t k a cs (seen_ids k es) (feed_all d es)"
    using feed_all_seen [where d = d, OF frame_run_of [OF es(1) cs(2)] fresh _ size] False cs(1) by simp
  have full: "{..<length cs} = insert (unat (fragment_id m)) (seen_ids k es)"
    using ids sub missing(1) frame_message_fragment(2) [OF missing(1) cs(2)] m by auto
  have frag: "is_fragment k a cs m"
    unfolding m by (rule frame_message_fragment(1) [OF missing(1) cs(2)])
  show ?thesis
    using feed_fragment(2) [OF seen frag _ sub es(2,3) size full refl] False cs(1) by simp
qed

lemma frames_reassemble:
  assumes "sendable q p" "normal_host (host (destination p))" "utf8_string (host (destination p))"
    and "d k = None"
    and "\<forall>(now, m) \<in> set (es @ [(t1, final)]). t \<le> now \<and> now \<le> t + FRAGMENT_LIFETIME \<and>
      (packet_id m = k \<longrightarrow> (\<exists>f \<in> set (frames_of q s k p). decode_message f = Inr m))"
    and "\<forall>f \<in> set (frames_of q s k p). decode_message f \<in> Inr ` snd ` set (es @ [(t1, final)])"
    and "\<exists>f \<in> set (frames_of q s k p). decode_message f \<notin> Inr ` snd ` set es"
  shows "fst (feed t1 (feed_all d es) final) = Inr (Some p)"
proof -
  let ?cs = "packet_chunks q p" and ?a = "destination p"
  note facts = packet_chunks_facts [OF assms(1)] and dec = decoded_frames [OF assms(1-3), where s = s and k = k]
  have frames: "decode_message ` set (frames_of q s k p) = (\<lambda>i. Inr (frame_message s k ?a ?cs i)) ` {..<length ?cs}"
    using frames_of_decode [OF assms(1-3), of s k, THEN arg_cong, of set] by (simp add: lessThan_atLeast0)
  have run: "frame_run t s k ?a ?cs (es @ [(t1, final)])"
    using assms(5) unfolding frame_run_def dec .
  have all: "\<forall>i < length ?cs. frame_message s k ?a ?cs i \<in> snd ` set (es @ [(t1, final)])"
    using assms(6) frames by (smt (verit) Inr_inject image_iff lessThan_iff)
  obtain i where "i < length ?cs" "frame_message s k ?a ?cs i \<notin> snd ` set es"
    using assms(7) frames by (smt (verit) image_iff lessThan_iff)
  from frame_run_reassembles [where d = d, OF run facts(2,3,4) assms(4) all this] show ?thesis
    by (simp add: facts(1))
qed


section \<open>Packet ids\<close>

lemma next_id_value: "unat (next_id c) = unat (c + 1) mod 65535"
proof -
  have "unat ((c + 1) mod 65535 :: u32) = unat (c + 1) mod 65535"
    by (simp add: unat_mod_distrib)
  moreover have "unat (c + 1) mod 65535 < 2 ^ 16"
    by (rule less_trans [of _ 65535]) simp_all
  ultimately show ?thesis
    by (simp add: next_id_def unsigned_ucast_eq take_bit_nat_eq_self_iff)
qed


section \<open>Properties\<close>

text \<open>A concrete sender and packet: two fragments, delivered in reverse order.\<close>

definition small_sender :: datagram_sender where
  "small_sender = \<lparr>max_datagram_size = Some 17, send_datagram = (\<lambda>_ _. None)\<rparr>"

definition small_packet :: hysteria2_packet where
  "small_packet = \<lparr>data = [7, 8, 9], destination = \<lparr>host = ''a'', port = 1\<rparr>\<rparr>"

definition small_fragment :: "nat \<Rightarrow> udp_message" where
  "small_fragment i = frame_message 1 4 (destination small_packet) [[7, 8], [9]] i"

text \<open>
  (C1) A packet accepted by \<open>send\<close> is delivered unchanged: when all the datagrams it was cut into arrive
  within the fragment lifetime, in any order, duplicated, and interleaved with messages of other
  packet ids, the defragmenter returns exactly that packet when the last missing one arrives.
\<close>

theorem udp_packet_reassembled:
  assumes "sendable q p" "normal_host (host (destination p))" "utf8_string (host (destination p))"
    and "d k = None"
    and "\<forall>(now, m) \<in> set (es @ [(t1, final)]). t \<le> now \<and> now \<le> t + FRAGMENT_LIFETIME \<and>
      (packet_id m = k \<longrightarrow> (\<exists>f \<in> set (frames_of q s k p). decode_message f = Inr m))"
    and "\<forall>f \<in> set (frames_of q s k p). decode_message f \<in> Inr ` snd ` set (es @ [(t1, final)])"
    and "\<exists>f \<in> set (frames_of q s k p). decode_message f \<notin> Inr ` snd ` set es"
  shows "fst (feed t1 (feed_all d es) final) = Inr (Some p)"
  by (rule frames_reassemble [where d = d and k = k, OF assms])

theorem udp_packet_reassembled_witness:
  "sendable small_sender small_packet \<and>
   fst (feed 7 (feed_all Map.empty [(3, small_fragment 1)]) (small_fragment 0)) = Inr (Some small_packet)"
proof
  show send: "sendable small_sender small_packet" by code_simp
  have host: "normal_host (host (destination small_packet))" "utf8_string (host (destination small_packet))"
    by code_simp+
  have cs: "packet_chunks small_sender small_packet = [[7, 8], [9]]" by code_simp
  note dec = decoded_frames [OF send host] and decs = frames_of_decode [OF send host, THEN arg_cong [of _ _ set], unfolded cs]
  have frames: "decode_message ` set (frames_of small_sender 1 4 small_packet) = {Inr (small_fragment 0), Inr (small_fragment 1)}"
    using decs [of 1 4] by (simp add: small_fragment_def insert_commute)
  have ne: "small_fragment 0 \<noteq> small_fragment 1" by code_simp
  show "fst (feed 7 (feed_all Map.empty [(3, small_fragment 1)]) (small_fragment 0)) = Inr (Some small_packet)"
  proof (rule udp_packet_reassembled [where t = 3 and k = 4 and s = 1, OF send host])
    show "\<forall>(now, m) \<in> set ([(3, small_fragment 1)] @ [(7, small_fragment 0)]). 3 \<le> now \<and> now \<le> 3 + FRAGMENT_LIFETIME \<and>
      (packet_id m = 4 \<longrightarrow> (\<exists>f \<in> set (frames_of small_sender 1 4 small_packet). decode_message f = Inr m))"
      by (auto simp: dec cs small_fragment_def FRAGMENT_LIFETIME_def)
    show "\<forall>f \<in> set (frames_of small_sender 1 4 small_packet).
      decode_message f \<in> Inr ` snd ` set ([(3, small_fragment 1)] @ [(7, small_fragment 0)])"
      using frames by auto
    have "Inr (small_fragment 0) \<in> decode_message ` set (frames_of small_sender 1 4 small_packet)"
      unfolding frames by simp
    then show "\<exists>f \<in> set (frames_of small_sender 1 4 small_packet). decode_message f \<notin> Inr ` snd ` set [(3, small_fragment 1)]"
      using ne by force
  qed simp
qed

text \<open>
  (C10) The fragment table stays well formed under any message, every set counting its filled parts and
  never complete, and feeding never panics: neither the index nor the \<open>expect\<close>s can fail.
\<close>

theorem feed_safe:
  assumes "defragger_ok d"
  shows "defragger_ok (snd (feed now d m)) \<and> (\<forall>why. fst (feed now d m) \<noteq> Inl (Panic why))"
  using feed_invariant [OF assms] by blast

theorem feed_safe_witness:
  "defragger_ok (snd (feed 5 Map.empty (small_fragment 0))) \<and>
   (\<forall>why. fst (feed 5 Map.empty (small_fragment 0)) \<noteq> Inl (Panic why))"
  by (rule feed_safe) (simp add: defragger_ok_def)

text \<open>
  (C12) What \<open>send\<close> hands to QUIC: a sendable packet over an accepting connection becomes exactly its
  frames, each of at most 1197 bytes and at least 3 bytes below the connection's datagram limit when
  it has one; any other packet is refused before anything is sent.
\<close>

theorem packet_send_frames:
  assumes "accepts_all q"
  shows "packet_send q now p sent c =
      (if sendable q p
       then (Inr (), sent @ frames_of q (conn_session c) (next_id (next_packet_id c)) p,
             c\<lparr>next_packet_id := next_packet_id c + 1, activity := now\<rparr>)
       else (fst (packet_send q now p sent c), sent, snd (snd (packet_send q now p sent c)))) \<and>
    (sendable q p \<longleftrightarrow> fst (packet_send q now p sent c) = Inr ()) \<and>
    (\<forall>f \<in> set (frames_of q s k p). sendable q p \<longrightarrow>
       length f \<le> 1197 \<and> (case max_datagram_size q of None \<Rightarrow> True | Some limit \<Rightarrow> length f + 3 \<le> limit))"
proof -
  have "length f \<le> 1197 \<and> (case max_datagram_size q of None \<Rightarrow> True | Some limit \<Rightarrow> length f + 3 \<le> limit)"
    if "sendable q p" "f \<in> set (frames_of q s k p)" for f
  proof -
    have "0 < datagram_limit q"
      using that(1) by (auto simp: sendable_def)
    then show ?thesis
      using frame_size [OF that] by (auto simp: datagram_limit_def INITIAL_UDP_MTU_def split: option.splits)
  qed
  then show ?thesis
    by (auto simp: packet_send_cases send_frames_ok [OF assms])
qed

theorem packet_send_frames_witness:
  "fst (packet_send small_sender 9 small_packet [] (packet_connection_new 0 1)) = Inr ()"
proof -
  have "accepts_all small_sender"
    by (simp add: accepts_all_def small_sender_def)
  moreover have "sendable small_sender small_packet" by code_simp
  ultimately show ?thesis
    using packet_send_frames [of small_sender 9 small_packet "[]" "packet_connection_new 0 1"] by simp
qed

text \<open>
  Packet ids: two sends fewer than 65535 apart use different ids as long as the 32-bit counter does
  not wrap between them. At the wrap itself two consecutive packets share id 0, because
  65535 divides $2^{32} - 1$.
\<close>

theorem packet_ids_distinct:
  assumes "i < j" "j - i < 65535" "unat c + j + 1 < 2 ^ 32"
  shows "next_id (c + word_of_nat i) \<noteq> next_id (c + word_of_nat j)"
proof -
  have val: "unat (next_id (c + word_of_nat k)) = (unat c + k + 1) mod 65535" if "k \<le> j" for k
  proof -
    have "c + word_of_nat k + 1 = word_of_nat (unat c + k + 1)"
      by (simp add: ac_simps)
    then have "unat (c + word_of_nat k + 1) = unat (word_of_nat (unat c + k + 1) :: u32)"
      by (rule arg_cong)
    also have "\<dots> = unat c + k + 1"
      using that assms(3) by (intro unat_of_nat_small) simp
    finally show ?thesis
      by (simp add: next_id_value)
  qed
  have "(unat c + i + 1) mod 65535 \<noteq> (unat c + j + 1) mod 65535"
  proof
    assume "(unat c + i + 1) mod 65535 = (unat c + j + 1) mod 65535"
    then have "65535 dvd (unat c + j + 1) - (unat c + i + 1)"
      using assms(1) by (subst mod_eq_dvd_iff_nat [symmetric]) simp_all
    then have "65535 dvd j - i" by simp
    then show False
      using assms(1,2) by (auto dest: dvd_imp_le)
  qed
  then show ?thesis
    using val [of i] val [of j] assms(1) by auto
qed

theorem packet_ids_distinct_witness: "next_id (5 + word_of_nat 0) \<noteq> next_id (5 + word_of_nat 3)"
  by (rule packet_ids_distinct) simp_all

end
