(* ===== verification/Hy2_Server.thy ===== *)
theory Hy2_Server
  imports Hy2_Setup Hy2_Masquerade Hy2_Udp Congestion
begin

text \<open>
  One connection of the Hysteria2 server (\<open>src/src/hysteria2/server.rs\<close>): the first HTTP/3 request decides
  whether the peer is a client or a stranger; a stranger only ever sees the masquerade site, a
  client's streams and datagrams become accepted TCP streams and UDP sessions. HTTP/3 is a
  parameter: the events below are what it hands to the crate.
\<close>


section \<open>Authentication\<close>

definition URL_AUTHORITY :: string where
  "URL_AUTHORITY = ''hysteria''"

definition URL_PATH :: string where
  "URL_PATH = ''/auth''"

definition STATUS_AUTH_OK :: u16 where
  "STATUS_AUTH_OK = 233"

definition HEADER_AUTH :: string where
  "HEADER_AUTH = ''hysteria-auth''"

definition HEADER_CC_RX :: string where
  "HEADER_CC_RX = ''hysteria-cc-rx''"

definition HEADER_UDP :: string where
  "HEADER_UDP = ''hysteria-udp''"

definition HEADER_PADDING :: string where
  "HEADER_PADDING = ''hysteria-padding''"

record auth_response =
  auth_status :: u16
  auth_headers :: headers

text \<open>
  The users by password, collected from a list in order; \<open>to_str\<close> is \<open>HeaderValue::to_str\<close>, which fails on
  opaque bytes.
\<close>

definition hy2_users :: "hy2_user list \<Rightarrow> string \<rightharpoonup> string" where
  "hy2_users users = foldl (\<lambda>m u. m(hy2_password u \<mapsto> hy2_name u)) Map.empty users"

definition request_user_of :: "(string \<Rightarrow> string option) \<Rightarrow> (string \<rightharpoonup> string) \<Rightarrow> http_request \<Rightarrow> string option" where
  "request_user_of to_str users request =
     Option.bind (Option.bind (header_get HEADER_AUTH (req_headers request)) to_str) users"

definition authenticated :: "(string \<Rightarrow> string option) \<Rightarrow> (string \<rightharpoonup> string) \<Rightarrow> http_request \<Rightarrow> bool" where
  "authenticated to_str users request \<longleftrightarrow>
     req_method request = ''POST'' \<and> req_authority request = Some URL_AUTHORITY \<and>
     req_path request = URL_PATH \<and> request_user_of to_str users request \<noteq> None"

definition is_normal_connection_close :: "error \<Rightarrow> bool" where
  "is_normal_connection_close e = (case e of
       Connection LocallyClosed \<Rightarrow> True
     | Connection (ApplicationClosed code) \<Rightarrow> code = 0
     | _ \<Rightarrow> False)"


section \<open>The connection\<close>

datatype hy2_accepted =
    Hy2Stream (hy2_destination: address) (hy2_accepted_user: string) (hy2_source: socket_addr) congestion_kind (hy2_rest: bytes)
  | Hy2Packet (hy2_destination: address) (hy2_accepted_user: string) (hy2_source: socket_addr) congestion_kind nat

datatype hy2_phase =
    AwaitRequest
  | Masquerading
  | Serving (serving_user: string) (serving_kind: congestion_kind)
  | Over "unit result"

text \<open>
  UDP sessions are kept by weak reference: the table names a handle, and the handle is gone once the
  application dropped the packet connection. \<open>hy2_app_gone\<close> tells that the receiver of the accept channel
  was dropped; \<open>hy2_sent\<close> and \<open>hy2_received\<close> record the datagrams handed to QUIC and the packets handed to the
  application by \<open>send\<close> and \<open>recv\<close> of its packet connections.
\<close>

record 'c hy2_connection =
  hy2_phase :: hy2_phase
  hy2_heap :: "'c cc_heap"
  hy2_responses :: "auth_response list"
  hy2_masked :: "(http_request \<times> unit result \<times> sent_response) list"
  hy2_accepted :: "hy2_accepted list"
  hy2_metrics :: bool
  hy2_app_gone :: bool
  hy2_sent :: "bytes list"
  hy2_received :: "(nat \<times> hysteria2_packet) list"
  udp_sessions :: "u32 \<rightharpoonup> nat"
  handles :: "nat \<rightharpoonup> packet_connection"
  next_handle :: nat

record ('c, 'r, 'p, 'm) hy2_config =
  cfg_to_str :: "string \<Rightarrow> string option"
  cfg_users :: "string \<rightharpoonup> string"
  cfg_bandwidth :: server_bandwidth
  cfg_ops :: "('c, 'r, 'p, 'm) controller_ops"
  cfg_connection :: "'c cc_connection"
  cfg_source :: socket_addr
  cfg_masquerade :: "masquerade_handler option"
  cfg_rng :: rng
  cfg_respond :: "auth_response \<Rightarrow> string option"

definition hy2_init :: "'c cc_heap \<Rightarrow> 'c hy2_connection" where
  "hy2_init h = \<lparr>hy2_phase = AwaitRequest, hy2_heap = h, hy2_responses = [], hy2_masked = [], hy2_accepted = [],
     hy2_metrics = False, hy2_app_gone = False, hy2_sent = [], hy2_received = [],
     udp_sessions = Map.empty, handles = Map.empty, next_handle = 0\<rparr>"

text \<open>
  \<open>spawn_masquerade_request\<close>: the task answers the request; how that ended is only logged.
\<close>

definition spawn_masquerade_request ::
  "('c, 'r, 'p, 'm) hy2_config \<Rightarrow> http_request \<Rightarrow> h3_stream \<Rightarrow> 'c hy2_connection \<Rightarrow> 'c hy2_connection" where
  "spawn_masquerade_request cfg request stream c =
     c\<lparr>hy2_masked := hy2_masked c @
       [(request, serve_masquerade_request (cfg_masquerade cfg) (cfg_source cfg) request stream)]\<rparr>"

definition to_masquerade ::
  "('c, 'r, 'p, 'm) hy2_config \<Rightarrow> http_request \<Rightarrow> h3_stream \<Rightarrow> 'c hy2_connection \<Rightarrow> 'c hy2_connection" where
  "to_masquerade cfg request stream c = (spawn_masquerade_request cfg request stream c)\<lparr>hy2_phase := Masquerading\<rparr>"

definition auth_ok_response :: "rng \<Rightarrow> congestion_receive \<Rightarrow> auth_response" where
  "auth_ok_response rng receive =
     \<lparr>auth_status = STATUS_AUTH_OK,
      auth_headers = [(HEADER_UDP, ''true''), (HEADER_CC_RX, congestion_receive_value receive), (HEADER_PADDING, padding rng 256 2048)]\<rparr>"

text \<open>
  The first request: masquerade, or set up congestion control and answer 233. \<open>cfg_respond\<close> is the failure of
  HTTP/3 to send the answer and finish its stream, if any; \<open>hy2_responses\<close> records the answers that were
  sent and finished. Either failure ends the connection.
\<close>

definition first_request ::
  "('c, 'r, 'p, 'm) hy2_config \<Rightarrow> nat \<Rightarrow> http_request \<Rightarrow> h3_stream \<Rightarrow> 'c hy2_connection \<Rightarrow> 'c hy2_connection" where
  "first_request cfg now request stream c =
     (let client_receive = parse_congestion_receive (cfg_to_str cfg) (header_get HEADER_CC_RX (req_headers request));
          bandwidth = cfg_bandwidth cfg
      in if \<not> authenticated (cfg_to_str cfg) (cfg_users cfg) request then to_masquerade cfg request stream c
         else if server_receive_bps bandwidth > 0 \<and> ignore_client_bandwidth bandwidth \<and>
                 \<not> (case client_receive of Rate r \<Rightarrow> r > 0 | Auto \<Rightarrow> False)
         then to_masquerade cfg request stream c
         else
           let send_rate = server_send_rate bandwidth client_receive;
               (ok, h) = (case send_rate of
                   None \<Rightarrow> (True, hy2_heap c)
                 | Some r \<Rightarrow> configure_connection_brutal_with_options (cfg_ops cfg) now (cfg_connection cfg) r
                              (server_disable_loss_compensation bandwidth) (hy2_heap c));
               c = c\<lparr>hy2_heap := h\<rparr>
           in if \<not> ok then c\<lparr>hy2_phase := Over (Inl CongestionControl)\<rparr>
              else case connection_congestion_kind (cfg_connection cfg) h of
                None \<Rightarrow> c\<lparr>hy2_phase := Over (Inl CongestionControl)\<rparr>
              | Some k \<Rightarrow>
                  (let response = auth_ok_response (cfg_rng cfg) (advertised_receive bandwidth send_rate)
                   in case cfg_respond cfg response of
                        Some m \<Rightarrow> c\<lparr>hy2_phase := Over (Inl (Http3 m))\<rparr>
                      | None \<Rightarrow>
                          (let c = c\<lparr>hy2_responses := hy2_responses c @ [response]\<rparr>
                           in case request_user_of (cfg_to_str cfg) (cfg_users cfg) request of
                                None \<Rightarrow> c\<lparr>hy2_phase := Over (Inl (Panic ''authenticated request has a user''))\<rparr>
                              | Some u \<Rightarrow> c\<lparr>hy2_phase := Serving u k, hy2_metrics := server_brutal_debug bandwidth\<rparr>)))"

text \<open>
  A TCP stream: the request is read, success is answered, the stream is handed out, with the remote
  address the connection then has; \<open>gone\<close> tells that nobody receives it any more.
\<close>

definition handle_stream ::
  "bool \<Rightarrow> rng \<Rightarrow> socket_addr \<Rightarrow> string \<Rightarrow> congestion_kind \<Rightarrow> reader \<Rightarrow> writer \<Rightarrow> (hy2_accepted \<times> writer) result" where
  "handle_stream gone rng source u k r w =
     bindR (read_tcp_request r) (\<lambda>(dest, r).
     bindR (write_tcp_response rng None w) (\<lambda>w.
     if gone then Inl Closed else Inr (Hy2Stream dest u source k (pending r), w)))"

text \<open>A datagram: the live session of its id, or a new one that is handed out first.\<close>

definition session_handle :: "u32 \<Rightarrow> 'c hy2_connection \<Rightarrow> nat option" where
  "session_handle sid c = Option.bind (udp_sessions c sid) (\<lambda>n. if handles c n \<noteq> None then Some n else None)"

definition open_session ::
  "nat \<Rightarrow> socket_addr \<Rightarrow> string \<Rightarrow> congestion_kind \<Rightarrow> udp_message \<Rightarrow> 'c hy2_connection \<Rightarrow> nat result \<times> 'c hy2_connection" where
  "open_session now source u k message c =
     (let n = next_handle c
      in if hy2_app_gone c then (Inl Closed, c)
         else (Inr n, c\<lparr>next_handle := n + 1,
               handles := (handles c)(n \<mapsto> packet_connection_new now (session_id message)),
               hy2_accepted := hy2_accepted c @ [Hy2Packet (msg_destination message) u source k n],
               udp_sessions := (udp_sessions c)(session_id message \<mapsto> n)\<rparr>))"

definition serve_datagram :: "nat \<Rightarrow> socket_addr \<Rightarrow> string \<Rightarrow> congestion_kind \<Rightarrow> bytes \<Rightarrow> 'c hy2_connection \<Rightarrow> 'c hy2_connection" where
  "serve_datagram now source u k datagram c = (case decode_message datagram of
       Inl e \<Rightarrow> c\<lparr>hy2_phase := Over (Inl e)\<rparr>
     | Inr message \<Rightarrow>
         (case (case session_handle (session_id message) c of
                Some n \<Rightarrow> (Inr n, c)
              | None \<Rightarrow> open_session now source u k message c) of
            (Inl e, c) \<Rightarrow> c\<lparr>hy2_phase := Over (Inl e)\<rparr>
          | (Inr n, c) \<Rightarrow>
              (case handles c n of
                 None \<Rightarrow> c
               | Some pc \<Rightarrow>
                   (case packet_input now message pc of
                      (Inl e, pc) \<Rightarrow> c\<lparr>handles := (handles c)(n \<mapsto> pc), hy2_phase := Over (Inl e)\<rparr>
                    | (Inr _, pc) \<Rightarrow> c\<lparr>handles := (handles c)(n \<mapsto> pc)\<rparr>))))"

text \<open>The application's calls on a packet connection it holds.\<close>

definition session_recv :: "bool \<Rightarrow> nat \<Rightarrow> connection_error option \<Rightarrow> nat \<Rightarrow> 'c hy2_connection \<Rightarrow> 'c hy2_connection" where
  "session_recv pick now closed n c = (case handles c n of
       None \<Rightarrow> c
     | Some pc \<Rightarrow>
         (case packet_recv pick now closed pc of
            (res, pc) \<Rightarrow> c\<lparr>handles := (handles c)(n \<mapsto> pc),
              hy2_received := hy2_received c @ (case res of Some (Inr p) \<Rightarrow> [(n, p)] | _ \<Rightarrow> [])\<rparr>))"

definition session_send :: "datagram_sender \<Rightarrow> nat \<Rightarrow> hysteria2_packet \<Rightarrow> nat \<Rightarrow> 'c hy2_connection \<Rightarrow> 'c hy2_connection" where
  "session_send q now packet n c = (case handles c n of
       None \<Rightarrow> c
     | Some pc \<Rightarrow>
         (case packet_send q now packet (hy2_sent c) pc of
            (_, sent, pc) \<Rightarrow> c\<lparr>handles := (handles c)(n \<mapsto> pc), hy2_sent := sent\<rparr>))"

datatype hy2_event =
    Request nat http_request h3_stream
  | NoRequest
  | Http3Failed string
  | StreamAccepted socket_addr reader writer
  | StreamFailed connection_error
  | DatagramRead nat socket_addr bytes
  | DatagramFailed connection_error
  | SessionRecv bool nat "connection_error option" nat
  | SessionSend datagram_sender nat hysteria2_packet nat
  | SessionDropped nat
  | ReceiverGone

fun hy2_step :: "('c, 'r, 'p, 'm) hy2_config \<Rightarrow> hy2_event \<Rightarrow> 'c hy2_connection \<Rightarrow> 'c hy2_connection" where
  "hy2_step cfg ev c = (case (hy2_phase c, ev) of
       (AwaitRequest, Request now request stream) \<Rightarrow> first_request cfg now request stream c
     | (AwaitRequest, NoRequest) \<Rightarrow> c\<lparr>hy2_phase := Over (Inl (Protocol ''connection closed before authentication''))\<rparr>
     | (AwaitRequest, Http3Failed m) \<Rightarrow> c\<lparr>hy2_phase := Over (Inl (Http3 m))\<rparr>
     | (Masquerading, Request now request stream) \<Rightarrow> spawn_masquerade_request cfg request stream c
     | (Masquerading, NoRequest) \<Rightarrow> c\<lparr>hy2_phase := Over (Inr ())\<rparr>
     | (Masquerading, Http3Failed m) \<Rightarrow> c\<lparr>hy2_phase := Over (Inl (Http3 m))\<rparr>
     | (Serving u k, Http3Failed m) \<Rightarrow> c\<lparr>hy2_phase := Over (Inl (Http3 m))\<rparr>
     | (Serving u k, StreamFailed e) \<Rightarrow> c\<lparr>hy2_phase := Over (Inl (Connection e))\<rparr>
     | (Serving u k, StreamAccepted source r w) \<Rightarrow>
         (case handle_stream (hy2_app_gone c) (cfg_rng cfg) source u k r w of
            Inl e \<Rightarrow> c
          | Inr (a, _) \<Rightarrow> c\<lparr>hy2_accepted := hy2_accepted c @ [a]\<rparr>)
     | (Serving u k, DatagramRead now source d) \<Rightarrow> serve_datagram now source u k d c
     | (Serving u k, DatagramFailed e) \<Rightarrow> c\<lparr>hy2_phase := Over (Inl (Connection e))\<rparr>
     | (_, SessionRecv pick now closed n) \<Rightarrow> session_recv pick now closed n c
     | (_, SessionSend q now packet n) \<Rightarrow> session_send q now packet n c
     | (_, SessionDropped n) \<Rightarrow> c\<lparr>handles := (handles c)(n := None)\<rparr>
     | (_, ReceiverGone) \<Rightarrow> c\<lparr>hy2_app_gone := True\<rparr>
     | _ \<Rightarrow> c)"


lemma session_calls_simps [simp]:
  "hy2_phase (session_recv pick now closed n c) = hy2_phase c" "hy2_phase (session_send q now p n c) = hy2_phase c"
  "hy2_accepted (session_recv pick now closed n c) = hy2_accepted c" "hy2_accepted (session_send q now p n c) = hy2_accepted c"
  "hy2_responses (session_recv pick now closed n c) = hy2_responses c" "hy2_responses (session_send q now p n c) = hy2_responses c"
  "udp_sessions (session_recv pick now closed n c) = udp_sessions c" "udp_sessions (session_send q now p n c) = udp_sessions c"
  "next_handle (session_recv pick now closed n c) = next_handle c" "next_handle (session_send q now p n c) = next_handle c"
  by (simp_all add: session_recv_def session_send_def split: option.splits prod.splits)

lemma spawn_masquerade_request_simps [simp]:
  "hy2_phase (spawn_masquerade_request cfg request stream c) = hy2_phase c"
  "hy2_accepted (spawn_masquerade_request cfg request stream c) = hy2_accepted c"
  "hy2_responses (spawn_masquerade_request cfg request stream c) = hy2_responses c"
  by (simp_all add: spawn_masquerade_request_def)


section \<open>Who gets in\<close>

definition logs_in :: "('c, 'r, 'p, 'm) hy2_config \<Rightarrow> hy2_event \<Rightarrow> string \<Rightarrow> bool" where
  "logs_in cfg ev u \<longleftrightarrow> (\<exists>now request stream. ev = Request now request stream \<and>
     authenticated (cfg_to_str cfg) (cfg_users cfg) request \<and>
     request_user_of (cfg_to_str cfg) (cfg_users cfg) request = Some u)"

definition hy2_gate :: "string set \<Rightarrow> 'c hy2_connection \<Rightarrow> bool" where
  "hy2_gate U c \<longleftrightarrow>
     (\<forall>u k. hy2_phase c = Serving u k \<longrightarrow> u \<in> U) \<and> (\<forall>a \<in> set (hy2_accepted c). hy2_accepted_user a \<in> U) \<and>
     (hy2_accepted c \<noteq> [] \<or> hy2_responses c \<noteq> [] \<longrightarrow> U \<noteq> {})"

lemma first_request_cases:
  obtains (masquerade) "first_request cfg now request stream c = to_masquerade cfg request stream c"
  | (failed) h e where "first_request cfg now request stream c = c\<lparr>hy2_heap := h, hy2_phase := Over (Inl e)\<rparr>" "\<forall>why. e \<noteq> Panic why"
  | (served) h u k response where "authenticated (cfg_to_str cfg) (cfg_users cfg) request"
      "request_user_of (cfg_to_str cfg) (cfg_users cfg) request = Some u"
      "first_request cfg now request stream c =
         c\<lparr>hy2_heap := h, hy2_responses := hy2_responses c @ [response], hy2_phase := Serving u k,
           hy2_metrics := server_brutal_debug (cfg_bandwidth cfg)\<rparr>"
proof -
  let ?rx = "parse_congestion_receive (cfg_to_str cfg) (header_get HEADER_CC_RX (req_headers request))"
  let ?b = "cfg_bandwidth cfg" and ?auth = "authenticated (cfg_to_str cfg) (cfg_users cfg) request"
  let ?ignored = "server_receive_bps ?b > 0 \<and> ignore_client_bandwidth ?b \<and> \<not> (case ?rx of Rate r \<Rightarrow> r > 0 | Auto \<Rightarrow> False)"
  let ?conf = "case server_send_rate ?b ?rx of None \<Rightarrow> (True, hy2_heap c)
    | Some r \<Rightarrow> configure_connection_brutal_with_options (cfg_ops cfg) now (cfg_connection cfg) r
        (server_disable_loss_compensation ?b) (hy2_heap c)"
  let ?response = "auth_ok_response (cfg_rng cfg) (advertised_receive ?b (server_send_rate ?b ?rx))"
  obtain ok h where conf: "?conf = (ok, h)" by fastforce
  show thesis
  proof (cases "?auth \<and> \<not> ?ignored")
    case False
    then have "first_request cfg now request stream c = to_masquerade cfg request stream c"
      by (auto simp: first_request_def Let_def)
    then show thesis by (rule masquerade)
  next
    case True
    then obtain u where u: "request_user_of (cfg_to_str cfg) (cfg_users cfg) request = Some u"
      by (auto simp: authenticated_def)
    show thesis
    proof (cases "if ok then connection_congestion_kind (cfg_connection cfg) h else None")
      case None
      then have "first_request cfg now request stream c = c\<lparr>hy2_heap := h, hy2_phase := Over (Inl CongestionControl)\<rparr>"
        using True unfolding first_request_def Let_def conf by (auto split: if_splits)
      then show thesis by (rule failed) simp
    next
      case (Some k)
      show thesis
      proof (cases "cfg_respond cfg ?response")
        case None
        then have "first_request cfg now request stream c = c\<lparr>hy2_heap := h, hy2_responses := hy2_responses c @ [?response],
            hy2_phase := Serving u k, hy2_metrics := server_brutal_debug ?b\<rparr>"
          using True Some u unfolding first_request_def Let_def conf by (auto split: if_splits)
        with True u show thesis by (blast intro: served)
      next
        case (Some m)
        then have "first_request cfg now request stream c = c\<lparr>hy2_heap := h, hy2_phase := Over (Inl (Http3 m))\<rparr>"
          using True \<open>_ = Some k\<close> unfolding first_request_def Let_def conf by (auto split: if_splits)
        then show thesis by (rule failed) simp
      qed
    qed
  qed
qed

lemma first_request_gate:
  assumes "hy2_gate U c" "\<And>u. logs_in cfg (Request now request stream) u \<Longrightarrow> u \<in> U"
  shows "hy2_gate U (first_request cfg now request stream c)"
proof (cases rule: first_request_cases [where cfg = cfg and now = now and request = request and stream = stream and c = c])
  case masquerade
  then show ?thesis using assms(1) by (simp add: hy2_gate_def to_masquerade_def spawn_masquerade_request_def)
next
  case (failed h e)
  then show ?thesis using assms(1) by (simp add: hy2_gate_def)
next
  case (served h u k response)
  then have "u \<in> U" using assms(2) by (auto simp: logs_in_def)
  then show ?thesis using assms(1) served(3) by (auto simp: hy2_gate_def)
qed

lemma serve_datagram_gate:
  assumes "hy2_gate U c" "u \<in> U"
  shows "hy2_gate U (serve_datagram now source u k d c)"
proof (cases "decode_message d")
  case (Inl e)
  then show ?thesis using assms by (auto simp: serve_datagram_def hy2_gate_def)
next
  case (Inr m)
  have "hy2_gate U (snd (case session_handle (session_id m) c of Some n \<Rightarrow> (Inr n, c) | None \<Rightarrow> open_session now source u k m c))"
    using assms by (auto simp: open_session_def hy2_gate_def Let_def split: option.splits)
  then show ?thesis
    using Inr by (auto simp: serve_datagram_def hy2_gate_def split: option.splits prod.splits sum.splits)
qed

lemma handle_stream_user: "handle_stream gone rng source u k r w = Inr (a, w') \<Longrightarrow> hy2_accepted_user a = u"
  by (auto simp: handle_stream_def result_iffs split: if_splits)

lemma hy2_step_gate:
  assumes "hy2_gate U c" "\<And>u. logs_in cfg ev u \<Longrightarrow> u \<in> U"
  shows "hy2_gate U (hy2_step cfg ev c)"
proof (cases "hy2_phase c")
  case AwaitRequest
  show ?thesis
  proof (cases ev)
    case (Request now request stream)
    then show ?thesis
      using AwaitRequest first_request_gate [OF assms(1), of cfg now request stream] assms(2) by simp
  qed (use AwaitRequest assms(1) in \<open>simp_all add: hy2_gate_def\<close>)
next
  case Masquerading
  then show ?thesis
    using assms(1) by (cases ev) (auto simp: hy2_gate_def)
next
  case (Serving u k)
  then have u: "u \<in> U" using assms(1) by (auto simp: hy2_gate_def)
  then show ?thesis
    using Serving assms(1) serve_datagram_gate [OF assms(1) u] handle_stream_user
    by (cases ev) (auto simp: hy2_gate_def split: sum.splits)
next
  case (Over r)
  then show ?thesis
    using assms(1) by (cases ev) (auto simp: hy2_gate_def)
qed

definition hy2_run :: "('c, 'r, 'p, 'm) hy2_config \<Rightarrow> hy2_event list \<Rightarrow> 'c hy2_connection \<Rightarrow> 'c hy2_connection" where
  "hy2_run cfg evs c = fold (hy2_step cfg) evs c"

lemma hy2_run_gate:
  "hy2_gate U c \<Longrightarrow> \<forall>ev \<in> set evs. \<forall>u. logs_in cfg ev u \<longrightarrow> u \<in> U \<Longrightarrow> hy2_gate U (hy2_run cfg evs c)"
proof (induction evs arbitrary: c)
  case (Cons ev evs)
  from Cons.prems hy2_step_gate [OF Cons.prems(1), of cfg ev] Cons.IH [of "hy2_step cfg ev c"] show ?case
    by (simp add: hy2_run_def del: hy2_step.simps)
qed (simp add: hy2_run_def)

text \<open>The masquerade is final.\<close>

definition masked :: "'c hy2_connection \<Rightarrow> bool" where
  "masked c \<longleftrightarrow> (hy2_phase c = Masquerading \<or> (\<exists>r. hy2_phase c = Over r)) \<and> hy2_accepted c = [] \<and> hy2_responses c = []"

lemma hy2_step_masked: "masked c \<Longrightarrow> masked (hy2_step cfg ev c)"
  by (cases ev; cases "hy2_phase c") (auto simp: masked_def)

lemma hy2_run_masked: "masked c \<Longrightarrow> masked (hy2_run cfg evs c)"
proof (induction evs arbitrary: c)
  case (Cons ev evs)
  from Cons.IH [OF hy2_step_masked [OF Cons.prems]] show ?case
    by (simp add: hy2_run_def del: hy2_step.simps)
qed (simp add: hy2_run_def)


section \<open>UDP sessions\<close>

definition packet_conn_ok :: "packet_connection \<Rightarrow> bool" where
  "packet_conn_ok pc \<longleftrightarrow> defragger_ok (fragments pc) \<and> length (incoming pc) \<le> 64"

definition sessions_ok :: "'c hy2_connection \<Rightarrow> bool" where
  "sessions_ok c \<longleftrightarrow>
     (\<forall>n pc. handles c n = Some pc \<longrightarrow> n < next_handle c \<and> packet_conn_ok pc) \<and>
     (\<forall>sid n. udp_sessions c sid = Some n \<longrightarrow> n < next_handle c \<and>
        (\<forall>pc. handles c n = Some pc \<longrightarrow> conn_session pc = sid)) \<and>
     (\<forall>why. hy2_phase c \<noteq> Over (Inl (Panic why)))"

lemma packet_conn_ok_new: "packet_conn_ok (packet_connection_new now sid)"
  by (simp add: packet_conn_ok_def packet_connection_new_def defragger_ok_def)

lemma packet_input_ok:
  assumes "packet_conn_ok pc" "packet_input now m pc = (res, pc')"
  shows "packet_conn_ok pc'" "conn_session pc' = conn_session pc" "res \<noteq> Inl (Panic why)"
proof -
  obtain r d where f: "feed now (fragments pc) m = (r, d)" by fastforce
  have "defragger_ok d" "r \<noteq> Inl (Panic why)"
    using feed_invariant [of "fragments pc" now m] assms(1) f by (auto simp: packet_conn_ok_def)
  with f assms show "packet_conn_ok pc'" "conn_session pc' = conn_session pc" "res \<noteq> Inl (Panic why)"
    by (auto simp: packet_input_def packet_conn_ok_def split: sum.splits option.splits)
qed

lemma open_session_ok:
  assumes "sessions_ok c"
  shows "sessions_ok (snd (open_session now source u k m c))"
  using assms packet_conn_ok_new
  by (auto simp: sessions_ok_def open_session_def Let_def packet_connection_new_def less_Suc_eq split: if_splits)

lemma session_update_ok:
  assumes "sessions_ok c" "handles c n = Some pc" "packet_conn_ok pc'" "conn_session pc' = conn_session pc"
  shows "sessions_ok (c\<lparr>handles := (handles c)(n \<mapsto> pc')\<rparr>)"
  using assms by (auto simp: sessions_ok_def)

lemma sessions_ok_phase: "sessions_ok c \<Longrightarrow> \<forall>why. ph \<noteq> Over (Inl (Panic why)) \<Longrightarrow> sessions_ok (c\<lparr>hy2_phase := ph\<rparr>)"
  by (simp add: sessions_ok_def)

lemma serve_datagram_ok:
  assumes "sessions_ok c"
  shows "sessions_ok (serve_datagram now source u k d c)"
proof (cases "decode_message d")
  case (Inl e)
  then show ?thesis
    using assms decode_message_no_panic [of d] by (auto simp: serve_datagram_def intro: sessions_ok_phase)
next
  case (Inr m)
  obtain r c1 where c1: "(case session_handle (session_id m) c of Some n \<Rightarrow> (Inr n, c) | None \<Rightarrow> open_session now source u k m c) = (r, c1)"
    by fastforce
  then have ok: "sessions_ok c1"
    using assms open_session_ok [OF assms, of now source u k m] by (auto split: option.splits)
  consider (closed) e where "r = Inl e" "\<forall>why. e \<noteq> Panic why" | (dropped) n where "r = Inr n" "handles c1 n = None"
    | (live) n pc where "r = Inr n" "handles c1 n = Some pc"
    using c1 by (cases r; cases "handles c1 (projr r)") (auto simp: open_session_def Let_def split: option.splits if_splits)
  then show ?thesis
  proof cases
    case closed
    then show ?thesis using Inr c1 ok by (auto simp: serve_datagram_def intro: sessions_ok_phase)
  next
    case dropped
    then show ?thesis using Inr c1 ok by (simp add: serve_datagram_def)
  next
    case (live n pc)
    note Some = live(2)
    obtain res pc' where p: "packet_input now m pc = (res, pc')" by fastforce
    have pc: "packet_conn_ok pc" using ok Some by (auto simp: sessions_ok_def)
    note good = packet_input_ok [OF pc p]
    have "sessions_ok (c1\<lparr>handles := (handles c1)(n \<mapsto> pc')\<rparr>)"
      by (rule session_update_ok [OF ok Some good(1,2)])
    then show ?thesis
      using Inr c1 live p good(3) sessions_ok_phase [of "c1\<lparr>handles := (handles c1)(n \<mapsto> pc')\<rparr>"]
      by (auto simp: serve_datagram_def split: sum.splits)
  qed
qed

lemma first_request_ok:
  assumes "sessions_ok c"
  shows "sessions_ok (first_request cfg now request stream c)"
  by (cases rule: first_request_cases [where cfg = cfg and now = now and request = request and stream = stream and c = c])
    (use assms in \<open>simp_all add: sessions_ok_def to_masquerade_def spawn_masquerade_request_def\<close>)

lemma sessions_ok_fields:
  "sessions_ok (c\<lparr>hy2_masked := rs\<rparr>) = sessions_ok c"
  "sessions_ok (c\<lparr>hy2_accepted := as\<rparr>) = sessions_ok c"
  "sessions_ok (c\<lparr>hy2_app_gone := g\<rparr>) = sessions_ok c"
  "sessions_ok (c\<lparr>hy2_sent := ds\<rparr>) = sessions_ok c"
  "sessions_ok (c\<lparr>hy2_received := ps\<rparr>) = sessions_ok c"
  "sessions_ok c \<Longrightarrow> sessions_ok (c\<lparr>handles := (handles c)(n := None)\<rparr>)"
  by (auto simp: sessions_ok_def)

lemma packet_recv_ok:
  assumes "packet_conn_ok pc"
  shows "packet_conn_ok (snd (packet_recv pick now closed pc))" "conn_session (snd (packet_recv pick now closed pc)) = conn_session pc"
  using assms by (auto simp: packet_recv_def packet_conn_ok_def split: list.splits option.splits)

lemma packet_send_ok:
  assumes "packet_conn_ok pc"
  shows "packet_conn_ok (snd (snd (packet_send q now p sent pc)))" "conn_session (snd (snd (packet_send q now p sent pc))) = conn_session pc"
  using assms by (auto simp: packet_send_cases packet_conn_ok_def split: prod.splits sum.splits)

lemma session_calls_ok:
  assumes "sessions_ok c"
  shows "sessions_ok (session_recv pick now closed n c)" "sessions_ok (session_send q now p n c)"
proof -
  have ok: "packet_conn_ok pc" if "handles c n = Some pc" for pc
    using assms that by (simp add: sessions_ok_def)
  show "sessions_ok (session_recv pick now closed n c)"
  proof (cases "handles c n")
    case (Some pc)
    with session_update_ok [OF assms Some packet_recv_ok [OF ok [OF Some], of pick now closed]] show ?thesis
      by (simp add: session_recv_def case_prod_beta sessions_ok_fields)
  qed (simp add: session_recv_def assms)
  show "sessions_ok (session_send q now p n c)"
  proof (cases "handles c n")
    case (Some pc)
    with session_update_ok [OF assms Some packet_send_ok [OF ok [OF Some], of q now p "hy2_sent c"]] show ?thesis
      by (simp add: session_send_def case_prod_beta sessions_ok_fields)
  qed (simp add: session_send_def assms)
qed

lemma hy2_step_ok:
  assumes "sessions_ok c"
  shows "sessions_ok (hy2_step cfg ev c)"
  by (cases ev; cases "hy2_phase c")
    (use assms first_request_ok [OF assms] serve_datagram_ok [OF assms] session_calls_ok [OF assms] sessions_ok_phase [OF assms] in
      \<open>simp_all add: sessions_ok_fields spawn_masquerade_request_def split: sum.splits\<close>)

definition hy2_start :: "'c hy2_connection \<Rightarrow> bool" where
  "hy2_start c \<longleftrightarrow> (\<exists>h. c = hy2_init h)"

definition hy2_any_step :: "('c, 'r, 'p, 'm) hy2_config \<Rightarrow> 'c hy2_connection \<Rightarrow> 'c hy2_connection \<Rightarrow> bool" where
  "hy2_any_step cfg c c' \<longleftrightarrow> (\<exists>ev. c' = hy2_step cfg ev c)"

interpretation hy2_system: invariant_system hy2_start "hy2_any_step cfg" sessions_ok for cfg
proof
  show "sessions_ok c" if "hy2_start c" for c
    using that by (auto simp: hy2_start_def hy2_init_def sessions_ok_def)
  show "sessions_ok c'" if "sessions_ok c" "hy2_any_step cfg c c'" for c c'
    using that hy2_step_ok unfolding hy2_any_step_def by metis
qed


section \<open>Properties\<close>

text \<open>A concrete server configuration: one user, plain controllers.\<close>

definition demo_config :: "(congestion_kind \<times> u16, nat, nat, nat) hy2_config" where
  "demo_config = \<lparr>cfg_to_str = Some, cfg_users = [''secret'' \<mapsto> ''bob''],
     cfg_bandwidth = \<lparr>server_send_bps = 0, server_receive_bps = 0, ignore_client_bandwidth = False, server_disable_loss_compensation = False, server_brutal_debug = False\<rparr>,
     cfg_ops = plain_ops, cfg_connection = \<lparr>cc_controller = Switchable 0, cc_rtt = 1\<rparr>,
     cfg_source = \<lparr>ip = V4 0, sport = 1\<rparr>, cfg_masquerade = None, cfg_rng = constant_rng, cfg_respond = (\<lambda>_. None)\<rparr>"

definition demo_request :: "string \<Rightarrow> http_request" where
  "demo_request password = \<lparr>req_method = ''POST'', req_authority = Some ''hysteria'', req_path = ''/auth'',
     req_headers = [(''hysteria-auth'', password)]\<rparr>"

text \<open>
  (C3) Nobody gets in without a password: whatever requests, streams and datagrams arrive, every accepted
  stream and UDP session carries the name of a user whose password was in an authentication request
  of this connection; while there was none, nothing is accepted and no request is answered with the
  status that tells a client it is in.
\<close>

theorem hysteria2_gate:
  assumes "c = hy2_run cfg evs (hy2_init h)"
  shows "(\<forall>a \<in> set (hy2_accepted c). \<exists>ev \<in> set evs. logs_in cfg ev (hy2_accepted_user a)) \<and>
    ((\<forall>ev \<in> set evs. \<forall>u. \<not> logs_in cfg ev u) \<longrightarrow> hy2_accepted c = [] \<and> hy2_responses c = [])"
proof -
  let ?U = "{u. \<exists>ev \<in> set evs. logs_in cfg ev u}"
  have "hy2_gate ?U (hy2_init h)"
    by (simp add: hy2_gate_def hy2_init_def)
  then have "hy2_gate ?U c"
    unfolding assms by (rule hy2_run_gate) auto
  then show ?thesis
    by (auto simp: hy2_gate_def)
qed

theorem hysteria2_gate_witness:
  "hy2_accepted (hy2_run demo_config [Request 0 (demo_request ''wrong'') (open_h3 []), StreamAccepted \<lparr>ip = V4 0, sport = 1\<rparr> \<lparr>pending = [0x44, 1], ending = Finished\<rparr> fresh_writer]
     (hy2_init Map.empty)) = []"
proof -
  have "\<not> logs_in demo_config ev u" if "ev \<in> {Request 0 (demo_request ''wrong'') (open_h3 []), StreamAccepted \<lparr>ip = V4 0, sport = 1\<rparr> \<lparr>pending = [0x44, 1], ending = Finished\<rparr> fresh_writer}" for ev u
    using that by (auto simp: logs_in_def authenticated_def request_user_of_def demo_config_def demo_request_def header_get_def HEADER_AUTH_def)
  with hysteria2_gate [OF refl, where cfg = demo_config and h = Map.empty and
      evs = "[Request 0 (demo_request ''wrong'') (open_h3 []), StreamAccepted \<lparr>ip = V4 0, sport = 1\<rparr> \<lparr>pending = [0x44, 1], ending = Finished\<rparr> fresh_writer]"]
  show ?thesis by auto
qed

text \<open>
  (C34) The masquerade is final: when the first request of a connection is not a valid authentication,
  the connection only ever masquerades, even if a later request carries a valid password.
\<close>

theorem masquerade_final:
  assumes "\<not> authenticated (cfg_to_str cfg) (cfg_users cfg) request"
  shows "hy2_accepted (hy2_run cfg (Request now request stream # evs) (hy2_init h)) = [] \<and>
    hy2_responses (hy2_run cfg (Request now request stream # evs) (hy2_init h)) = [] \<and>
    (\<forall>u k. hy2_phase (hy2_run cfg (Request now request stream # evs) (hy2_init h)) \<noteq> Serving u k)"
proof -
  have "masked (hy2_step cfg (Request now request stream) (hy2_init h))"
    using assms by (simp add: hy2_init_def first_request_def to_masquerade_def spawn_masquerade_request_def masked_def Let_def)
  then have "masked (hy2_run cfg evs (hy2_step cfg (Request now request stream) (hy2_init h)))"
    by (rule hy2_run_masked)
  then show ?thesis
    by (auto simp: hy2_run_def masked_def simp del: hy2_step.simps)
qed

theorem masquerade_final_witness:
  "hy2_accepted (hy2_run demo_config [Request 0 (demo_request ''wrong'') (open_h3 []), Request 1 (demo_request ''secret'') (open_h3 [])] (hy2_init Map.empty)) = []"
  by (rule masquerade_final [THEN conjunct1])
    (simp add: authenticated_def request_user_of_def demo_config_def demo_request_def header_get_def HEADER_AUTH_def)

text \<open>
  (C11) In every reachable state of a connection the UDP session table is sound: a live session found under
  a session id belongs to that id, its fragment table is well formed, its queue holds at most 64
  packets, and the connection has not ended in a panic.
\<close>

theorem hysteria2_sessions:
  assumes "hy2_start c0" "(hy2_any_step cfg)\<^sup>*\<^sup>* c0 c" "session_handle sid c = Some n"
  shows "\<exists>pc. handles c n = Some pc \<and> conn_session pc = sid \<and> defragger_ok (fragments pc) \<and> length (incoming pc) \<le> 64 \<and>
    (\<forall>why. hy2_phase c \<noteq> Over (Inl (Panic why)))"
proof -
  have "sessions_ok c"
    by (rule hy2_system.reachable_inv [OF assms(1,2)])
  then show ?thesis
    using assms(3) by (auto simp: sessions_ok_def session_handle_def packet_conn_ok_def bind_eq_Some_conv split: if_splits)
qed

definition demo_serving :: "(congestion_kind \<times> u16) hy2_connection" where
  "demo_serving = hy2_step demo_config (Request 0 (demo_request ''secret'') (open_h3 []))
     (hy2_init [0 \<mapsto> \<lparr>controller = (Bbr, 1200), kind = Bbr, current_mtu = 1200\<rparr>])"

lemma demo_serving_phase: "hy2_phase demo_serving = Serving ''bob'' Bbr" "udp_sessions demo_serving = Map.empty"
  "handles demo_serving = Map.empty" "next_handle demo_serving = 0" "hy2_accepted demo_serving = []" "\<not> hy2_app_gone demo_serving"
  by (simp_all add: demo_serving_def demo_config_def demo_request_def hy2_init_def first_request_def authenticated_def
      request_user_of_def header_get_def HEADER_AUTH_def HEADER_CC_RX_def URL_AUTHORITY_def URL_PATH_def
      parse_congestion_receive_def server_send_rate_def connection_congestion_kind_def congestion_state_def clone_box_def Let_def)

lemma demo_message:
  "decode_message (encode_message 1 pid 0 1 ''a:1'' (qv_encode 3) [9]) = Inr \<lparr>session_id = 1, packet_id = pid,
      fragment_id = 0, fragment_total = 1, msg_destination = \<lparr>host = ''a'', port = 1\<rparr>, msg_data = [9]\<rparr>"
proof -
  have addr: "address_to_string \<lparr>host = ''a'', port = 1\<rparr> = ''a:1''" by code_simp
  have "address_from_str (address_to_string \<lparr>host = ''a'', port = 1\<rparr>) = Inr \<lparr>host = ''a'', port = 1\<rparr>"
    by (rule address_from_to_string) (simp add: normal_host_def bracketed_def)
  moreover have "utf8_string ''a:1''"
    by (rule ascii_utf8_string) (simp add: is_ascii_def byte_of_char_def)
  ultimately show ?thesis
    using decode_encode_message [of "''a:1''" 1 pid 0 1 "[9]"] addr
    by (simp add: MAX_ADDRESS_LENGTH_def numeral_3_eq_3)
qed

lemma demo_session:
  "session_handle 1 (serve_datagram 5 (cfg_source demo_config) ''bob'' Bbr (encode_message 1 2 0 1 ''a:1'' (qv_encode 3) [9]) demo_serving) = Some 0"
  "hy2_accepted (serve_datagram 5 (cfg_source demo_config) ''bob'' Bbr (encode_message 1 2 0 1 ''a:1'' (qv_encode 3) [9]) demo_serving) =
    [Hy2Packet \<lparr>host = ''a'', port = 1\<rparr> ''bob'' (cfg_source demo_config) Bbr 0]"
  by (simp_all add: demo_message serve_datagram_def session_handle_def demo_serving_phase open_session_def packet_input_def feed_def
      packet_connection_new_def Let_def)

theorem hysteria2_sessions_witness:
  "\<exists>pc. handles (serve_datagram 5 (cfg_source demo_config) ''bob'' Bbr (encode_message 1 2 0 1 ''a:1'' (qv_encode 3) [9]) demo_serving) 0 = Some pc \<and>
     conn_session pc = 1"
proof -
  let ?h = "[0 \<mapsto> \<lparr>controller = (Bbr, 1200), kind = Bbr, current_mtu = 1200\<rparr>] :: (congestion_kind \<times> u16) cc_heap"
  let ?d = "encode_message 1 2 0 1 ''a:1'' (qv_encode 3) [9]"
  have "hy2_any_step demo_config (hy2_init ?h) demo_serving"
    unfolding hy2_any_step_def demo_serving_def by blast
  moreover have "hy2_any_step demo_config demo_serving (serve_datagram 5 (cfg_source demo_config) ''bob'' Bbr ?d demo_serving)"
    unfolding hy2_any_step_def by (intro exI [of _ "DatagramRead 5 (cfg_source demo_config) ?d"]) (simp add: demo_serving_phase)
  ultimately have run: "(hy2_any_step demo_config)\<^sup>*\<^sup>* (hy2_init ?h) (serve_datagram 5 (cfg_source demo_config) ''bob'' Bbr ?d demo_serving)"
    by (meson converse_rtranclp_into_rtranclp rtranclp.rtrancl_refl)
  have "hy2_start (hy2_init ?h)" by (auto simp: hy2_start_def)
  from hysteria2_sessions [OF this run demo_session(1)] show ?thesis by blast
qed

end
