(* ===== verification/Hy2_Client.thy ===== *)
theory Hy2_Client
  imports Hy2_Server
begin

text \<open>
  The Hysteria2 client (\<open>src/src/hysteria2/client.rs\<close>): the cached connection, the authentication request
  and the negotiation of its answer, and TCP connects; then what client and server achieve together.
  The HTTP/3 exchange is a parameter: an error of one of its steps, or the response.
\<close>


section \<open>Authentication\<close>

record hy2_client_connection =
  hy2c_id :: nat
  hy2c_congestion :: congestion_kind
  hy2c_metrics :: bool

text \<open>The request the client sends; \<open>header_error\<close> tells why HTTP refuses a header value, if it does.\<close>

definition auth_request :: "rng \<Rightarrow> string \<Rightarrow> client_bandwidth \<Rightarrow> http_request" where
  "auth_request rng password bandwidth =
     \<lparr>req_method = ''POST'', req_authority = Some URL_AUTHORITY, req_path = URL_PATH,
      req_headers = [(HEADER_AUTH, password), (HEADER_CC_RX, show_nat (unat (client_receive_bps bandwidth))),
                     (HEADER_PADDING, padding rng 256 2048)]\<rparr>"

definition build_request :: "(string \<Rightarrow> string option) \<Rightarrow> http_request \<Rightarrow> http_request result" where
  "build_request header_error request = (case List.find (\<lambda>(_, v). header_error v \<noteq> None) (req_headers request) of
       None \<Rightarrow> Inr request
     | Some (_, v) \<Rightarrow> Inl (Protocol (the (header_error v))))"

text \<open>One connection attempt, as QUIC and HTTP/3 report it.\<close>

record 'c hy2_dial =
  hd_connect :: "string option"
  hd_handshake :: "connection_error option"
  hd_connection :: "'c cc_connection"
  hd_h3 :: "string option"
  hd_exchange :: "http_request \<Rightarrow> string + auth_response"
  hd_now :: nat

text \<open>
  \<open>authenticate\<close>, from the response on; the heap is that of the congestion controllers. The second
  component tells the reason with which the connection was closed, if it was.
\<close>

definition negotiate ::
  "('c, 'r, 'p, 'm) controller_ops \<Rightarrow> (string \<Rightarrow> string option) \<Rightarrow> nat \<Rightarrow> 'c cc_connection \<Rightarrow> nat \<Rightarrow> client_bandwidth \<Rightarrow>
   auth_response \<Rightarrow> 'c cc_heap \<Rightarrow> hy2_client_connection result \<times> string option \<times> 'c cc_heap" where
  "negotiate ops to_str now conn n bandwidth response h =
     (if auth_status response \<noteq> STATUS_AUTH_OK
      then (Inl (AuthenticationFailed (auth_status response)), Some ''authentication failed'', h)
      else
        let remote_receive = parse_congestion_receive to_str (header_get HEADER_CC_RX (auth_headers response));
            send_rate = client_send_rate (client_send_bps bandwidth) remote_receive;
            (ok, h) = (case send_rate of
                None \<Rightarrow> (True, h)
              | Some r \<Rightarrow> configure_connection_brutal_with_options ops now conn r
                           (client_disable_loss_compensation bandwidth) h)
        in if \<not> ok then (Inl CongestionControl, Some ''congestion control failed'', h)
           else case connection_congestion_kind conn h of
             None \<Rightarrow> (Inl CongestionControl, None, h)
           | Some k \<Rightarrow> (Inr \<lparr>hy2c_id = n, hy2c_congestion = k, hy2c_metrics = client_brutal_debug bandwidth\<rparr>, None, h))"

definition authenticate ::
  "('c, 'r, 'p, 'm) controller_ops \<Rightarrow> (string \<Rightarrow> string option) \<Rightarrow> (string \<Rightarrow> string option) \<Rightarrow> rng \<Rightarrow> nat \<Rightarrow> string \<Rightarrow>
   client_bandwidth \<Rightarrow> 'c hy2_dial \<Rightarrow> 'c cc_heap \<Rightarrow> hy2_client_connection result \<times> string option \<times> 'c cc_heap" where
  "authenticate ops to_str header_error rng n password bandwidth d h = (case hd_h3 d of
       Some e \<Rightarrow> (Inl (Http3 e), None, h)
     | None \<Rightarrow>
         (case build_request header_error (auth_request rng password bandwidth) of
            Inl e \<Rightarrow> (Inl e, None, h)
          | Inr request \<Rightarrow>
              (case hd_exchange d request of
                 Inl e \<Rightarrow> (Inl (Http3 e), None, h)
               | Inr response \<Rightarrow> negotiate ops to_str (hd_now d) (hd_connection d) n bandwidth response h)))"


section \<open>The cached connection and requests\<close>

text \<open>
  Connections are numbered by the dial that made them. \<open>hy2c_closed\<close> lists the \<open>close\<close> calls on them with their
  reasons, \<open>hy2c_drivers\<close> the HTTP/3 driver tasks that run.
\<close>

record hy2_client =
  hy2c_endpoint :: endpoint
  hy2c_options :: hy2_client_options
  hy2c_bandwidth :: client_bandwidth
  hy2c_cached :: "hy2_client_connection option"
  hy2c_dials :: nat
  hy2c_closed :: "(nat \<times> string) list"
  hy2c_drivers :: "nat list"

definition hy2_client_new_with_bandwidth_and_transport ::
  "tls_library \<Rightarrow> os_calls \<Rightarrow> hy2_client_options \<Rightarrow> client_bandwidth \<Rightarrow> quic_transport_options \<Rightarrow>
   hy2_client result \<times> socket_trace" where
  "hy2_client_new_with_bandwidth_and_transport lib os options bandwidth transport_options =
     (case client_endpoint os (hco_server options) (hy2_client_config lib options transport_options) of
        (Inl e, trace) \<Rightarrow> (Inl e, trace)
      | (Inr ep, trace) \<Rightarrow>
          (Inr \<lparr>hy2c_endpoint = ep, hy2c_options = options, hy2c_bandwidth = bandwidth, hy2c_cached = None, hy2c_dials = 0, hy2c_closed = [], hy2c_drivers = []\<rparr>, trace))"

definition client_bandwidth_default :: client_bandwidth where
  "client_bandwidth_default = \<lparr>client_send_bps = 0, client_receive_bps = 0, client_disable_loss_compensation = False, client_brutal_debug = False\<rparr>"

definition hy2_client_new_with_bandwidth where
  "hy2_client_new_with_bandwidth lib os options bandwidth =
     hy2_client_new_with_bandwidth_and_transport lib os options bandwidth quic_transport_options_default"

definition hy2_client_new where
  "hy2_client_new lib os options = hy2_client_new_with_bandwidth lib os options client_bandwidth_default"

text \<open>
  Dropping a \<open>ClientConnection\<close> closes its QUIC connection and stops its driver; that happens when another one
  takes its place in the cache, and when the client goes away. A request in flight on the old
  connection holds it a little longer; here it is dropped at once.
\<close>

definition client_connection_drop :: "hy2_client_connection \<Rightarrow> hy2_client \<Rightarrow> hy2_client" where
  "client_connection_drop k c =
     c\<lparr>hy2c_closed := hy2c_closed c @ [(hy2c_id k, ''client closed'')], hy2c_drivers := removeAll (hy2c_id k) (hy2c_drivers c)\<rparr>"

definition hy2_client_drop :: "hy2_client \<Rightarrow> hy2_client" where
  "hy2_client_drop c = (case hy2c_cached c of None \<Rightarrow> c | Some k \<Rightarrow> (client_connection_drop k c)\<lparr>hy2c_cached := None\<rparr>)"

text \<open>\<open>connection\<close>: the live cached connection, or a new one, dialled and authenticated.\<close>

definition hy2_dial_server ::
  "('c, 'r, 'p, 'm) controller_ops \<Rightarrow> (string \<Rightarrow> string option) \<Rightarrow> (string \<Rightarrow> string option) \<Rightarrow> rng \<Rightarrow> nat \<Rightarrow> hy2_client \<Rightarrow>
   'c hy2_dial \<Rightarrow> 'c cc_heap \<Rightarrow> hy2_client_connection result \<times> string option \<times> 'c cc_heap" where
  "hy2_dial_server ops to_str header_error rng n c d h = (case hd_connect d of
       Some e \<Rightarrow> (Inl (Connect e), None, h)
     | None \<Rightarrow>
         (case hd_handshake d of
            Some e \<Rightarrow> (Inl (Connection e), None, h)
          | None \<Rightarrow> authenticate ops to_str header_error rng n (hco_password (hy2c_options c)) (hy2c_bandwidth c) d h))"

definition hy2_connection_of ::
  "('c, 'r, 'p, 'm) controller_ops \<Rightarrow> (string \<Rightarrow> string option) \<Rightarrow> (string \<Rightarrow> string option) \<Rightarrow> rng \<Rightarrow> (nat \<Rightarrow> bool) \<Rightarrow>
   (nat \<Rightarrow> 'c hy2_dial) \<Rightarrow> hy2_client \<Rightarrow> 'c cc_heap \<Rightarrow> hy2_client_connection result \<times> hy2_client \<times> 'c cc_heap" where
  "hy2_connection_of ops to_str header_error rng alive dials c h =
     (case (case hy2c_cached c of Some k \<Rightarrow> if alive (hy2c_id k) then Some k else None | None \<Rightarrow> None) of
        Some k \<Rightarrow> (Inr k, c, h)
      | None \<Rightarrow>
          (let n = hy2c_dials c; c = c\<lparr>hy2c_dials := n + 1\<rparr>
           in case hy2_dial_server ops to_str header_error rng n c (dials n) h of
                (Inl e, reason, h) \<Rightarrow>
                  (Inl e, c\<lparr>hy2c_closed := hy2c_closed c @ (case reason of None \<Rightarrow> [] | Some r \<Rightarrow> [(n, r)])\<rparr>, h)
              | (Inr k, _, h) \<Rightarrow>
                  (let c = c\<lparr>hy2c_drivers := hy2c_drivers c @ [n]\<rparr>;
                       c = (case hy2c_cached c of None \<Rightarrow> c | Some old \<Rightarrow> client_connection_drop old c)
                   in (Inr k, c\<lparr>hy2c_cached := Some k\<rparr>, h))))"

definition hy2_client_local_addr :: "os_calls \<Rightarrow> hy2_client \<Rightarrow> socket_addr result" where
  "hy2_client_local_addr os c = endpoint_local_addr os (hy2c_endpoint c)"

definition hy2_client_close :: "hy2_client \<Rightarrow> hy2_client" where
  "hy2_client_close c = c\<lparr>hy2c_endpoint := endpoint_close (hy2c_endpoint c)\<rparr>"

definition hy2_congestion_kind :: "hy2_client \<Rightarrow> congestion_kind option" where
  "hy2_congestion_kind c = map_option hy2c_congestion (hy2c_cached c)"

text \<open>
  \<open>connect\<close>: on the connection a new stream is opened, the request is written, then the answer is read.
  \<open>answer\<close> is the receiving half, given what was written.
\<close>

definition hy2_connect :: "rng \<Rightarrow> address \<Rightarrow> writer \<Rightarrow> (writer \<Rightarrow> reader) \<Rightarrow> (writer \<times> reader) result" where
  "hy2_connect rng dest w answer =
     bindR (write_tcp_request rng dest w) (\<lambda>w.
     bindR (read_tcp_response (answer w)) (\<lambda>r. Inr (w, r)))"

definition hy2_client_connect ::
  "('c, 'r, 'p, 'm) controller_ops \<Rightarrow> (string \<Rightarrow> string option) \<Rightarrow> (string \<Rightarrow> string option) \<Rightarrow> rng \<Rightarrow> (nat \<Rightarrow> bool) \<Rightarrow>
   (nat \<Rightarrow> 'c hy2_dial) \<Rightarrow> connection_error + writer \<Rightarrow> (writer \<Rightarrow> reader) \<Rightarrow> address \<Rightarrow> hy2_client \<Rightarrow> 'c cc_heap \<Rightarrow>
   (writer \<times> reader) result \<times> hy2_client \<times> 'c cc_heap" where
  "hy2_client_connect ops to_str header_error rng alive dials open_bi answer dest c h =
     (case hy2_connection_of ops to_str header_error rng alive dials c h of
        (Inl e, c, h) \<Rightarrow> (Inl e, c, h)
      | (Inr k, c, h) \<Rightarrow> (bindR (map_errR Connection open_bi) (\<lambda>w. hy2_connect rng dest w answer), c, h))"


section \<open>Client and server together\<close>

lemma server_answers:
  assumes "rng_ok rng" "rng_ok rng'" "normal_host (host a)" "utf8_string (host a)"
    "length (address_to_string a) \<le> MAX_ADDRESS_LENGTH"
  shows "write_tcp_request rng a fresh_writer =
      Inr (emit (tcp_request_frame (address_to_string a) (padding rng 64 512)) fresh_writer)"
    "handle_stream False rng' source u k \<lparr>pending = tcp_request_frame (address_to_string a) (padding rng 64 512) @ early, ending = e\<rparr> fresh_writer =
      Inr (Hy2Stream a u source k early, emit (tcp_response_frame 0 [] (padding rng' 128 1024)) fresh_writer)"
proof -
  have ne: "address_to_string a \<noteq> []"
    by (simp add: address_to_string_def)
  show "write_tcp_request rng a fresh_writer =
      Inr (emit (tcp_request_frame (address_to_string a) (padding rng 64 512)) fresh_writer)"
    by (simp add: write_tcp_request_frame [OF assms(1) ne assms(5)])
  have "length (padding rng 64 512) \<le> MAX_PADDING_LENGTH"
    using padding_bounds [OF assms(1), of 64 512] by (simp add: MAX_PADDING_LENGTH_def)
  then show "handle_stream False rng' source u k \<lparr>pending = tcp_request_frame (address_to_string a) (padding rng 64 512) @ early, ending = e\<rparr> fresh_writer =
      Inr (Hy2Stream a u source k early, emit (tcp_response_frame 0 [] (padding rng' 128 1024)) fresh_writer)"
    using read_tcp_request_frame [OF _ assms(5) _ utf8_address_to_string [OF assms(4)]] ne
      address_from_to_string [OF assms(3)]
    by (simp add: handle_stream_def write_tcp_response_frame [OF assms(2)])
qed


section \<open>Properties\<close>

lemma connect_outcome:
  assumes "rng_ok rng" "rng_ok rng'" "normal_host (host a)" "utf8_string (host a)"
    "length (address_to_string a) \<le> MAX_ADDRESS_LENGTH"
  shows "\<exists>request reply.
    handle_stream False rng' source u k \<lparr>pending = request @ early, ending = e\<rparr> fresh_writer = Inr (Hy2Stream a u source k early, emit reply fresh_writer) \<and>
    hy2_connect rng a fresh_writer (\<lambda>w. if written w = request then \<lparr>pending = reply @ later, ending = e'\<rparr> else \<lparr>pending = [], ending = Finished\<rparr>) =
      Inr (emit request fresh_writer, \<lparr>pending = later, ending = e'\<rparr>)"
proof -
  have "length (padding rng' 128 1024) \<le> MAX_PADDING_LENGTH"
    using padding_bounds [OF assms(2), of 128 1024] by (simp add: MAX_PADDING_LENGTH_def)
  then have "read_tcp_response \<lparr>pending = tcp_response_frame 0 [] (padding rng' 128 1024) @ later, ending = e'\<rparr> =
      Inr \<lparr>pending = later, ending = e'\<rparr>"
    by (simp add: read_tcp_response_frame)
  then show ?thesis
    using server_answers(1) [OF assms] server_answers(2) [OF assms, where u = u and k = k and source = source and early = early and e = e]
    by (intro exI [of _ "tcp_request_frame (address_to_string a) (padding rng 64 512)"]
        exI [of _ "tcp_response_frame 0 [] (padding rng' 128 1024)"]) (simp add: hy2_connect_def)
qed

text \<open>
  (C15) A TCP connect end to end: the server's handler reads the client's request to exactly the
  requested destination, hands the stream out with the bytes that follow the request, and its answer
  lets the client's connect succeed, leaving the client at the first byte the application sends.
\<close>

theorem hysteria2_connect:
  assumes "rng_ok rng" "rng_ok rng'" "normal_host (host a)" "utf8_string (host a)"
    "length (address_to_string a) \<le> MAX_ADDRESS_LENGTH"
  shows "\<exists>request reply.
    handle_stream False rng' source u k \<lparr>pending = request @ early, ending = e\<rparr> fresh_writer = Inr (Hy2Stream a u source k early, emit reply fresh_writer) \<and>
    hy2_connect rng a fresh_writer (\<lambda>w. if written w = request then \<lparr>pending = reply @ later, ending = e'\<rparr> else \<lparr>pending = [], ending = Finished\<rparr>) =
      Inr (emit request fresh_writer, \<lparr>pending = later, ending = e'\<rparr>)"
  by (rule connect_outcome [OF assms])

theorem hysteria2_connect_witness:
  "\<exists>request reply.
    handle_stream False constant_rng \<lparr>ip = V4 0, sport = 1\<rparr> ''bob'' Bbr \<lparr>pending = request @ [1], ending = Finished\<rparr> fresh_writer =
      Inr (Hy2Stream \<lparr>host = ''a.b'', port = 80\<rparr> ''bob'' \<lparr>ip = V4 0, sport = 1\<rparr> Bbr [1], emit reply fresh_writer) \<and>
    hy2_connect constant_rng \<lparr>host = ''a.b'', port = 80\<rparr> fresh_writer
      (\<lambda>w. if written w = request then \<lparr>pending = reply @ [2], ending = Finished\<rparr> else \<lparr>pending = [], ending = Finished\<rparr>) =
      Inr (emit request fresh_writer, \<lparr>pending = [2], ending = Finished\<rparr>)"
proof (rule hysteria2_connect [OF constant_rng_ok constant_rng_ok])
  show "normal_host (host \<lparr>host = ''a.b'', port = 80\<rparr>)"
    by (simp add: normal_host_def bracketed_def)
  show "utf8_string (host \<lparr>host = ''a.b'', port = 80\<rparr>)"
    by (rule ascii_utf8_string) (simp add: is_ascii_def byte_of_char_def)
  show "length (address_to_string \<lparr>host = ''a.b'', port = 80\<rparr>) \<le> MAX_ADDRESS_LENGTH"
    by code_simp
qed

lemma negotiate_switchable:
  fixes to_str bw
  assumes "cc_controller conn = Switchable l" "h l = Some st" "auth_status response = 233"
  defines "rate \<equiv> client_send_rate (client_send_bps bw) (parse_congestion_receive to_str (header_get HEADER_CC_RX (auth_headers response)))"
  shows "\<exists>h'. negotiate ops to_str now conn n bw response h =
      (Inr \<lparr>hy2c_id = n, hy2c_congestion = (case rate of Some r \<Rightarrow> Brutal r | None \<Rightarrow> kind st), hy2c_metrics = client_brutal_debug bw\<rparr>, None, h') \<and>
    connection_congestion_kind conn h' = Some (case rate of Some r \<Rightarrow> Brutal r | None \<Rightarrow> kind st)"
proof -
  have pos: "rate = Some r \<Longrightarrow> r \<noteq> 0" for r
    by (auto simp: rate_def client_send_rate_def Let_def split: congestion_receive.splits if_splits)
  show ?thesis
    using assms(3) pos configure_brutal_switchable [where h = h and ops = ops, OF assms(1,2)]
      connection_kind_switchable [where h = h, OF assms(1,2)]
    by (cases rate) (simp_all add: negotiate_def STATUS_AUTH_OK_def flip: rate_def)
qed

text \<open>
  Header values, as the HTTP library documents them: \<open>to_str\<close> gives a value back exactly when all its characters
  are visible ASCII (or tabs), and visible ASCII is accepted as a value. Alphanumeric padding is visible.
\<close>

definition visible_ascii :: "string \<Rightarrow> bool" where
  "visible_ascii s \<longleftrightarrow> list_all (\<lambda>c. 32 \<le> (of_char c :: nat) \<and> (of_char c :: nat) < 127 \<or> (of_char c :: nat) = 9) s"

definition visible_to_str :: "(string \<Rightarrow> string option) \<Rightarrow> bool" where
  "visible_to_str to_str \<longleftrightarrow> (\<forall>s. to_str s = (if visible_ascii s then Some s else None))"

definition alphanumeric_rng :: "rng \<Rightarrow> bool" where
  "alphanumeric_rng rng \<longleftrightarrow> (\<forall>i. visible_ascii [alphanumeric rng i])"

lemma visible_show_nat: "visible_ascii (show_nat n)"
proof -
  have "32 \<le> (of_char c :: nat) \<and> (of_char c :: nat) < 127" if "is_digit 10 c" for c
    using that by (auto simp: is_digit_def to_digit_def Let_def split: if_splits)
  then show ?thesis
    using show_radix_digits [of 10 n] by (auto simp: visible_ascii_def list_all_iff)
qed

lemma visible_receive_value: "visible_ascii (congestion_receive_value v)"
proof (cases v)
  case Auto
  have "visible_ascii ''auto''" by (simp add: visible_ascii_def)
  then show ?thesis by (simp add: Auto)
qed (simp add: visible_show_nat)

lemma visible_padding: "alphanumeric_rng rng \<Longrightarrow> visible_ascii (padding rng lo hi)"
  by (simp add: alphanumeric_rng_def visible_ascii_def padding_def list_all_iff)

definition reads_rates :: "(string \<Rightarrow> string option) \<Rightarrow> bool" where
  "reads_rates to_str \<longleftrightarrow> (\<forall>v. to_str (congestion_receive_value v) = Some (congestion_receive_value v))"

lemma visible_reads_rates: "visible_to_str to_str \<Longrightarrow> reads_rates to_str"
  by (simp add: visible_to_str_def reads_rates_def visible_receive_value)

lemma auth_request_user:
  assumes "reads_rates to_str"
  shows "request_user_of to_str users (auth_request rng password bw) = Option.bind (to_str password) users"
    "authenticated to_str users (auth_request rng password bw) \<longleftrightarrow> Option.bind (to_str password) users \<noteq> None"
    "parse_congestion_receive to_str (header_get HEADER_CC_RX (req_headers (auth_request rng password bw))) = Rate (client_receive_bps bw)"
proof -
  show user: "request_user_of to_str users (auth_request rng password bw) = Option.bind (to_str password) users"
    by (simp add: request_user_of_def auth_request_def header_get_def)
  then show "authenticated to_str users (auth_request rng password bw) \<longleftrightarrow> Option.bind (to_str password) users \<noteq> None"
    by (auto simp: authenticated_def) (simp_all add: auth_request_def)
  have "to_str (show_nat (unat (client_receive_bps bw))) = Some (congestion_receive_value (Rate (client_receive_bps bw)))"
    using assms [unfolded reads_rates_def, rule_format, of "Rate (client_receive_bps bw)"] by simp
  from parse_congestion_receive_value [where to_str = to_str, OF this]
  show "parse_congestion_receive to_str (header_get HEADER_CC_RX (req_headers (auth_request rng password bw))) = Rate (client_receive_bps bw)"
    by (simp add: auth_request_def header_get_def HEADER_AUTH_def HEADER_CC_RX_def)
qed

lemma build_auth_request:
  assumes "header_error (show_nat (unat (client_receive_bps bw))) = None" "header_error (padding rng 256 2048) = None"
  shows "build_request header_error (auth_request rng password bw) =
    (case header_error password of None \<Rightarrow> Inr (auth_request rng password bw) | Some e \<Rightarrow> Inl (Protocol e))"
  using assms by (auto simp: build_request_def auth_request_def split: option.splits)

lemma build_request_accepts: "\<forall>v. header_error v = None \<Longrightarrow> build_request header_error request = Inr request"
proof -
  assume "\<forall>v. header_error v = None"
  then have "List.find (\<lambda>(_, v). header_error v \<noteq> None) hs = None" for hs :: headers
    by (induction hs) auto
  then show ?thesis
    by (simp add: build_request_def)
qed

lemma header_auth_ok:
  "header_get HEADER_CC_RX (auth_headers (auth_ok_response rng rx)) = Some (congestion_receive_value rx)"
  "auth_status (auth_ok_response rng rx) = 233"
  by (simp_all add: auth_ok_response_def header_get_def HEADER_CC_RX_def HEADER_UDP_def STATUS_AUTH_OK_def)

lemma server_login:
  fixes now rng stream
  assumes "reads_rates (cfg_to_str cfg)" "cc_controller (cfg_connection cfg) = Switchable l" "h l = Some st"
    "\<forall>r. cfg_respond cfg r = None" "Option.bind (cfg_to_str cfg password) (cfg_users cfg) = Some u"
    "\<not> (server_receive_bps (cfg_bandwidth cfg) > 0 \<and> ignore_client_bandwidth (cfg_bandwidth cfg) \<and> client_receive_bps bw = 0)"
  defines "rate \<equiv> server_send_rate (cfg_bandwidth cfg) (Rate (client_receive_bps bw))"
  defines "c \<equiv> hy2_step cfg (Request now (auth_request rng password bw) stream) (hy2_init h)"
  shows "hy2_phase c = Serving u (case rate of Some r \<Rightarrow> Brutal r | None \<Rightarrow> kind st)"
    "hy2_responses c = [auth_ok_response (cfg_rng cfg) (advertised_receive (cfg_bandwidth cfg) rate)]"
proof -
  note req = auth_request_user [where to_str = "cfg_to_str cfg", OF assms(1)]
  have pos: "rate = Some r \<Longrightarrow> r \<noteq> 0" for r
    by (auto simp: rate_def server_send_rate_def split: if_splits)
  have admitted: "\<not> (server_receive_bps (cfg_bandwidth cfg) > 0 \<and> ignore_client_bandwidth (cfg_bandwidth cfg) \<and>
      \<not> (case Rate (client_receive_bps bw) of Rate r \<Rightarrow> r > 0 | Auto \<Rightarrow> False))"
    using assms(6) by (auto simp: word_gt_0)
  let ?k = "case rate of Some r \<Rightarrow> Brutal r | None \<Rightarrow> kind st"
  obtain h' where conf: "(case rate of None \<Rightarrow> (True, h)
      | Some r \<Rightarrow> configure_connection_brutal_with_options (cfg_ops cfg) now (cfg_connection cfg) r
          (server_disable_loss_compensation (cfg_bandwidth cfg)) h) = (True, h')"
    and kind: "connection_congestion_kind (cfg_connection cfg) h' = Some ?k"
    using pos configure_brutal_switchable [where h = h and ops = "cfg_ops cfg", OF assms(2,3)]
      connection_kind_switchable [where h = h, OF assms(2,3)] by (cases rate) auto
  have user: "request_user_of (cfg_to_str cfg) (cfg_users cfg) (auth_request rng password bw) = Some u"
    "authenticated (cfg_to_str cfg) (cfg_users cfg) (auth_request rng password bw)"
    using req(1,2) assms(5) by simp_all
  have heap: "hy2_heap (hy2_init h) = h" "hy2_responses (hy2_init h) = []"
    by (simp_all add: hy2_init_def)
  have "c = first_request cfg now (auth_request rng password bw) stream (hy2_init h)"
    by (simp add: c_def hy2_init_def)
  also have "\<dots> = (hy2_init h)\<lparr>hy2_heap := h',
      hy2_responses := [auth_ok_response (cfg_rng cfg) (advertised_receive (cfg_bandwidth cfg) rate)],
      hy2_phase := Serving u ?k, hy2_metrics := server_brutal_debug (cfg_bandwidth cfg)\<rparr>"
    unfolding first_request_def Let_def req(3) rate_def [symmetric] heap conf if_not_P [OF admitted]
    using user kind assms(4) by (simp add: heap)
  finally show "hy2_phase c = Serving u ?k"
    "hy2_responses c = [auth_ok_response (cfg_rng cfg) (advertised_receive (cfg_bandwidth cfg) rate)]"
    by simp_all
qed

text \<open>What HTTP/3 brings back for the first request: the authentication response, or the finished masquerade answer.\<close>

definition h3_answer :: "'c hy2_connection \<Rightarrow> auth_response option" where
  "h3_answer c = (case (hy2_responses c, hy2_masked c) of
       (r # _, _) \<Rightarrow> Some r
     | ([], (_, _, sent) # _) \<Rightarrow>
         (case sent_head sent of
            Some (status, hs) \<Rightarrow> if sent_finished sent then Some \<lparr>auth_status = word_of_nat status, auth_headers = hs\<rparr> else None
          | None \<Rightarrow> None)
     | ([], []) \<Rightarrow> None)"

text \<open>
  The user a client with this password and bandwidth is served as, if any, and the status of the
  masquerade. A password the server cannot read as text is nobody's.
\<close>

definition admits :: "('c, 'r, 'p, 'm) hy2_config \<Rightarrow> string \<Rightarrow> client_bandwidth \<Rightarrow> string option" where
  "admits cfg password bw =
     (if server_receive_bps (cfg_bandwidth cfg) > 0 \<and> ignore_client_bandwidth (cfg_bandwidth cfg) \<and> client_receive_bps bw = 0
      then None else Option.bind (cfg_to_str cfg password) (cfg_users cfg))"

definition masquerade_status :: "('c, 'r, 'p, 'm) hy2_config \<Rightarrow> http_request \<Rightarrow> nat" where
  "masquerade_status cfg request =
     (case cfg_masquerade cfg of None \<Rightarrow> 404 | Some handler \<Rightarrow> res_status (handler (cfg_source cfg) request []))"

lemma serve_masquerade_open:
  assumes "serve_masquerade_request masquerade source request (open_h3 []) = (res, sent)"
  shows "\<exists>hs. sent_head sent =
      Some (res_status (case masquerade of None \<Rightarrow> empty_response 404 | Some handler \<Rightarrow> handler source request []), hs)"
    "sent_finished sent"
  using assms by (auto simp: serve_masquerade_request_def send_masquerade_response_def open_h3_def nothing_sent_def Let_def split: if_splits option.splits)

lemma server_refuses:
  fixes now rng h
  assumes "reads_rates (cfg_to_str cfg)" "admits cfg password bw = None"
  defines "c \<equiv> hy2_step cfg (Request now (auth_request rng password bw) (open_h3 [])) (hy2_init h)"
  shows "hy2_phase c = Masquerading" "hy2_responses c = []"
    "\<exists>hs. h3_answer c = Some \<lparr>auth_status = word_of_nat (masquerade_status cfg (auth_request rng password bw)), auth_headers = hs\<rparr>"
proof -
  let ?r = "auth_request rng password bw"
  note req = auth_request_user [where to_str = "cfg_to_str cfg", OF assms(1)]
  have "\<not> authenticated (cfg_to_str cfg) (cfg_users cfg) ?r \<or>
      (server_receive_bps (cfg_bandwidth cfg) > 0 \<and> ignore_client_bandwidth (cfg_bandwidth cfg) \<and>
       \<not> (case Rate (client_receive_bps bw) of Rate r \<Rightarrow> r > 0 | Auto \<Rightarrow> False))"
    using assms(2) req(2) by (auto simp: admits_def word_gt_0 split: if_splits)
  then have c: "c = to_masquerade cfg ?r (open_h3 []) (hy2_init h)"
    unfolding c_def by (auto simp: hy2_init_def first_request_def Let_def req(3))
  obtain res sent where "serve_masquerade_request (cfg_masquerade cfg) (cfg_source cfg) ?r (open_h3 []) = (res, sent)"
    by fastforce
  with serve_masquerade_open [OF this] c show "hy2_phase c = Masquerading" "hy2_responses c = []"
    "\<exists>hs. h3_answer c = Some \<lparr>auth_status = word_of_nat (masquerade_status cfg ?r), auth_headers = hs\<rparr>"
    by (auto simp: to_masquerade_def spawn_masquerade_request_def hy2_init_def h3_answer_def masquerade_status_def
        empty_response_def split: option.splits)
qed

lemma login_outcome:
  assumes "reads_rates (cfg_to_str cfg)" "cc_controller (cfg_connection cfg) = Switchable l" "h l = Some st"
    "\<forall>r. cfg_respond cfg r = None"
    "hd_h3 d = None" "reads_rates to_str" "header_error (show_nat (unat (client_receive_bps bw))) = None" "header_error (padding rng 256 2048) = None"
    "cc_controller (hd_connection d) = Switchable l'" "h' l' = Some st'"
    "c = hy2_step cfg (Request now (auth_request rng password bw) (open_h3 [])) (hy2_init h)"
    "\<forall>response. h3_answer c = Some response \<longrightarrow> hd_exchange d (auth_request rng password bw) = Inr response"
    "header_error password = None"
  shows "(case admits cfg password bw of
      None \<Rightarrow>
        (let status = word_of_nat (masquerade_status cfg (auth_request rng password bw))
         in hy2_phase c = Masquerading \<and> hy2_responses c = [] \<and>
            (status \<noteq> 233 \<longrightarrow> authenticate ops to_str header_error rng n password bw d h' =
               (Inl (AuthenticationFailed status), Some ''authentication failed'', h')))
    | Some u \<Rightarrow>
        (let rate = server_send_rate (cfg_bandwidth cfg) (Rate (client_receive_bps bw));
             client_rate = client_send_rate (client_send_bps bw) (advertised_receive (cfg_bandwidth cfg) rate)
         in hy2_phase c = Serving u (case rate of Some r \<Rightarrow> Brutal r | None \<Rightarrow> kind st) \<and>
            (\<exists>k h''. authenticate ops to_str header_error rng n password bw d h' = (Inr k, None, h'') \<and>
               hy2c_congestion k = (case client_rate of Some r \<Rightarrow> Brutal r | None \<Rightarrow> kind st') \<and>
               connection_congestion_kind (hd_connection d) h'' = Some (hy2c_congestion k))))"
proof -
  have build: "build_request header_error (auth_request rng password bw) = Inr (auth_request rng password bw)"
    using build_auth_request [OF assms(7,8), of password] assms(13) by simp
  show ?thesis
  proof (cases "admits cfg password bw")
    case None
    note refused = server_refuses [where h = h, OF assms(1) None, of now rng, folded assms(11)]
    obtain hs where "hd_exchange d (auth_request rng password bw) =
        Inr \<lparr>auth_status = word_of_nat (masquerade_status cfg (auth_request rng password bw)), auth_headers = hs\<rparr>"
      using refused(3) assms(12) by blast
    then show ?thesis
      using None refused(1,2) assms(5)
      by (simp add: authenticate_def negotiate_def build STATUS_AUTH_OK_def Let_def)
  next
    case (Some u)
    let ?rate = "server_send_rate (cfg_bandwidth cfg) (Rate (client_receive_bps bw))"
    let ?rx = "advertised_receive (cfg_bandwidth cfg) ?rate"
    have admitted: "Option.bind (cfg_to_str cfg password) (cfg_users cfg) = Some u"
      "\<not> (server_receive_bps (cfg_bandwidth cfg) > 0 \<and> ignore_client_bandwidth (cfg_bandwidth cfg) \<and> client_receive_bps bw = 0)"
      using Some by (auto simp: admits_def split: if_splits)
    note served = server_login [where h = h, OF assms(1-4) admitted, of now rng "open_h3 []", folded assms(11)]
    have exchange: "hd_exchange d (auth_request rng password bw) = Inr (auth_ok_response (cfg_rng cfg) ?rx)"
      using assms(12) served(2) by (simp add: h3_answer_def)
    have "parse_congestion_receive to_str (Some (congestion_receive_value ?rx)) = ?rx"
      by (rule parse_congestion_receive_value) (use assms(6) in \<open>simp add: reads_rates_def\<close>)
    then show ?thesis
      using Some served(1) exchange assms(5)
        negotiate_switchable [where h = h', OF assms(9,10) header_auth_ok(2), where to_str = to_str and bw = bw and now = "hd_now d" and n = n and ops = ops]
      by (fastforce simp: authenticate_def build header_auth_ok(1) Let_def)
  qed
qed

text \<open>
  (C16) Login end to end, for every password. A password HTTP does not take as a header value is reported as
  such and nothing is sent. Otherwise the request reaches the server. When the password is visible
  ASCII and the server knows it (and does not insist on a bandwidth the client withholds), the server
  serves the user of that password, and its answer makes the client's \<open>authenticate\<close> succeed; both ends then
  use the rate the two configurations negotiate, or the controller they had. In every other case, a
  known password that is not visible ASCII included, the server masquerades, and unless the
  masquerade site itself answers 233 the client reports its status (404 without a site) and closes
  the connection, its controllers untouched.
\<close>

theorem hysteria2_login:
  assumes "visible_to_str (cfg_to_str cfg)" "cc_controller (cfg_connection cfg) = Switchable l" "h l = Some st"
    "\<forall>r. cfg_respond cfg r = None"
    "hd_h3 d = None" "visible_to_str to_str" "\<forall>v. visible_ascii v \<longrightarrow> header_error v = None" "alphanumeric_rng rng"
    "cc_controller (hd_connection d) = Switchable l'" "h' l' = Some st'"
    "c = hy2_step cfg (Request now (auth_request rng password bw) (open_h3 [])) (hy2_init h)"
    "\<forall>response. h3_answer c = Some response \<longrightarrow> hd_exchange d (auth_request rng password bw) = Inr response"
  shows "(case header_error password of
      Some e \<Rightarrow> authenticate ops to_str header_error rng n password bw d h' = (Inl (Protocol e), None, h')
    | None \<Rightarrow>
       (case (if visible_ascii password then cfg_users cfg password else None) of
          Some u \<Rightarrow>
            if server_receive_bps (cfg_bandwidth cfg) > 0 \<and> ignore_client_bandwidth (cfg_bandwidth cfg) \<and> client_receive_bps bw = 0
            then hy2_phase c = Masquerading
            else
              (let rate = server_send_rate (cfg_bandwidth cfg) (Rate (client_receive_bps bw));
                   client_rate = client_send_rate (client_send_bps bw) (advertised_receive (cfg_bandwidth cfg) rate)
               in hy2_phase c = Serving u (case rate of Some r \<Rightarrow> Brutal r | None \<Rightarrow> kind st) \<and>
                  (\<exists>k h''. authenticate ops to_str header_error rng n password bw d h' = (Inr k, None, h'') \<and>
                     hy2c_congestion k = (case client_rate of Some r \<Rightarrow> Brutal r | None \<Rightarrow> kind st') \<and>
                     connection_congestion_kind (hd_connection d) h'' = Some (hy2c_congestion k)))
        | None \<Rightarrow> hy2_phase c = Masquerading) \<and>
       (let status = word_of_nat (masquerade_status cfg (auth_request rng password bw))
        in hy2_phase c = Masquerading \<longrightarrow> hy2_responses c = [] \<and>
            (status \<noteq> 233 \<longrightarrow> authenticate ops to_str header_error rng n password bw d h' =
               (Inl (AuthenticationFailed status), Some ''authentication failed'', h'))))"
proof -
  have rates: "reads_rates (cfg_to_str cfg)" "reads_rates to_str"
    using assms(1,6) by (simp_all add: visible_reads_rates)
  have headers: "header_error (show_nat (unat (client_receive_bps bw))) = None" "header_error (padding rng 256 2048) = None"
    using assms(7,8) visible_show_nat visible_padding by blast+
  have admits: "admits cfg password bw =
      (if server_receive_bps (cfg_bandwidth cfg) > 0 \<and> ignore_client_bandwidth (cfg_bandwidth cfg) \<and> client_receive_bps bw = 0
       then None else if visible_ascii password then cfg_users cfg password else None)"
    using assms(1) by (simp add: admits_def visible_to_str_def)
  show ?thesis
  proof (cases "header_error password")
    case None
    from login_outcome [where h = h and h' = h', OF rates(1) assms(2-5) rates(2) headers assms(9-12) None, of ops n] None
    show ?thesis
      by (auto simp: admits Let_def split: option.splits if_splits)
  next
    case (Some e)
    then show ?thesis
      using build_auth_request [where header_error = header_error, OF headers, of password] assms(5) by (simp add: authenticate_def)
  qed
qed

definition demo_bandwidth :: client_bandwidth where
  "demo_bandwidth = \<lparr>client_send_bps = 1, client_receive_bps = 2, client_disable_loss_compensation = False, client_brutal_debug = False\<rparr>"

definition demo_heap :: "(congestion_kind \<times> u16) cc_heap" where
  "demo_heap = [0 \<mapsto> \<lparr>controller = (Bbr, 1200), kind = Bbr, current_mtu = 1200\<rparr>]"

definition demo_dial :: "auth_response \<Rightarrow> (congestion_kind \<times> u16) hy2_dial" where
  "demo_dial response = \<lparr>hd_connect = None, hd_handshake = None, hd_connection = \<lparr>cc_controller = Switchable 0, cc_rtt = 1\<rparr>,
     hd_h3 = None, hd_exchange = (\<lambda>_. Inr response), hd_now = 0\<rparr>"

definition http_to_str :: "string \<Rightarrow> string option" where
  "http_to_str s = (if visible_ascii s then Some s else None)"

definition demo_login_config :: "(congestion_kind \<times> u16, nat, nat, nat) hy2_config" where
  "demo_login_config = demo_config\<lparr>cfg_to_str := http_to_str\<rparr>"

theorem hysteria2_login_witness:
  "let request = auth_request constant_rng ''wrong'' demo_bandwidth;
       c = hy2_step demo_login_config (Request 0 request (open_h3 [])) (hy2_init demo_heap)
   in authenticate plain_ops http_to_str (\<lambda>_. None) constant_rng 0 ''wrong'' demo_bandwidth (demo_dial (the (h3_answer c))) demo_heap =
     (Inl (AuthenticationFailed 404), Some ''authentication failed'', demo_heap)"
proof -
  let ?r = "auth_request constant_rng ''wrong'' demo_bandwidth"
  let ?c = "hy2_step demo_login_config (Request 0 ?r (open_h3 [])) (hy2_init demo_heap)"
  have facts: "visible_to_str (cfg_to_str demo_login_config)" "cc_controller (cfg_connection demo_login_config) = Switchable 0"
    "demo_heap 0 = Some \<lparr>controller = (Bbr, 1200), kind = Bbr, current_mtu = 1200\<rparr>"
    "\<forall>r. cfg_respond demo_login_config r = None" "hd_h3 (demo_dial (the (h3_answer ?c))) = None" "visible_to_str http_to_str"
    "\<forall>v. visible_ascii v \<longrightarrow> (\<lambda>_. None :: string option) v = None" "alphanumeric_rng constant_rng"
    "cc_controller (hd_connection (demo_dial (the (h3_answer ?c)))) = Switchable 0"
    "\<forall>response. h3_answer ?c = Some response \<longrightarrow> hd_exchange (demo_dial (the (h3_answer ?c))) ?r = Inr response"
    "cfg_users demo_login_config ''wrong'' = None" "masquerade_status demo_login_config ?r = 404" "visible_ascii ''wrong''"
    by (simp_all add: demo_login_config_def demo_config_def demo_heap_def demo_dial_def masquerade_status_def visible_to_str_def http_to_str_def
        alphanumeric_rng_def constant_rng_def visible_ascii_def del: hy2_step.simps)
  from hysteria2_login [where h = demo_heap and h' = demo_heap and header_error = "\<lambda>_. None", OF facts(1-9) facts(3) refl facts(10), of plain_ops 0] facts(11-13)
  show ?thesis
    by (simp add: Let_def del: hy2_step.simps)
qed

text \<open>
  (C22) The negotiated rates, through the two headers: the client writes its receive rate into the request,
  the server reads it there and answers with the header from which the client reads the limit of its own
  rate. The server sends at a fixed rate unless the client announced 0 or the server ignores client
  rates and has no receive limit of its own; the rate is the client's receive rate, cut to the server's
  send limit if it has one (0 meaning none). The client sends at a fixed rate exactly when the server does
  and its own send rate is not 0; it is that rate, cut to the server's receive limit if it has one.
  So a fixed rate never exceeds the sender's own limit nor the receive limit of its peer. The
  server's receive limit binds the client only with a server that sends at a fixed rate: a client that
  announces 0 is answered \<open>auto\<close>, whatever that limit (or is sent to the masquerade, see the login above).
\<close>

theorem negotiation_respects_limits:
  fixes sb cb to_str to_str' rng rng' password
  assumes "visible_to_str to_str" "visible_to_str to_str'"
  defines "client_receive \<equiv> parse_congestion_receive to_str (header_get HEADER_CC_RX (req_headers (auth_request rng password cb)))"
  defines "server_rate \<equiv> server_send_rate sb client_receive"
  defines "response \<equiv> auth_ok_response rng' (advertised_receive sb server_rate)"
  defines "client_rate \<equiv> client_send_rate (client_send_bps cb)
      (parse_congestion_receive to_str' (header_get HEADER_CC_RX (auth_headers response)))"
  shows "server_rate =
      (if client_receive_bps cb = 0 \<or> server_receive_bps sb = 0 \<and> ignore_client_bandwidth sb then None
       else Some (if server_send_bps sb > 0 then min (client_receive_bps cb) (server_send_bps sb) else client_receive_bps cb)) \<and>
    client_rate =
      (if server_rate = None \<or> client_send_bps cb = 0 then None
       else Some (if server_receive_bps sb > 0 then min (client_send_bps cb) (server_receive_bps sb) else client_send_bps cb)) \<and>
    (\<forall>r. server_rate = Some r \<longrightarrow> 0 < r \<and> r \<le> client_receive_bps cb \<and>
      (server_send_bps sb > 0 \<longrightarrow> r \<le> server_send_bps sb)) \<and>
    (\<forall>r. client_rate = Some r \<longrightarrow> 0 < r \<and> r \<le> client_send_bps cb \<and>
      (server_receive_bps sb > 0 \<longrightarrow> r \<le> server_receive_bps sb))"
proof -
  have received: "client_receive = Rate (client_receive_bps cb)"
    unfolding client_receive_def by (rule auth_request_user(3)) (rule visible_reads_rates [OF assms(1)])
  have parsed: "parse_congestion_receive to_str' (header_get HEADER_CC_RX (auth_headers response)) = advertised_receive sb server_rate"
    unfolding response_def header_auth_ok(1)
    by (rule parse_congestion_receive_value)
      (use visible_reads_rates [OF assms(2)] in \<open>simp add: reads_rates_def\<close>)
  have server: "server_rate =
      (if client_receive_bps cb = 0 \<or> server_receive_bps sb = 0 \<and> ignore_client_bandwidth sb then None
       else Some (if server_send_bps sb > 0 then min (client_receive_bps cb) (server_send_bps sb) else client_receive_bps cb))"
    by (auto simp: server_rate_def received server_send_rate_def min_def)
  have client: "client_rate =
      (if server_rate = None \<or> client_send_bps cb = 0 then None
       else Some (if server_receive_bps sb > 0 then min (client_send_bps cb) (server_receive_bps sb) else client_send_bps cb))"
    by (cases server_rate) (auto simp: client_rate_def parsed client_send_rate_def advertised_receive_def word_gt_0 min_def)
  show ?thesis
    using server client by (auto simp: word_gt_0 min_def split: if_splits)
qed

theorem negotiation_respects_limits_witness:
  "let sb = \<lparr>server_send_bps = 9, server_receive_bps = 3, ignore_client_bandwidth = True,
         server_disable_loss_compensation = False, server_brutal_debug = False\<rparr>;
       cb = \<lparr>client_send_bps = 7, client_receive_bps = 12, client_disable_loss_compensation = False, client_brutal_debug = False\<rparr>;
       server_rate = server_send_rate sb
         (parse_congestion_receive http_to_str (header_get HEADER_CC_RX (req_headers (auth_request constant_rng ''secret'' cb))))
   in server_rate = Some 9 \<and>
      client_send_rate (client_send_bps cb) (parse_congestion_receive http_to_str
        (header_get HEADER_CC_RX (auth_headers (auth_ok_response constant_rng (advertised_receive sb server_rate))))) = Some 3"
proof -
  let ?sb = "\<lparr>server_send_bps = 9, server_receive_bps = 3, ignore_client_bandwidth = True,
         server_disable_loss_compensation = False, server_brutal_debug = False\<rparr>"
  let ?cb = "\<lparr>client_send_bps = 7, client_receive_bps = 12, client_disable_loss_compensation = False, client_brutal_debug = False\<rparr>"
  have "visible_to_str http_to_str"
    by (simp add: visible_to_str_def http_to_str_def)
  note rates = negotiation_respects_limits [OF this this, where sb = ?sb and cb = ?cb and password = "''secret''" and rng = constant_rng and rng' = constant_rng]
  have "server_send_rate ?sb (parse_congestion_receive http_to_str
      (header_get HEADER_CC_RX (req_headers (auth_request constant_rng ''secret'' ?cb)))) = Some 9"
    using rates by (simp add: min_def)
  with rates show ?thesis
    by (simp add: Let_def min_def)
qed

text \<open>
  The client's side of authentication: it is connected exactly when the answer is 233 and the
  congestion switch it asks for succeeds; any other status is reported as it is and closes the
  connection, and the controller it reports is the one in use.
\<close>

lemma hysteria2_authenticate:
  assumes "negotiate ops to_str now conn n bw response h = (res, closed, h')"
    "cc_controller conn = Switchable l" "h l = Some st"
  shows "(auth_status response \<noteq> 233 \<longrightarrow>
      res = Inl (AuthenticationFailed (auth_status response)) \<and> closed \<noteq> None \<and> h' = h) \<and>
    (auth_status response = 233 \<longrightarrow> (\<exists>k. res = Inr k \<and> closed = None \<and>
      connection_congestion_kind conn h' = Some (hy2c_congestion k)))"
  using assms(1) negotiate_switchable [where h = h, OF assms(2,3), where to_str = to_str and bw = bw and ops = ops and now = now and n = n and response = response]
  by (auto simp: negotiate_def STATUS_AUTH_OK_def)


section \<open>The cache\<close>

text \<open>
  The client holds on to nothing but the cached connection: it alone has a driver running, and it was
  not closed by the client. Numbers are never reused.
\<close>

definition cache_ok :: "hy2_client \<Rightarrow> bool" where
  "cache_ok c \<longleftrightarrow>
     hy2c_drivers c = (case hy2c_cached c of None \<Rightarrow> [] | Some k \<Rightarrow> [hy2c_id k]) \<and>
     (\<forall>k. hy2c_cached c = Some k \<longrightarrow> hy2c_id k < hy2c_dials c \<and> hy2c_id k \<notin> fst ` set (hy2c_closed c)) \<and>
     (\<forall>n \<in> fst ` set (hy2c_closed c). n < hy2c_dials c) \<and> distinct (map fst (hy2c_closed c))"

lemma hy2_client_new_cache:
  "hy2_client_new_with_bandwidth_and_transport lib os options bandwidth topts = (Inr c, trace) \<Longrightarrow> cache_ok c"
  by (auto simp: hy2_client_new_with_bandwidth_and_transport_def cache_ok_def split: prod.splits sum.splits)

lemma hy2_client_drop_cache: "cache_ok c \<Longrightarrow> cache_ok (hy2_client_drop c) \<and> hy2c_drivers (hy2_client_drop c) = []"
  by (auto simp: cache_ok_def hy2_client_drop_def client_connection_drop_def split: option.splits)

lemma authenticate_id: "authenticate ops to_str header_error rng n password bw d h = (Inr k, closed, h') \<Longrightarrow> hy2c_id k = n \<and> closed = None"
  by (auto simp: authenticate_def negotiate_def Let_def split: option.splits sum.splits if_splits prod.splits)

lemma hy2_dial_server_id: "hy2_dial_server ops to_str header_error rng n c d h = (Inr k, closed, h') \<Longrightarrow> hy2c_id k = n"
  by (auto simp: hy2_dial_server_def authenticate_id split: option.splits)

lemma hy2_connection_of_dial:
  assumes "\<forall>k. hy2c_cached c = Some k \<longrightarrow> \<not> alive (hy2c_id k)"
    and "hy2_dial_server ops to_str header_error rng (hy2c_dials c) (c\<lparr>hy2c_dials := hy2c_dials c + 1\<rparr>) (dials (hy2c_dials c)) h = (r, reason, h1)"
  shows "hy2_connection_of ops to_str header_error rng alive dials c h =
    (r,
     (case r of
        Inl e \<Rightarrow> c\<lparr>hy2c_dials := hy2c_dials c + 1, hy2c_closed := hy2c_closed c @ (case reason of None \<Rightarrow> [] | Some m \<Rightarrow> [(hy2c_dials c, m)])\<rparr>
      | Inr k \<Rightarrow> (case hy2c_cached c of None \<Rightarrow> id | Some old \<Rightarrow> client_connection_drop old)
                 (c\<lparr>hy2c_dials := hy2c_dials c + 1, hy2c_drivers := hy2c_drivers c @ [hy2c_dials c]\<rparr>)\<lparr>hy2c_cached := Some k\<rparr>), h1)"
  using assms by (auto simp: hy2_connection_of_def Let_def split: option.splits sum.splits)

text \<open>
  (C40) The cache of the Hysteria2 client: a live cached connection is used as it is. Otherwise exactly one
  connection is dialled; when it authenticates it becomes the cached one and the one it replaces is
  closed with its driver stopped, and when it does not the cache stays as it was. Only the cached
  connection ever has a driver running, and no connection is closed twice.
\<close>

theorem hysteria2_client_cache:
  assumes "cache_ok c" "hy2_connection_of ops to_str header_error rng alive dials c h = (res, c', h')"
  shows "cache_ok c' \<and>
    (case hy2c_cached c of
       Some k \<Rightarrow> alive (hy2c_id k) \<longrightarrow> res = Inr k \<and> c' = c \<and> h' = h
     | None \<Rightarrow> True) \<and>
    ((\<forall>k. hy2c_cached c = Some k \<longrightarrow> \<not> alive (hy2c_id k)) \<longrightarrow>
      hy2c_dials c' = hy2c_dials c + 1 \<and>
      (case res of
         Inr k \<Rightarrow> hy2c_id k = hy2c_dials c \<and> hy2c_cached c' = Some k \<and>
           (\<forall>old. hy2c_cached c = Some old \<longrightarrow> (hy2c_id old, ''client closed'') \<in> set (hy2c_closed c'))
       | Inl e \<Rightarrow> hy2c_cached c' = hy2c_cached c))"
proof (cases "\<exists>k. hy2c_cached c = Some k \<and> alive (hy2c_id k)")
  case True
  then show ?thesis
    using assms by (auto simp: hy2_connection_of_def)
next
  case False
  then have dead: "\<forall>k. hy2c_cached c = Some k \<longrightarrow> \<not> alive (hy2c_id k)" by blast
  obtain r reason h1 where dial: "hy2_dial_server ops to_str header_error rng (hy2c_dials c) (c\<lparr>hy2c_dials := hy2c_dials c + 1\<rparr>)
      (dials (hy2c_dials c)) h = (r, reason, h1)"
    by (rule prod_cases3)
  note step = hy2_connection_of_dial [where dials = dials, OF dead dial]
  show ?thesis
  proof (cases r)
    case (Inl e)
    then show ?thesis
      using step assms dead by (auto simp: cache_ok_def less_Suc_eq split: option.splits)
  next
    case (Inr k)
    moreover have "hy2c_id k = hy2c_dials c"
      using dial Inr by (auto dest: hy2_dial_server_id)
    ultimately show ?thesis
      using step assms dead by (auto simp: cache_ok_def client_connection_drop_def less_Suc_eq split: option.splits)
  qed
qed

definition demo_client :: "hy2_client_connection option \<Rightarrow> hy2_client" where
  "demo_client cached = \<lparr>hy2c_endpoint = \<lparr>endpoint_bound = \<lparr>ip = V4 0, sport = 0\<rparr>, endpoint_server = None, endpoint_client = None, endpoint_open = True\<rparr>,
     hy2c_options = \<lparr>hco_server = \<lparr>ip = V4 0, sport = 443\<rparr>, hco_server_name = ''a.b'', hco_password = ''secret'', hco_ca_certificates = []\<rparr>,
     hy2c_bandwidth = demo_bandwidth, hy2c_cached = cached, hy2c_dials = 1, hy2c_closed = [],
     hy2c_drivers = (case cached of None \<Rightarrow> [] | Some k \<Rightarrow> [hy2c_id k])\<rparr>"

theorem hysteria2_client_cache_witness:
  "\<exists>c' h'. hy2_connection_of plain_ops Some (\<lambda>_. None) constant_rng (\<lambda>_. False)
      (\<lambda>_. demo_dial \<lparr>auth_status = 404, auth_headers = []\<rparr>)
      (demo_client (Some \<lparr>hy2c_id = 0, hy2c_congestion = Bbr, hy2c_metrics = False\<rparr>)) demo_heap =
    (Inl (AuthenticationFailed 404), c', h') \<and> hy2c_dials c' = 2 \<and> cache_ok c'"
proof -
  let ?c = "demo_client (Some \<lparr>hy2c_id = 0, hy2c_congestion = Bbr, hy2c_metrics = False\<rparr>)"
  let ?r = "hy2_connection_of plain_ops Some (\<lambda>_. None) constant_rng (\<lambda>_. False)
      (\<lambda>_. demo_dial \<lparr>auth_status = 404, auth_headers = []\<rparr>) ?c demo_heap"
  have "cache_ok ?c" by (simp add: cache_ok_def demo_client_def)
  moreover have "fst ?r = Inl (AuthenticationFailed 404)"
    by (simp add: hy2_connection_of_def hy2_dial_server_def authenticate_def negotiate_def build_request_accepts demo_client_def
        demo_dial_def STATUS_AUTH_OK_def Let_def)
  ultimately obtain c' h' where r: "cache_ok ?c" "?r = (Inl (AuthenticationFailed 404), c', h')"
    by (metis prod.collapse)
  have "hy2c_dials ?c = 1" "\<forall>k. hy2c_cached ?c = Some k \<longrightarrow> \<not> (\<lambda>_. False) (hy2c_id k)"
    by (simp_all add: demo_client_def)
  with hysteria2_client_cache [OF r] r(2) show ?thesis
    by (intro exI [of _ c'] exI [of _ h']) simp
qed

end
