(* ===== verification/Hy2_Session.thy ===== *)
theory Hy2_Session
  imports Hy2_Server
begin

text \<open>
  UDP through one connection of the Hysteria2 server, from the datagrams a peer's \<open>send\<close> produced to
  the packets the application's \<open>recv\<close> returns: sessions do not disturb each other, a dropped session
  starts afresh, and a packet whose frames all arrive is delivered.
\<close>


section \<open>The fragments of a session\<close>

text \<open>What the server holds of the unfinished packets of a session; nothing when no session lives.\<close>

definition session_conn :: "u32 \<Rightarrow> 'c hy2_connection \<Rightarrow> packet_connection option" where
  "session_conn sid c = Option.bind (session_handle sid c) (handles c)"

definition session_fragments :: "u32 \<Rightarrow> 'c hy2_connection \<Rightarrow> defragger" where
  "session_fragments sid c = (case session_conn sid c of None \<Rightarrow> Map.empty | Some pc \<Rightarrow> fragments pc)"

text \<open>The messages of a session among the events of a connection, with their arrival times.\<close>

fun event_messages :: "u32 \<Rightarrow> hy2_event \<Rightarrow> (nat \<times> udp_message) list" where
  "event_messages sid (DatagramRead now source d) = (case decode_message d of
       Inr m \<Rightarrow> if session_id m = sid then [(now, m)] else []
     | Inl e \<Rightarrow> [])"
| "event_messages sid ev = []"

definition session_messages :: "u32 \<Rightarrow> hy2_event list \<Rightarrow> (nat \<times> udp_message) list" where
  "session_messages sid evs = concat (map (event_messages sid) evs)"

text \<open>The application keeps the packet connection of the session while the events happen.\<close>

fun keeps_session :: "('c, 'r, 'p, 'm) hy2_config \<Rightarrow> u32 \<Rightarrow> hy2_event list \<Rightarrow> 'c hy2_connection \<Rightarrow> bool" where
  "keeps_session cfg sid [] c = True"
| "keeps_session cfg sid (ev # evs) c =
     ((case ev of SessionDropped n \<Rightarrow> session_handle sid c \<noteq> Some n | _ \<Rightarrow> True) \<and> keeps_session cfg sid evs (hy2_step cfg ev c))"

lemma session_conn_eq: "sessions_ok c \<Longrightarrow> session_conn sid c = Some pc \<Longrightarrow> conn_session pc = sid"
  by (auto simp: session_conn_def session_handle_def sessions_ok_def bind_eq_Some_conv split: if_splits)

lemma session_handle_conn: "session_handle sid c = Some n \<longleftrightarrow> udp_sessions c sid = Some n \<and> handles c n \<noteq> None"
  by (auto simp: session_handle_def bind_eq_Some_conv)

lemma session_conn_alt: "session_conn sid c = Option.bind (udp_sessions c sid) (handles c)"
  by (cases "udp_sessions c sid") (simp_all add: session_conn_def session_handle_def)

lemma sessions_okD:
  assumes "sessions_ok c" "udp_sessions c sid = Some n"
  shows "n < next_handle c" "handles c n = Some pc \<Longrightarrow> conn_session pc = sid"
  using assms by (simp_all add: sessions_ok_def)

text \<open>Two live sessions never share a packet connection.\<close>

lemma sessions_apart:
  assumes "sessions_ok c" "session_handle s1 c = Some n" "session_handle s2 c = Some n"
  shows "s1 = s2"
  using assms(2,3) sessions_okD(2) [OF assms(1)] unfolding session_handle_conn by (metis not_None_eq)

text \<open>One datagram, as its session sees it: its packet connection, new when there was none, takes the message.\<close>

definition session_before :: "nat \<Rightarrow> u32 \<Rightarrow> 'c hy2_connection \<Rightarrow> packet_connection" where
  "session_before now sid c = (case session_conn sid c of Some pc \<Rightarrow> pc | None \<Rightarrow> packet_connection_new now sid)"

lemma serve_datagram_serving [consumes 2, case_names live new]:
  assumes "decode_message d = Inr m" "hy2_phase (serve_datagram now source u k d c) = Serving u k"
  obtains (live) n pc where "udp_sessions c (session_id m) = Some n" "handles c n = Some pc"
      "serve_datagram now source u k d c = c\<lparr>handles := (handles c)(n \<mapsto> snd (packet_input now m pc))\<rparr>"
  | (new) "session_handle (session_id m) c = None"
      "serve_datagram now source u k d c = c\<lparr>next_handle := next_handle c + 1,
         handles := (handles c)(next_handle c \<mapsto> snd (packet_input now m (packet_connection_new now (session_id m)))),
         hy2_accepted := hy2_accepted c @ [Hy2Packet (msg_destination m) u source k (next_handle c)],
         udp_sessions := (udp_sessions c)(session_id m \<mapsto> next_handle c)\<rparr>"
proof (cases "session_handle (session_id m) c")
  case (Some n)
  then obtain pc where pc: "udp_sessions c (session_id m) = Some n" "handles c n = Some pc"
    by (auto simp: session_handle_conn)
  obtain r pc' where p: "packet_input now m pc = (r, pc')" by fastforce
  then have "serve_datagram now source u k d c = (case r of
      Inl e \<Rightarrow> c\<lparr>handles := (handles c)(n \<mapsto> pc'), hy2_phase := Over (Inl e)\<rparr> | Inr _ \<Rightarrow> c\<lparr>handles := (handles c)(n \<mapsto> pc')\<rparr>)"
    by (simp add: serve_datagram_def assms(1) Some pc(2))
  then show thesis
    using live [OF pc] assms(2) p by (cases r) simp_all
next
  case None
  have gone: "\<not> hy2_app_gone c"
    using assms(2) by (auto simp: serve_datagram_def open_session_def assms(1) None)
  define c1 where "c1 = c\<lparr>next_handle := next_handle c + 1,
    handles := (handles c)(next_handle c \<mapsto> packet_connection_new now (session_id m)),
    hy2_accepted := hy2_accepted c @ [Hy2Packet (msg_destination m) u source k (next_handle c)],
    udp_sessions := (udp_sessions c)(session_id m \<mapsto> next_handle c)\<rparr>"
  have opened: "open_session now source u k m c = (Inr (next_handle c), c1)"
    using gone by (simp add: open_session_def c1_def Let_def)
  have fresh: "handles c1 (next_handle c) = Some (packet_connection_new now (session_id m))"
    by (simp add: c1_def)
  obtain r pc' where p: "packet_input now m (packet_connection_new now (session_id m)) = (r, pc')" by fastforce
  have "serve_datagram now source u k d c = (case r of
      Inl e \<Rightarrow> c1\<lparr>handles := (handles c1)(next_handle c \<mapsto> pc'), hy2_phase := Over (Inl e)\<rparr>
    | Inr _ \<Rightarrow> c1\<lparr>handles := (handles c1)(next_handle c \<mapsto> pc')\<rparr>)"
    unfolding serve_datagram_def assms(1) None sum.case option.case opened prod.case fresh p by (rule refl)
  then have "serve_datagram now source u k d c = c1\<lparr>handles := (handles c1)(next_handle c \<mapsto> pc')\<rparr>"
    using assms(2) by (cases r) simp_all
  with None p show thesis
    by (intro new) (simp_all add: c1_def)
qed

lemma serve_datagram_session:
  assumes "sessions_ok c" "decode_message d = Inr m" "hy2_phase (serve_datagram now source u k d c) = Serving u k"
  shows "session_conn sid (serve_datagram now source u k d c) =
    (if session_id m = sid then Some (snd (packet_input now m (session_before now sid c))) else session_conn sid c)"
  using assms(2,3)
proof (cases rule: serve_datagram_serving)
  case (live n pc)
  have "udp_sessions c sid \<noteq> Some n" if "session_id m \<noteq> sid"
    using that sessions_okD(2) [OF assms(1) _ live(2)] live(1) by metis
  then show ?thesis
    using live(1,2) unfolding live(3)
    by (cases "session_id m = sid"; cases "udp_sessions c sid") (simp_all add: session_conn_alt session_before_def)
next
  case new
  have "udp_sessions c sid \<noteq> Some (next_handle c)"
    using sessions_okD(1) [OF assms(1)] by blast
  moreover have "session_before now (session_id m) c = packet_connection_new now (session_id m)"
    using new(1) by (simp add: session_before_def session_conn_def)
  ultimately show ?thesis
    unfolding new(2) by (cases "session_id m = sid"; cases "udp_sessions c sid") (auto simp: session_conn_alt)
qed

lemma fragments_packet_input: "fragments (snd (packet_input now m pc)) = snd (feed now (fragments pc) m)"
  by (auto simp: packet_input_def split: prod.splits sum.splits option.splits)

lemma session_fragments_alt:
  "session_fragments sid c = (case Option.bind (udp_sessions c sid) (\<lambda>n. map_option fragments (handles c n)) of None \<Rightarrow> Map.empty | Some d \<Rightarrow> d)"
  by (cases "udp_sessions c sid"; cases "session_conn sid c") (auto simp: session_fragments_def session_conn_alt)

lemma session_calls_fragments:
  "map_option fragments (handles (session_recv pick now closed n c) i) = map_option fragments (handles c i)"
  "map_option fragments (handles (session_send q now p n c) i) = map_option fragments (handles c i)"
  by (auto simp: session_recv_def session_send_def packet_recv_def packet_send_cases
      split: option.splits prod.splits list.splits sum.splits if_splits)

lemma fragments_session_before: "fragments (session_before now sid c) = session_fragments sid c"
  by (auto simp: session_before_def session_fragments_def packet_connection_new_def split: option.splits)


section \<open>While the connection serves\<close>

lemma serve_datagram_phase:
  assumes "hy2_phase c = Serving u k"
  shows "hy2_phase (serve_datagram now source u k d c) = Serving u k \<or> (\<exists>r. hy2_phase (serve_datagram now source u k d c) = Over r)"
proof (cases "decode_message d")
  case (Inr m)
  obtain r c1 where c1: "(case session_handle (session_id m) c of Some n \<Rightarrow> (Inr n, c) | None \<Rightarrow> open_session now source u k m c) = (r, c1)"
    by fastforce
  then have "hy2_phase c1 = Serving u k"
    using assms by (auto simp: open_session_def Let_def split: option.splits if_splits)
  then show ?thesis
    unfolding serve_datagram_def Inr sum.case c1 prod.case by (auto split: sum.splits option.splits prod.splits)
qed (simp add: serve_datagram_def)

lemma hy2_step_phase:
  "hy2_phase c = Over r \<Longrightarrow> hy2_phase (hy2_step cfg ev c) = Over r"
  "hy2_phase c = Serving u k \<Longrightarrow> hy2_phase (hy2_step cfg ev c) = Serving u k \<or> (\<exists>r. hy2_phase (hy2_step cfg ev c) = Over r)"
proof -
  show "hy2_phase c = Over r \<Longrightarrow> hy2_phase (hy2_step cfg ev c) = Over r"
    by (cases ev) simp_all
  assume c: "hy2_phase c = Serving u k"
  show "hy2_phase (hy2_step cfg ev c) = Serving u k \<or> (\<exists>r. hy2_phase (hy2_step cfg ev c) = Over r)"
    by (cases ev) (use c serve_datagram_phase [OF c] in \<open>simp_all split: sum.splits prod.splits\<close>)
qed

lemma hy2_run_over: "hy2_phase c = Over r \<Longrightarrow> hy2_phase (hy2_run cfg evs c) = Over r"
  unfolding hy2_run_def by (induction evs arbitrary: c) (simp_all add: hy2_step_phase(1) del: hy2_step.simps)

lemma hy2_run_ok: "sessions_ok c \<Longrightarrow> sessions_ok (hy2_run cfg evs c)"
  unfolding hy2_run_def by (induction evs arbitrary: c) (simp_all add: hy2_step_ok del: hy2_step.simps)

lemma hy2_step_fragments:
  assumes "sessions_ok c" "hy2_phase c = Serving u k" "hy2_phase (hy2_step cfg ev c) = Serving u k"
    "\<forall>n. ev = SessionDropped n \<longrightarrow> session_handle sid c \<noteq> Some n"
  shows "session_fragments sid (hy2_step cfg ev c) = feed_all (session_fragments sid c) (event_messages sid ev)"
proof (cases ev)
  case (DatagramRead now source d)
  obtain m where m: "decode_message d = Inr m"
    using assms(2,3) DatagramRead by (cases "decode_message d") (auto simp: serve_datagram_def)
  have "session_conn sid (hy2_step cfg ev c) =
      (if session_id m = sid then Some (snd (packet_input now m (session_before now sid c))) else session_conn sid c)"
    using serve_datagram_session [OF assms(1) m] assms(2,3) DatagramRead by simp
  then have "session_fragments sid (hy2_step cfg ev c) =
      (if session_id m = sid then snd (feed now (session_fragments sid c) m) else session_fragments sid c)"
    by (simp add: session_fragments_def fragments_packet_input fragments_session_before [unfolded session_fragments_def])
  then show ?thesis
    by (simp add: DatagramRead m feed_all_def)
next
  case (SessionDropped n)
  then have "session_handle sid c \<noteq> Some n" using assms(4) by simp
  then have "Option.bind (udp_sessions c sid) (\<lambda>i. map_option fragments (((handles c)(n := None)) i)) =
      Option.bind (udp_sessions c sid) (\<lambda>i. map_option fragments (handles c i))"
    by (cases "udp_sessions c sid") (auto simp: session_handle_conn)
  then show ?thesis
    by (simp add: SessionDropped assms(2) session_fragments_alt feed_all_def)
qed (use assms(2,3) in \<open>auto simp: session_fragments_alt session_calls_fragments feed_all_def split: sum.splits\<close>)

lemma hy2_run_fragments:
  assumes "sessions_ok c" "hy2_phase c = Serving u k" "hy2_phase (hy2_run cfg evs c) = Serving u k" "keeps_session cfg sid evs c"
  shows "session_fragments sid (hy2_run cfg evs c) = feed_all (session_fragments sid c) (session_messages sid evs)"
  using assms
proof (induction evs arbitrary: c)
  case Nil
  then show ?case by (simp add: hy2_run_def session_messages_def feed_all_def)
next
  case (Cons ev evs)
  have run: "hy2_run cfg (ev # evs) c = hy2_run cfg evs (hy2_step cfg ev c)"
    by (simp add: hy2_run_def del: hy2_step.simps)
  have phase: "hy2_phase (hy2_step cfg ev c) = Serving u k"
  proof (rule ccontr)
    assume "hy2_phase (hy2_step cfg ev c) \<noteq> Serving u k"
    then obtain r where "hy2_phase (hy2_step cfg ev c) = Over r"
      using hy2_step_phase(2) [OF Cons.prems(2), of cfg ev] by blast
    from hy2_run_over [OF this, of cfg evs] Cons.prems(3) show False
      unfolding run by simp
  qed
  have kept: "\<forall>n. ev = SessionDropped n \<longrightarrow> session_handle sid c \<noteq> Some n" "keeps_session cfg sid evs (hy2_step cfg ev c)"
    using Cons.prems(4) by (auto simp del: hy2_step.simps)
  from Cons.IH [OF hy2_step_ok [OF Cons.prems(1)] phase Cons.prems(3) [unfolded run] kept(2)]
    hy2_step_fragments [OF Cons.prems(1,2) phase kept(1)]
  show ?case
    unfolding run by (simp add: session_messages_def feed_all_def del: hy2_step.simps)
qed


section \<open>New sessions\<close>

text \<open>A datagram for which no session lives is announced to the application, whatever happened to earlier sessions of its id.\<close>

lemma serve_datagram_accepts:
  assumes "decode_message d = Inr m" "hy2_phase (serve_datagram now source u k d c) = Serving u k"
  shows "hy2_accepted (serve_datagram now source u k d c) = hy2_accepted c @
      (if session_handle (session_id m) c = None then [Hy2Packet (msg_destination m) u source k (next_handle c)] else [])"
    "session_handle (session_id m) c = None \<Longrightarrow>
      session_handle (session_id m) (serve_datagram now source u k d c) = Some (next_handle c)"
proof -
  consider "session_handle (session_id m) c \<noteq> None" "hy2_accepted (serve_datagram now source u k d c) = hy2_accepted c"
    | "session_handle (session_id m) c = None"
      "hy2_accepted (serve_datagram now source u k d c) = hy2_accepted c @ [Hy2Packet (msg_destination m) u source k (next_handle c)]"
      "session_handle (session_id m) (serve_datagram now source u k d c) = Some (next_handle c)"
    by (rule serve_datagram_serving [OF assms]) (simp_all add: session_handle_conn)
  then show "hy2_accepted (serve_datagram now source u k d c) = hy2_accepted c @
      (if session_handle (session_id m) c = None then [Hy2Packet (msg_destination m) u source k (next_handle c)] else [])"
    "session_handle (session_id m) c = None \<Longrightarrow>
      session_handle (session_id m) (serve_datagram now source u k d c) = Some (next_handle c)"
    by (cases; simp)+
qed

lemma session_dropped:
  assumes "session_handle sid c = Some n"
  shows "session_handle sid (hy2_step cfg (SessionDropped n) c) = None"
    "session_fragments sid (hy2_step cfg (SessionDropped n) c) = Map.empty"
proof -
  have "hy2_step cfg (SessionDropped n) c = c\<lparr>handles := (handles c)(n := None)\<rparr>"
    by (cases "hy2_phase c") simp_all
  moreover have "udp_sessions c sid = Some n"
    using assms by (simp add: session_handle_conn)
  ultimately show "session_handle sid (hy2_step cfg (SessionDropped n) c) = None"
    "session_fragments sid (hy2_step cfg (SessionDropped n) c) = Map.empty"
    by (simp_all add: session_handle_def session_fragments_alt del: hy2_step.simps)
qed


section \<open>A whole packet\<close>

text \<open>Taking in messages one after the other, as long as none ends in an error.\<close>

fun inputs :: "nat \<Rightarrow> udp_message list \<Rightarrow> packet_connection \<Rightarrow> packet_connection option" where
  "inputs now [] pc = Some pc"
| "inputs now (m # ms) pc = (case packet_input now m pc of (Inr _, pc) \<Rightarrow> inputs now ms pc | (Inl _, _) \<Rightarrow> None)"

lemma inputs_append: "inputs now (ms @ ms') pc = Option.bind (inputs now ms pc) (inputs now ms')"
  by (induction ms arbitrary: pc) (auto split: prod.splits sum.splits)

lemma inputs_fragments:
  assumes "2 \<le> length cs" "length cs \<le> 255" "sum_list (map length cs) \<le> MAX_UDP_SIZE" "fragments pc k = None" "i < length cs"
  shows "\<exists>d. inputs now (map (frame_message s k a cs) [0..<i]) pc = Some (pc\<lparr>fragments := d\<rparr>) \<and> holds_seen now k a cs {..<i} d"
  using assms(5)
proof (induction i)
  case 0
  then show ?case
    using assms(4) by (intro exI [of _ "fragments pc"]) (simp add: holds_seen_def)
next
  case (Suc i)
  then obtain d where d: "inputs now (map (frame_message s k a cs) [0..<i]) pc = Some (pc\<lparr>fragments := d\<rparr>)" "holds_seen now k a cs {..<i} d"
    by auto
  note frag = frame_message_fragment [where i = i and cs = cs and s = s and k = k and a = a]
  have "insert (unat (fragment_id (frame_message s k a cs i))) {..<i} = {..<Suc i}"
    using Suc.prems by (simp add: frag(2) assms(2) lessThan_Suc)
  moreover have "{..<Suc i} \<noteq> {..<length cs}"
    using Suc.prems by (simp only: lessThan_eq_iff)
  ultimately have new: "insert (unat (fragment_id (frame_message s k a cs i))) {..<i} = {..<Suc i}" "{..<Suc i} \<noteq> {..<length cs}"
    by simp_all
  with feed_fragment(1) [OF d(2) frag(1) assms(1) _ order_refl _ assms(3) refl] Suc.prems assms(2)
  have "fst (feed now d (frame_message s k a cs i)) = Inr None" "holds_seen now k a cs {..<Suc i} (snd (feed now d (frame_message s k a cs i)))"
    by auto
  then show ?case
    using d(1) by (intro exI [of _ "snd (feed now d (frame_message s k a cs i))"])
      (cases "feed now d (frame_message s k a cs i)", simp add: inputs_append packet_input_def)
qed

lemma inputs_packet:
  assumes "0 < length cs" "length cs \<le> 255" "sum_list (map length cs) \<le> MAX_UDP_SIZE" "fragments pc k = None" "length (incoming pc) < 64"
  shows "\<exists>d. inputs now (map (frame_message s k a cs) [0..<length cs]) pc =
    Some (pc\<lparr>fragments := d, incoming := incoming pc @ [\<lparr>data = concat cs, destination = a\<rparr>]\<rparr>)"
proof (cases "length cs = 1")
  case True
  then obtain x where "cs = [x]" by (cases cs) auto
  then show ?thesis
    using assms(5) by (intro exI [of _ "fragments pc"]) (simp add: packet_input_def feed_def frame_message_def)
next
  case False
  then obtain n where n: "length cs = Suc n" "2 \<le> length cs"
    using assms(1) by (cases "length cs") auto
  obtain d where d: "inputs now (map (frame_message s k a cs) [0..<n]) pc = Some (pc\<lparr>fragments := d\<rparr>)" "holds_seen now k a cs {..<n} d"
    using inputs_fragments [OF n(2) assms(2-4), of n now s a] n(1) by auto
  note frag = frame_message_fragment [where i = n and cs = cs and s = s and k = k and a = a]
  have "insert (unat (fragment_id (frame_message s k a cs n))) {..<n} = {..<length cs}"
    using frag(2) n(1) assms(2) by (auto simp: lessThan_Suc)
  with feed_fragment(2) [OF d(2) frag(1) n(2) _ order_refl _ assms(3) refl] n(1) assms(2)
  have "fst (feed now d (frame_message s k a cs n)) = Inr (Some \<lparr>data = concat cs, destination = a\<rparr>)"
    by auto
  then show ?thesis
    using d(1) n(1) assms(5) by (intro exI [of _ "snd (feed now d (frame_message s k a cs n))"])
      (cases "feed now d (frame_message s k a cs n)", simp add: inputs_append packet_input_def)
qed

text \<open>The same on the server: the datagrams of a session go to its packet connection, which the first one opens.\<close>

lemma serve_live:
  assumes "decode_message d = Inr m" "udp_sessions c (session_id m) = Some n" "handles c n = Some pc" "packet_input now m pc = (Inr (), pc')"
  shows "serve_datagram now source u k d c = c\<lparr>handles := (handles c)(n \<mapsto> pc')\<rparr>"
  using assms by (simp add: serve_datagram_def session_handle_def)

lemma serve_new:
  assumes "decode_message d = Inr m" "session_handle (session_id m) c = None" "\<not> hy2_app_gone c"
    "packet_input now m (packet_connection_new now (session_id m)) = (Inr (), pc')"
  shows "serve_datagram now source u k d c = c\<lparr>next_handle := next_handle c + 1, handles := (handles c)(next_handle c \<mapsto> pc'),
    hy2_accepted := hy2_accepted c @ [Hy2Packet (msg_destination m) u source k (next_handle c)],
    udp_sessions := (udp_sessions c)(session_id m \<mapsto> next_handle c)\<rparr>"
  using assms by (simp add: serve_datagram_def open_session_def Let_def)

lemma serve_all_live:
  assumes "map decode_message ds = map Inr ms" "\<forall>m \<in> set ms. session_id m = sid" "udp_sessions c sid = Some n" "handles c n = Some pc"
    "inputs now ms pc = Some pc'"
  shows "fold (serve_datagram now source u k) ds c = c\<lparr>handles := (handles c)(n \<mapsto> pc')\<rparr>"
  using assms
proof (induction ms arbitrary: ds c pc)
  case Nil
  then have "ds = []" "pc' = pc" by auto
  moreover have "(handles c)(n \<mapsto> pc) = handles c" using Nil.prems(4) by auto
  ultimately show ?case by simp
next
  case (Cons m ms)
  then obtain d ds' where ds: "ds = d # ds'" "decode_message d = Inr m" "map decode_message ds' = map Inr ms" by auto
  obtain pc1 where pc1: "packet_input now m pc = (Inr (), pc1)" "inputs now ms pc1 = Some pc'"
    using Cons.prems(5) by (auto split: prod.splits sum.splits)
  have "serve_datagram now source u k d c = c\<lparr>handles := (handles c)(n \<mapsto> pc1)\<rparr>"
    using Cons.prems(2,3,4) by (intro serve_live [OF ds(2) _ _ pc1(1)]) simp_all
  with Cons.IH [OF ds(3) _ _ _ pc1(2), of "c\<lparr>handles := (handles c)(n \<mapsto> pc1)\<rparr>"] Cons.prems(2,3) show ?case
    by (simp add: ds(1) fun_upd_idem_iff flip: fun_upd_def)
qed

lemma serve_all_new:
  assumes "map decode_message ds = map Inr ms" "\<forall>m \<in> set ms. session_id m = sid \<and> msg_destination m = a" "ms \<noteq> []"
    "session_handle sid c = None" "\<not> hy2_app_gone c" "inputs now ms (packet_connection_new now sid) = Some pc'"
  shows "fold (serve_datagram now source u k) ds c = c\<lparr>next_handle := next_handle c + 1, handles := (handles c)(next_handle c \<mapsto> pc'),
    hy2_accepted := hy2_accepted c @ [Hy2Packet a u source k (next_handle c)],
    udp_sessions := (udp_sessions c)(sid \<mapsto> next_handle c)\<rparr>"
proof -
  obtain m ms' d ds' where ms: "ms = m # ms'" "ds = d # ds'" "decode_message d = Inr m" "map decode_message ds' = map Inr ms'"
    using assms(1,3) by (cases ms) auto
  obtain pc1 where pc1: "packet_input now m (packet_connection_new now sid) = (Inr (), pc1)" "inputs now ms' pc1 = Some pc'"
    using assms(6) ms(1) by (auto split: prod.splits sum.splits)
  let ?c = "c\<lparr>next_handle := next_handle c + 1, handles := (handles c)(next_handle c \<mapsto> pc1),
    hy2_accepted := hy2_accepted c @ [Hy2Packet a u source k (next_handle c)], udp_sessions := (udp_sessions c)(sid \<mapsto> next_handle c)\<rparr>"
  have "serve_datagram now source u k d c = ?c"
    using serve_new [OF ms(3), of c now pc1 source u k] assms(2,4,5) ms(1) pc1(1) by simp
  moreover have "fold (serve_datagram now source u k) ds' ?c = ?c\<lparr>handles := (handles ?c)(next_handle c \<mapsto> pc')\<rparr>"
    using assms(2) ms(1) by (intro serve_all_live [where sid = sid, OF ms(4) _ _ _ pc1(2)]) simp_all
  ultimately show ?thesis
    by (simp add: ms(2))
qed

text \<open>A packet for a session that does not live: one new session, and the packet is the first in its queue.\<close>

lemma serve_packet:
  assumes "accepts_all q" "packet_send q t0 p [] peer = (Inr (), ds, peer')"
    "normal_host (host (destination p))" "utf8_string (host (destination p))"
    "session_handle (conn_session peer) c = None" "\<not> hy2_app_gone c"
  shows "\<exists>d. fold (serve_datagram now source u k) ds c = c\<lparr>next_handle := next_handle c + 1,
      handles := (handles c)(next_handle c \<mapsto> (packet_connection_new now (conn_session peer))\<lparr>fragments := d, incoming := [p]\<rparr>),
      hy2_accepted := hy2_accepted c @ [Hy2Packet (destination p) u source k (next_handle c)],
      udp_sessions := (udp_sessions c)(conn_session peer \<mapsto> next_handle c)\<rparr>"
proof -
  let ?cs = "packet_chunks q p" and ?sid = "conn_session peer" and ?pid = "next_id (next_packet_id peer)"
  let ?ms = "map (frame_message ?sid ?pid (destination p) ?cs) [0..<length ?cs]"
  have send: "sendable q p" "ds = frames_of q ?sid ?pid p"
    using assms(2) by (auto simp: packet_send_cases send_frames_ok [OF assms(1)] split: if_splits)
  note facts = packet_chunks_facts [OF send(1)]
  have dec: "map decode_message ds = map Inr ?ms"
    using frames_of_decode [OF send(1) assms(3,4), of ?sid ?pid] by (simp add: send(2))
  obtain d where d: "inputs now ?ms (packet_connection_new now ?sid) =
      Some ((packet_connection_new now ?sid)\<lparr>fragments := d, incoming := [p]\<rparr>)"
    using inputs_packet [OF facts(2-4), of "packet_connection_new now ?sid" ?pid now ?sid "destination p"] facts(1)
    by (auto simp: packet_connection_new_def)
  have "\<forall>m \<in> set ?ms. session_id m = ?sid \<and> msg_destination m = destination p" "?ms \<noteq> []"
    using facts(2) by (auto simp: frame_message_def)
  from serve_all_new [OF dec this assms(5,6) d, of source u k] show ?thesis by blast
qed


section \<open>Properties\<close>

lemma packet_delivered:
  fixes peer
  defines "sid \<equiv> conn_session peer" and "pid \<equiv> next_id (next_packet_id peer)"
  assumes "hy2_start c0" "(hy2_any_step cfg)\<^sup>*\<^sup>* c0 c" "hy2_phase c = Serving u k"
    "accepts_all q" "packet_send q t0 p [] peer = (Inr (), frames, peer')"
    "normal_host (host (destination p))" "utf8_string (host (destination p))" "session_fragments sid c pid = None"
    "c1 = hy2_run cfg evs c" "c2 = hy2_step cfg (DatagramRead t1 source f) c1" "hy2_phase c1 = Serving u k" "hy2_phase c2 = Serving u k"
    "keeps_session cfg sid evs c"
    "\<forall>(now, m) \<in> set (session_messages sid (evs @ [DatagramRead t1 source f])). t \<le> now \<and> now \<le> t + FRAGMENT_LIFETIME \<and>
      (packet_id m = pid \<longrightarrow> (\<exists>g \<in> set frames. decode_message g = Inr m))"
    "\<forall>g \<in> set frames. decode_message g \<in> Inr ` snd ` set (session_messages sid (evs @ [DatagramRead t1 source f]))"
    "f \<in> set frames" "decode_message f \<notin> Inr ` snd ` set (session_messages sid evs)"
  shows "\<exists>pc. session_conn sid c2 = Some pc \<and>
    (let queue = (case session_conn sid c1 of None \<Rightarrow> [] | Some pc \<Rightarrow> incoming pc)
     in incoming pc = (if length queue < 64 then queue @ [p] else queue) \<and>
        (queue = [] \<longrightarrow> fst (packet_recv pick t2 None pc) = Some (Inr p))) \<and>
    (session_handle sid c1 = None \<longrightarrow>
       hy2_accepted c2 = hy2_accepted c1 @ [Hy2Packet (destination p) u source k (next_handle c1)])"
proof -
  have send: "sendable q p" "frames = frames_of q sid pid p"
    using assms(7) by (auto simp: packet_send_cases send_frames_ok [OF assms(6)] sid_def pid_def split: if_splits)
  have ok: "sessions_ok c"
    by (rule hy2_system.reachable_inv [OF assms(3,4)])
  then have ok1: "sessions_ok c1"
    unfolding assms(11) by (rule hy2_run_ok)
  obtain m where m: "decode_message f = Inr m" "session_id m = sid" "msg_destination m = destination p"
  proof -
    have "decode_message f \<in> set (map decode_message (frames_of q sid pid p))"
      using assms(18) send(2) by simp
    then show thesis
      unfolding frames_of_decode [OF send(1) assms(8,9)] by (auto simp: frame_message_def intro: that)
  qed
  have msgs: "session_messages sid (evs @ [DatagramRead t1 source f]) = session_messages sid evs @ [(t1, m)]"
    by (simp add: session_messages_def m)
  have frag: "session_fragments sid c1 = feed_all (session_fragments sid c) (session_messages sid evs)"
    unfolding assms(11) by (rule hy2_run_fragments [OF ok assms(5) assms(13) [unfolded assms(11)] assms(15)])
  have "fst (feed t1 (session_fragments sid c1) m) = Inr (Some p)"
    unfolding frag
  proof (rule frames_reassemble [OF send(1) assms(8,9), where d = "session_fragments sid c" and k = pid and s = sid and t = t])
    show "\<exists>f \<in> set (frames_of q sid pid p). decode_message f \<notin> Inr ` snd ` set (session_messages sid evs)"
      using assms(18,19) send(2) by blast
  qed (use assms(10,16,17) in \<open>simp_all only: msgs send(2)\<close>)
  then have input: "packet_input t1 m pc =
      (Inr (), pc\<lparr>fragments := snd (feed t1 (fragments pc) m),
                  incoming := (if length (incoming pc) < 64 then incoming pc @ [p] else incoming pc)\<rparr>)"
    if "fragments pc = session_fragments sid c1" for pc
    by (cases "feed t1 (session_fragments sid c1) m") (simp add: packet_input_def that)
  have c2: "c2 = serve_datagram t1 source u k f c1"
    using assms(12,13) by simp
  note step = serve_datagram_session [OF ok1 m(1) assms(14) [unfolded c2], of sid, folded c2]
  have before: "incoming (session_before t1 sid c1) = (case session_conn sid c1 of None \<Rightarrow> [] | Some pc \<Rightarrow> incoming pc)"
    by (simp add: session_before_def packet_connection_new_def split: option.splits)
  show ?thesis
    using step serve_datagram_accepts(1) [OF m(1) assms(14) [unfolded c2], folded c2]
    by (simp add: m(2,3) input [OF fragments_session_before] before packet_recv_def Let_def)
qed

text \<open>
  (C14) UDP end to end: a packet that a peer's \<open>send\<close> cut into datagrams reaches the application of the server.
  While the connection serves, whatever else arrives and is done meanwhile, once the last missing
  datagram of the packet is read (all within the fragment lifetime, in any order, repeated, mixed with other packets
  and sessions) the packet is the newest in the queue of its session, unless 64 wait there already, and
  \<open>recv\<close> returns it when nothing is queued before it. A session that did not exist is announced with the
  packet's destination.
\<close>

theorem hysteria2_udp_delivery:
  fixes peer
  defines "sid \<equiv> conn_session peer" and "pid \<equiv> next_id (next_packet_id peer)"
  assumes "hy2_start c0" "(hy2_any_step cfg)\<^sup>*\<^sup>* c0 c" "hy2_phase c = Serving u k"
    "accepts_all q" "packet_send q t0 p [] peer = (Inr (), frames, peer')"
    "normal_host (host (destination p))" "utf8_string (host (destination p))" "session_fragments sid c pid = None"
    "c1 = hy2_run cfg evs c" "c2 = hy2_step cfg (DatagramRead t1 source f) c1" "hy2_phase c1 = Serving u k" "hy2_phase c2 = Serving u k"
    "keeps_session cfg sid evs c"
    "\<forall>(now, m) \<in> set (session_messages sid (evs @ [DatagramRead t1 source f])). t \<le> now \<and> now \<le> t + FRAGMENT_LIFETIME \<and>
      (packet_id m = pid \<longrightarrow> (\<exists>g \<in> set frames. decode_message g = Inr m))"
    "\<forall>g \<in> set frames. decode_message g \<in> Inr ` snd ` set (session_messages sid (evs @ [DatagramRead t1 source f]))"
    "f \<in> set frames" "decode_message f \<notin> Inr ` snd ` set (session_messages sid evs)"
  shows "\<exists>pc. session_conn sid c2 = Some pc \<and>
    (let queue = (case session_conn sid c1 of None \<Rightarrow> [] | Some pc \<Rightarrow> incoming pc)
     in incoming pc = (if length queue < 64 then queue @ [p] else queue) \<and>
        (queue = [] \<longrightarrow> fst (packet_recv pick t2 None pc) = Some (Inr p))) \<and>
    (session_handle sid c1 = None \<longrightarrow>
       hy2_accepted c2 = hy2_accepted c1 @ [Hy2Packet (destination p) u source k (next_handle c1)])"
  using packet_delivered [where c = c and peer = peer, OF assms(3-7) assms(8-19) [unfolded sid_def pid_def]]
  unfolding sid_def pid_def .

definition tiny_packet :: hysteria2_packet where
  "tiny_packet = \<lparr>data = [9], destination = \<lparr>host = ''a'', port = 1\<rparr>\<rparr>"

definition tiny_frame :: bytes where
  "tiny_frame = encode_message 1 1 0 1 ''a:1'' (qv_encode 3) [9]"

lemma small_sender_accepts: "accepts_all small_sender"
  by (simp add: accepts_all_def small_sender_def)

lemma tiny_sent: "packet_send small_sender 0 tiny_packet [] (packet_connection_new 0 1) =
    (Inr (), [tiny_frame], (packet_connection_new 0 1)\<lparr>next_packet_id := 1\<rparr>)"
proof -
  have "sendable small_sender tiny_packet" "frames_of small_sender 1 1 tiny_packet = [tiny_frame]" "next_id 0 = 1"
    by code_simp+
  then show ?thesis
    by (simp add: packet_send_cases small_sender_def [THEN arg_cong, of send_datagram] packet_connection_new_def)
qed

lemma tiny_decoded: "decode_message tiny_frame = Inr \<lparr>session_id = 1, packet_id = 1, fragment_id = 0, fragment_total = 1,
    msg_destination = \<lparr>host = ''a'', port = 1\<rparr>, msg_data = [9]\<rparr>"
  unfolding tiny_frame_def by (rule demo_message)

theorem hysteria2_udp_delivery_witness:
  "\<exists>pc. session_conn 1 (hy2_step demo_config (DatagramRead 5 (cfg_source demo_config) tiny_frame) demo_serving) = Some pc \<and>
     fst (packet_recv True 6 None pc) = Some (Inr tiny_packet)"
proof -
  let ?h = "[0 \<mapsto> \<lparr>controller = (Bbr, 1200), kind = Bbr, current_mtu = 1200\<rparr>] :: (congestion_kind \<times> u16) cc_heap"
  let ?src = "cfg_source demo_config" and ?peer = "packet_connection_new 0 1"
  let ?ev = "DatagramRead 5 ?src tiny_frame"
  let ?c2 = "hy2_step demo_config ?ev demo_serving"
  have "hy2_any_step demo_config (hy2_init ?h) demo_serving"
    unfolding hy2_any_step_def demo_serving_def by blast
  then have run: "(hy2_any_step demo_config)\<^sup>*\<^sup>* (hy2_init ?h) demo_serving" by blast
  have start: "hy2_start (hy2_init ?h)" by (auto simp: hy2_start_def)
  have peer: "conn_session ?peer = 1" "next_id (next_packet_id ?peer) = 1"
    by (simp_all add: packet_connection_new_def next_id_def)
  have msgs: "session_messages 1 [?ev] = [(5, \<lparr>session_id = 1, packet_id = 1, fragment_id = 0, fragment_total = 1,
      msg_destination = \<lparr>host = ''a'', port = 1\<rparr>, msg_data = [9]\<rparr>)]" "session_messages 1 [] = []"
    by (simp_all add: session_messages_def tiny_decoded)
  have none: "session_conn 1 demo_serving = None" "session_fragments 1 demo_serving = Map.empty"
    by (simp_all add: session_fragments_def session_conn_alt demo_serving_phase)
  have phase: "hy2_phase ?c2 = Serving ''bob'' Bbr"
    by (simp add: demo_serving_phase serve_datagram_def tiny_decoded session_handle_def open_session_def packet_input_def feed_def
        packet_connection_new_def Let_def)
  have "\<exists>pc. session_conn (conn_session ?peer) ?c2 = Some pc \<and>
    (let queue = (case session_conn (conn_session ?peer) demo_serving of None \<Rightarrow> [] | Some pc \<Rightarrow> incoming pc)
     in incoming pc = (if length queue < 64 then queue @ [tiny_packet] else queue) \<and>
        (queue = [] \<longrightarrow> fst (packet_recv True 6 None pc) = Some (Inr tiny_packet))) \<and>
    (session_handle (conn_session ?peer) demo_serving = None \<longrightarrow>
       hy2_accepted ?c2 = hy2_accepted demo_serving @ [Hy2Packet (destination tiny_packet) ''bob'' ?src Bbr (next_handle demo_serving)])"
  proof (rule hysteria2_udp_delivery [where q = small_sender and evs = "[]" and c = demo_serving and t = 5 and u = "''bob''" and k = Bbr, OF start run _ _ tiny_sent])
    show "accepts_all small_sender" by (rule small_sender_accepts)
    show "normal_host (host (destination tiny_packet))" "utf8_string (host (destination tiny_packet))"
      by code_simp+
    show "\<forall>(now, m) \<in> set (session_messages (conn_session ?peer) ([] @ [?ev])). 5 \<le> now \<and> now \<le> 5 + FRAGMENT_LIFETIME \<and>
      (packet_id m = next_id (next_packet_id ?peer) \<longrightarrow> (\<exists>g \<in> set [tiny_frame]. decode_message g = Inr m))"
      unfolding peer append_Nil msgs by (simp add: tiny_decoded)
    show "\<forall>g \<in> set [tiny_frame]. decode_message g \<in> Inr ` snd ` set (session_messages (conn_session ?peer) ([] @ [?ev]))"
      unfolding peer append_Nil msgs by (simp add: tiny_decoded)
  qed (use phase in \<open>simp_all add: peer msgs none tiny_decoded hy2_run_def demo_serving_phase del: hy2_step.simps\<close>)
  then show ?thesis
    by (auto simp: peer none simp del: hy2_step.simps)
qed

end
