(* ===== verification/Accept_Loop.thy ===== *)
theory Accept_Loop
  imports Sq_IO
begin

text \<open>
  The shape both servers of the crate share (\<open>bind_inner\<close> of \<open>src/src/shadowquic/mod.rs\<close> and the \<open>bind\<close>
  functions of \<open>src/src/hysteria2/server.rs\<close>): an accept task that spawns one task per incoming connection
  with a snapshot of the configuration, tasks that put what they accept on one bounded channel, and
  \<open>Server::accept\<close> that takes from it. It is parametrised by what a connection does; the locale states
  what a connection has to guarantee and what then holds for the server as a whole.
\<close>


section \<open>The server\<close>

text \<open>
  A connection task: the configuration it was started with, how the connection came in, the events it
  has seen, its state, and how much of what it accepted is on the channel already. The events and
  the two facts of the start are kept to state properties; the program does not store them.
\<close>

record ('cfg, 'in, 'ev, 'conn) task =
  task_config :: 'cfg
  task_incoming :: 'in
  task_events :: "'ev list"
  task_conn :: 'conn
  task_sent :: nat

text \<open>Items on the channel carry the number of their connection; \<open>ac_taken\<close> is what \<open>accept\<close> returned so far.\<close>

record ('cfg, 'in, 'ev, 'conn, 'a) accept_state =
  ac_config :: 'cfg
  ac_open :: bool
  ac_tasks :: "('cfg, 'in, 'ev, 'conn) task list"
  ac_queue :: "(nat \<times> 'a) list"
  ac_taken :: "(nat \<times> 'a) list"

definition accept_init :: "'cfg \<Rightarrow> ('cfg, 'in, 'ev, 'conn, 'a) accept_state" where
  "accept_init cfg = \<lparr>ac_config = cfg, ac_open = True, ac_tasks = [], ac_queue = [], ac_taken = []\<rparr>"

definition ACCEPT_CAPACITY :: nat where
  "ACCEPT_CAPACITY = 256"

datatype ('cfg, 'in, 'ev) server_event =
    Incoming 'in
  | OnTask nat 'ev
  | SendNext nat
  | TakeNext
  | Reconfigure 'cfg
  | CloseServer

text \<open>\<open>Server::accept\<close>; \<open>gone\<close> tells whether every sender of the channel has been dropped.\<close>

definition server_accept ::
  "bool \<Rightarrow> ('cfg, 'in, 'ev, 'conn, 'a) accept_state \<Rightarrow> 'a result option \<times> ('cfg, 'in, 'ev, 'conn, 'a) accept_state" where
  "server_accept gone s = (case ac_queue s of
       x # xs \<Rightarrow> (Some (Inr (snd x)), s\<lparr>ac_queue := xs, ac_taken := ac_taken s @ [x]\<rparr>)
     | [] \<Rightarrow> (if gone then Some (Inl Closed) else None, s))"

text \<open>\<open>Server::close\<close>: the endpoint stops, so the accept task gets no more connections.\<close>

definition server_close :: "('cfg, 'in, 'ev, 'conn, 'a) accept_state \<Rightarrow> ('cfg, 'in, 'ev, 'conn, 'a) accept_state" where
  "server_close s = s\<lparr>ac_open := False\<rparr>"

text \<open>
  \<open>start\<close> is what the spawned task does first (nothing remains of a connection that fails there), \<open>step\<close>
  one event of it, \<open>accepted\<close> what it has accepted so far. A task whose item does not fit waits.
\<close>

fun server_step ::
  "('cfg \<Rightarrow> 'in \<Rightarrow> 'conn option) \<Rightarrow> ('cfg \<Rightarrow> 'in \<Rightarrow> 'ev \<Rightarrow> 'conn \<Rightarrow> 'conn) \<Rightarrow> ('conn \<Rightarrow> 'a list) \<Rightarrow>
   ('cfg, 'in, 'ev) server_event \<Rightarrow> ('cfg, 'in, 'ev, 'conn, 'a) accept_state \<Rightarrow> ('cfg, 'in, 'ev, 'conn, 'a) accept_state" where
  "server_step start step accepted (Incoming i) s =
     (if ac_open s
      then case start (ac_config s) i of
             None \<Rightarrow> s
           | Some c \<Rightarrow> s\<lparr>ac_tasks := ac_tasks s @
               [\<lparr>task_config = ac_config s, task_incoming = i, task_events = [], task_conn = c, task_sent = 0\<rparr>]\<rparr>
      else s)"
| "server_step start step accepted (OnTask n ev) s =
     (if n < length (ac_tasks s)
      then let t = ac_tasks s ! n
           in s\<lparr>ac_tasks := (ac_tasks s)[n := t\<lparr>task_events := task_events t @ [ev],
                  task_conn := step (task_config t) (task_incoming t) ev (task_conn t)\<rparr>]\<rparr>
      else s)"
| "server_step start step accepted (SendNext n) s =
     (if n < length (ac_tasks s) \<and> task_sent (ac_tasks s ! n) < length (accepted (task_conn (ac_tasks s ! n))) \<and>
         length (ac_queue s) < ACCEPT_CAPACITY
      then let t = ac_tasks s ! n
           in s\<lparr>ac_queue := ac_queue s @ [(n, accepted (task_conn t) ! task_sent t)],
                ac_tasks := (ac_tasks s)[n := t\<lparr>task_sent := task_sent t + 1\<rparr>]\<rparr>
      else s)"
| "server_step start step accepted TakeNext s = snd (server_accept False s)"
| "server_step start step accepted (Reconfigure cfg) s = s\<lparr>ac_config := cfg\<rparr>"
| "server_step start step accepted CloseServer s = server_close s"

text \<open>Connections keep the settings they started with; a new one gets those of the moment.\<close>

lemma server_step_settings:
  assumes "n < length (ac_tasks (server_step start step accepted ev s))"
  shows "task_config (ac_tasks (server_step start step accepted ev s) ! n) =
    (if n < length (ac_tasks s) then task_config (ac_tasks s ! n) else ac_config s)"
  using assms
  by (cases ev) (auto simp: server_accept_def server_close_def Let_def nth_append nth_list_update
      split: if_splits option.splits list.splits)

lemma server_step_tasks: "length (ac_tasks s) \<le> length (ac_tasks (server_step start step accepted ev s))"
  by (cases ev) (auto simp: server_accept_def server_close_def Let_def split: option.splits list.splits)

lemma server_step_configs:
  "task_config ` set (ac_tasks (server_step start step accepted ev s)) \<subseteq> insert (ac_config s) (task_config ` set (ac_tasks s))"
  using server_step_settings [of _ start step accepted ev s] by (fastforce simp: in_set_conv_nth split: if_splits)

lemma server_step_config:
  "ac_config (server_step start step accepted ev s) = (case ev of Reconfigure cfg \<Rightarrow> cfg | _ \<Rightarrow> ac_config s)"
  by (cases ev) (auto simp: server_accept_def server_close_def Let_def split: option.splits list.splits)

definition items_of :: "nat \<Rightarrow> (nat \<times> 'a) list \<Rightarrow> 'a list" where
  "items_of n xs = map snd (filter (\<lambda>x. fst x = n) xs)"

lemma items_of_simps [simp]:
  "items_of n [] = []" "items_of n (xs @ ys) = items_of n xs @ items_of n ys"
  "items_of n (x # xs) = (if fst x = n then snd x # items_of n xs else items_of n xs)"
  by (simp_all add: items_of_def)

lemma items_of_in: "(n, a) \<in> set xs \<longleftrightarrow> a \<in> set (items_of n xs)"
  by (force simp: items_of_def)


section \<open>The invariant\<close>

definition task_ok ::
  "('cfg \<Rightarrow> 'in \<Rightarrow> 'conn option) \<Rightarrow> ('cfg \<Rightarrow> 'in \<Rightarrow> 'ev \<Rightarrow> 'conn \<Rightarrow> 'conn) \<Rightarrow> ('cfg, 'in, 'ev, 'conn) task \<Rightarrow> bool" where
  "task_ok start step t \<longleftrightarrow> (\<exists>c. start (task_config t) (task_incoming t) = Some c \<and>
     task_conn t = fold (step (task_config t) (task_incoming t)) (task_events t) c)"

text \<open>
  The channel holds at most its capacity, every item belongs to a connection, and the items of a
  connection are the beginning of what it accepted, in order.
\<close>

definition accept_inv ::
  "('cfg \<Rightarrow> 'in \<Rightarrow> 'conn option) \<Rightarrow> ('cfg \<Rightarrow> 'in \<Rightarrow> 'ev \<Rightarrow> 'conn \<Rightarrow> 'conn) \<Rightarrow> ('conn \<Rightarrow> 'a list) \<Rightarrow>
   ('cfg, 'in, 'ev, 'conn, 'a) accept_state \<Rightarrow> bool" where
  "accept_inv start step accepted s \<longleftrightarrow>
     length (ac_queue s) \<le> ACCEPT_CAPACITY \<and>
     (\<forall>x \<in> set (ac_taken s @ ac_queue s). fst x < length (ac_tasks s)) \<and>
     (\<forall>n < length (ac_tasks s). task_ok start step (ac_tasks s ! n) \<and>
        task_sent (ac_tasks s ! n) \<le> length (accepted (task_conn (ac_tasks s ! n))) \<and>
        items_of n (ac_taken s @ ac_queue s) = take (task_sent (ac_tasks s ! n)) (accepted (task_conn (ac_tasks s ! n))))"

lemma accept_inv_init: "accept_inv start step accepted (accept_init cfg)"
  by (simp add: accept_inv_def accept_init_def)

lemma accept_inv_update:
  assumes "accept_inv start step accepted s" "n < length (ac_tasks s)" "task_ok start step t" "task_sent t \<le> length (accepted (task_conn t))"
    "items_of n (ac_taken s @ ac_queue s) = take (task_sent t) (accepted (task_conn t))"
  shows "accept_inv start step accepted (s\<lparr>ac_tasks := (ac_tasks s)[n := t]\<rparr>)"
  using assms by (auto simp: accept_inv_def nth_list_update)

locale connection_service =
  fixes start :: "'cfg \<Rightarrow> 'in \<Rightarrow> 'conn option"
    and step :: "'cfg \<Rightarrow> 'in \<Rightarrow> 'ev \<Rightarrow> 'conn \<Rightarrow> 'conn"
    and accepted :: "'conn \<Rightarrow> 'a list"
    and allowed :: "'cfg \<Rightarrow> 'in \<Rightarrow> 'ev list \<Rightarrow> 'a \<Rightarrow> bool"
  assumes run_allowed:
      "start cfg i = Some c \<Longrightarrow> a \<in> set (accepted (fold (step cfg i) evs c)) \<Longrightarrow> allowed cfg i evs a"
    and accepted_grows: "\<exists>more. accepted (step cfg i ev c) = accepted c @ more"
begin

lemma incoming_inv:
  assumes "accept_inv start step accepted s"
  shows "accept_inv start step accepted (server_step start step accepted (Incoming i) s)"
proof (cases "if ac_open s then start (ac_config s) i else None")
  case None
  then show ?thesis using assms by (auto split: if_splits)
next
  case (Some c)
  let ?t = "\<lparr>task_config = ac_config s, task_incoming = i, task_events = [], task_conn = c, task_sent = 0\<rparr>"
  have new: "server_step start step accepted (Incoming i) s = s\<lparr>ac_tasks := ac_tasks s @ [?t]\<rparr>"
    using Some by (auto split: if_splits)
  have "fst x \<noteq> length (ac_tasks s)" if "x \<in> set (ac_taken s @ ac_queue s)" for x
    using assms that unfolding accept_inv_def by (metis less_irrefl)
  then have fresh: "items_of (length (ac_tasks s)) (ac_taken s @ ac_queue s) = []"
    unfolding items_of_def map_is_Nil_conv filter_empty_conv by blast
  have "task_ok start step ?t"
    using Some by (simp add: task_ok_def split: if_splits)
  then show ?thesis
    using assms fresh unfolding new by (auto simp: accept_inv_def nth_append less_Suc_eq)
qed

lemma on_task_inv:
  assumes "accept_inv start step accepted s"
  shows "accept_inv start step accepted (server_step start step accepted (OnTask n ev) s)"
proof (cases "n < length (ac_tasks s)")
  case True
  define t where "t = ac_tasks s ! n"
  let ?t = "t\<lparr>task_events := task_events t @ [ev], task_conn := step (task_config t) (task_incoming t) ev (task_conn t)\<rparr>"
  obtain more where more: "accepted (task_conn ?t) = accepted (task_conn t) @ more"
    using accepted_grows by fastforce
  have ok: "task_ok start step t" "task_sent t \<le> length (accepted (task_conn t))"
    "items_of n (ac_taken s @ ac_queue s) = take (task_sent t) (accepted (task_conn t))"
    using assms True unfolding accept_inv_def t_def by auto
  then have ok': "task_ok start step ?t" "task_sent ?t \<le> length (accepted (task_conn ?t))"
    "items_of n (ac_taken s @ ac_queue s) = take (task_sent ?t) (accepted (task_conn ?t))"
    using more by (auto simp: task_ok_def)
  have "server_step start step accepted (OnTask n ev) s = s\<lparr>ac_tasks := (ac_tasks s)[n := ?t]\<rparr>"
    using True by (simp add: t_def Let_def)
  then show ?thesis
    using accept_inv_update [OF assms True ok'] by simp
qed (use assms in simp)

lemma send_inv:
  assumes "accept_inv start step accepted s"
  shows "accept_inv start step accepted (server_step start step accepted (SendNext n) s)"
proof (cases "n < length (ac_tasks s) \<and> task_sent (ac_tasks s ! n) < length (accepted (task_conn (ac_tasks s ! n))) \<and>
    length (ac_queue s) < ACCEPT_CAPACITY")
  case True
  define t where "t = ac_tasks s ! n"
  have ok: "task_ok start step t" "items_of n (ac_taken s @ ac_queue s) = take (task_sent t) (accepted (task_conn t))"
    using assms True unfolding accept_inv_def t_def by auto
  have "server_step start step accepted (SendNext n) s =
      s\<lparr>ac_queue := ac_queue s @ [(n, accepted (task_conn t) ! task_sent t)],
        ac_tasks := (ac_tasks s)[n := t\<lparr>task_sent := task_sent t + 1\<rparr>]\<rparr>"
    using True by (simp add: t_def Let_def)
  moreover have "task_ok start step (t\<lparr>task_sent := task_sent t + 1\<rparr>)"
    using ok(1) by (simp add: task_ok_def)
  ultimately show ?thesis
    using assms True ok(2)
    by (auto simp: accept_inv_def nth_list_update take_Suc_conv_app_nth simp flip: t_def)
next
  case False
  then have "server_step start step accepted (SendNext n) s = s"
    unfolding server_step.simps by (rule if_not_P)
  then show ?thesis using assms by simp
qed

lemma server_step_inv:
  assumes "accept_inv start step accepted s"
  shows "accept_inv start step accepted (server_step start step accepted ev s)"
proof (cases ev)
  case TakeNext
  then show ?thesis
    using assms by (cases "ac_queue s") (auto simp: server_accept_def accept_inv_def)
next
  case CloseServer
  then show ?thesis using assms by (simp add: server_close_def accept_inv_def)
next
  case (Reconfigure cfg)
  then show ?thesis using assms by (simp add: accept_inv_def)
qed (use incoming_inv [OF assms] on_task_inv [OF assms] send_inv [OF assms] in simp_all)

lemma delivered_allowed:
  assumes "accept_inv start step accepted s" "(n, a) \<in> set (ac_taken s @ ac_queue s)"
  shows "n < length (ac_tasks s) \<and>
    allowed (task_config (ac_tasks s ! n)) (task_incoming (ac_tasks s ! n)) (task_events (ac_tasks s ! n)) a"
proof -
  have n: "n < length (ac_tasks s)"
    using assms by (force simp: accept_inv_def)
  moreover have "a \<in> set (accepted (task_conn (ac_tasks s ! n)))"
    using assms n unfolding accept_inv_def items_of_in by (metis in_set_takeD)
  moreover have "task_ok start step (ac_tasks s ! n)"
    using assms n by (simp add: accept_inv_def)
  ultimately show ?thesis
    using run_allowed by (auto simp: task_ok_def)
qed

end

end
