(* ===== verification/Hy2_Endpoint.thy ===== *)
theory Hy2_Endpoint
  imports Hy2_Server Accept_Loop
begin

text \<open>
  The whole Hysteria2 server of \<open>src/src/hysteria2/server.rs\<close>: binding, the accept task, certificate
  updates and \<open>Server::accept\<close>. Its users and bandwidth are fixed at binding, so every connection is
  judged by the same password table.
\<close>

record hy2_server =
  hy2s_endpoint :: endpoint
  hy2s_transport_options :: quic_transport_options
  hy2s_users :: "string \<rightharpoonup> string"
  hy2s_bandwidth :: server_bandwidth
  hy2s_masquerade :: "masquerade_handler option"

definition hy2_bind_with_bandwidth_and_transport_and_masquerade ::
  "tls_library \<Rightarrow> os_calls \<Rightarrow> hy2_server_options \<Rightarrow> server_bandwidth \<Rightarrow> quic_transport_options \<Rightarrow>
   masquerade_handler option \<Rightarrow> hy2_server result \<times> socket_trace" where
  "hy2_bind_with_bandwidth_and_transport_and_masquerade lib os options bandwidth transport_options masquerade =
     (case hy2_build_server_config lib (hso_certificate_chain options) (hso_private_key options) transport_options of
        Inl e \<Rightarrow> (Inl e, [], [])
      | Inr config \<Rightarrow>
          (case bind_endpoint os (hso_listen options) (Some config) of
             (Inl e, trace) \<Rightarrow> (Inl (Io e), trace)
           | (Inr ep, trace) \<Rightarrow>
               (Inr \<lparr>hy2s_endpoint = ep, hy2s_transport_options = transport_options,
                     hy2s_users = hy2_users (hso_users options), hy2s_bandwidth = bandwidth, hy2s_masquerade = masquerade\<rparr>, trace)))"

definition server_bandwidth_default :: server_bandwidth where
  "server_bandwidth_default = \<lparr>server_send_bps = 0, server_receive_bps = 0, ignore_client_bandwidth = False,
     server_disable_loss_compensation = False, server_brutal_debug = False\<rparr>"

definition hy2_bind_with_bandwidth_and_masquerade where
  "hy2_bind_with_bandwidth_and_masquerade lib os options bandwidth masquerade =
     hy2_bind_with_bandwidth_and_transport_and_masquerade lib os options bandwidth quic_transport_options_default masquerade"

definition hy2_bind_with_bandwidth where
  "hy2_bind_with_bandwidth lib os options bandwidth = hy2_bind_with_bandwidth_and_masquerade lib os options bandwidth None"

definition hy2_bind where
  "hy2_bind lib os options = hy2_bind_with_bandwidth lib os options server_bandwidth_default"

definition hy2_update_certificate ::
  "tls_library \<Rightarrow> bytes list \<Rightarrow> bytes \<Rightarrow> hy2_server \<Rightarrow> unit result \<times> hy2_server" where
  "hy2_update_certificate lib certificate_chain private_key s =
     (case hy2_build_server_config lib certificate_chain private_key (hy2s_transport_options s) of
        Inl e \<Rightarrow> (Inl e, s)
      | Inr config \<Rightarrow> (Inr (), s\<lparr>hy2s_endpoint := (hy2s_endpoint s)\<lparr>endpoint_server := Some config\<rparr>\<rparr>))"

definition hy2_server_local_addr :: "os_calls \<Rightarrow> hy2_server \<Rightarrow> socket_addr result" where
  "hy2_server_local_addr os s = endpoint_local_addr os (hy2s_endpoint s)"


section \<open>The accept task\<close>

record 'c hy2_incoming =
  hinc_error :: "connection_error option"
  hinc_connection :: "'c cc_connection"
  hinc_heap :: "'c cc_heap"
  hinc_source :: socket_addr
  hinc_rng :: rng
  hinc_respond :: "auth_response \<Rightarrow> string option"

definition hy2_connection_config ::
  "('c, 'r, 'p, 'm) controller_ops \<Rightarrow> (string \<Rightarrow> string option) \<Rightarrow> hy2_server \<Rightarrow> 'c hy2_incoming \<Rightarrow> ('c, 'r, 'p, 'm) hy2_config" where
  "hy2_connection_config ops to_str s i =
     \<lparr>cfg_to_str = to_str, cfg_users = hy2s_users s, cfg_bandwidth = hy2s_bandwidth s, cfg_ops = ops,
      cfg_connection = hinc_connection i,
      cfg_source = hinc_source i, cfg_masquerade = hy2s_masquerade s, cfg_rng = hinc_rng i, cfg_respond = hinc_respond i\<rparr>"

definition hy2_accept_connection :: "hy2_server \<Rightarrow> 'c hy2_incoming \<Rightarrow> 'c hy2_connection option" where
  "hy2_accept_connection s i = (case hinc_error i of Some e \<Rightarrow> None | None \<Rightarrow> Some (hy2_init (hinc_heap i)))"

definition hy2_connection_step ::
  "('c, 'r, 'p, 'm) controller_ops \<Rightarrow> (string \<Rightarrow> string option) \<Rightarrow> hy2_server \<Rightarrow> 'c hy2_incoming \<Rightarrow> hy2_event \<Rightarrow>
   'c hy2_connection \<Rightarrow> 'c hy2_connection" where
  "hy2_connection_step ops to_str s i ev c = hy2_step (hy2_connection_config ops to_str s i) ev c"

datatype 'c hy2_server_event =
    Hy2Incoming "'c hy2_incoming"
  | Hy2Connection nat hy2_event
  | Hy2Send nat
  | Hy2Accept
  | Hy2UpdateCertificate tls_library "bytes list" bytes
  | Hy2Close

type_synonym 'c hy2_state = "(hy2_server, 'c hy2_incoming, hy2_event, 'c hy2_connection, hy2_accepted) accept_state"

fun hy2_event_of :: "hy2_server \<Rightarrow> 'c hy2_server_event \<Rightarrow> (hy2_server, 'c hy2_incoming, hy2_event) server_event" where
  "hy2_event_of s (Hy2Incoming i) = Incoming i"
| "hy2_event_of s (Hy2Connection n ev) = OnTask n ev"
| "hy2_event_of s (Hy2Send n) = SendNext n"
| "hy2_event_of s Hy2Accept = TakeNext"
| "hy2_event_of s (Hy2UpdateCertificate lib chain key) = Reconfigure (snd (hy2_update_certificate lib chain key s))"
| "hy2_event_of s Hy2Close = CloseServer"

definition hy2_server_step ::
  "('c, 'r, 'p, 'm) controller_ops \<Rightarrow> (string \<Rightarrow> string option) \<Rightarrow> 'c hy2_server_event \<Rightarrow> 'c hy2_state \<Rightarrow> 'c hy2_state" where
  "hy2_server_step ops to_str ev s =
     server_step hy2_accept_connection (hy2_connection_step ops to_str) hy2_accepted (hy2_event_of (ac_config s) ev) s"

definition hy2_server_run ::
  "('c, 'r, 'p, 'm) controller_ops \<Rightarrow> (string \<Rightarrow> string option) \<Rightarrow> 'c hy2_server_event list \<Rightarrow> 'c hy2_state \<Rightarrow> 'c hy2_state" where
  "hy2_server_run ops to_str evs s = fold (hy2_server_step ops to_str) evs s"


text \<open>\<open>Server::accept\<close> and \<open>Server::close\<close>.\<close>

definition hy2_server_accept where
  "hy2_server_accept gone (s :: 'c hy2_state) = server_accept gone s"

definition hy2_server_close where
  "hy2_server_close (s :: 'c hy2_state) = server_close s"


section \<open>What a connection guarantees\<close>

text \<open>A request of the connection carried a password of the table, and the item is its user's.\<close>

definition hy2_allowed ::
  "('c, 'r, 'p, 'm) controller_ops \<Rightarrow> (string \<Rightarrow> string option) \<Rightarrow> hy2_server \<Rightarrow> 'c hy2_incoming \<Rightarrow> hy2_event list \<Rightarrow> hy2_accepted \<Rightarrow> bool" where
  "hy2_allowed ops to_str s i evs a \<longleftrightarrow>
     (\<exists>ev \<in> set evs. logs_in (hy2_connection_config ops to_str s i) ev (hy2_accepted_user a))"

lemma first_request_accepted: "hy2_accepted (first_request cfg now request stream c) = hy2_accepted c"
  by (cases rule: first_request_cases [where cfg = cfg and now = now and request = request and stream = stream and c = c])
    (simp_all add: to_masquerade_def)

lemma serve_datagram_grows: "\<exists>more. hy2_accepted (serve_datagram now source u k d c) = hy2_accepted c @ more"
  by (auto simp: serve_datagram_def open_session_def Let_def split: sum.splits prod.splits option.splits)

lemma hy2_step_grows: "\<exists>more. hy2_accepted (hy2_step cfg ev c) = hy2_accepted c @ more"
  using serve_datagram_grows
  by (cases ev; cases "hy2_phase c") (auto simp: first_request_accepted split: sum.splits)

lemma hy2_run_logs_in:
  assumes "a \<in> set (hy2_accepted (hy2_run cfg evs (hy2_init h)))"
  shows "\<exists>ev \<in> set evs. logs_in cfg ev (hy2_accepted_user a)"
proof -
  let ?U = "{u. \<exists>ev \<in> set evs. logs_in cfg ev u}"
  have "hy2_gate ?U (hy2_init h)"
    by (simp add: hy2_gate_def hy2_init_def)
  then have "hy2_gate ?U (hy2_run cfg evs (hy2_init h))"
    by (rule hy2_run_gate) auto
  then show ?thesis
    using assms by (auto simp: hy2_gate_def)
qed

interpretation hy2_service: connection_service hy2_accept_connection "hy2_connection_step ops to_str" hy2_accepted "hy2_allowed ops to_str"
  for ops to_str
proof
  fix s i c a evs
  assume "hy2_accept_connection s i = Some c"
    and a: "a \<in> set (hy2_accepted (fold (hy2_connection_step ops to_str s i) evs c))"
  then have c: "c = hy2_init (hinc_heap i)"
    by (auto simp: hy2_accept_connection_def split: option.splits)
  have "fold (hy2_connection_step ops to_str s i) evs c = hy2_run (hy2_connection_config ops to_str s i) evs c"
    by (simp add: hy2_run_def hy2_connection_step_def [abs_def] del: hy2_step.simps)
  with a show "hy2_allowed ops to_str s i evs a"
    unfolding c hy2_allowed_def by (intro hy2_run_logs_in) simp
next
  show "\<exists>more. hy2_accepted (hy2_connection_step ops to_str s i ev c) = hy2_accepted c @ more" for s i ev c
    unfolding hy2_connection_step_def by (rule hy2_step_grows)
qed

lemma hy2_users_sound: "hy2_users us p = Some n \<Longrightarrow> \<exists>u \<in> set us. hy2_password u = p \<and> hy2_name u = n"
proof (induction us rule: rev_induct)
  case Nil
  then show ?case by (simp add: hy2_users_def)
next
  case (snoc u us)
  then show ?case by (auto simp: hy2_users_def split: if_splits)
qed

text \<open>Updates change the certificate only.\<close>

definition same_users :: "hy2_server \<Rightarrow> hy2_server \<Rightarrow> bool" where
  "same_users s t \<longleftrightarrow> hy2s_users t = hy2s_users s \<and> hy2s_bandwidth t = hy2s_bandwidth s \<and> hy2s_masquerade t = hy2s_masquerade s"

definition settings_kept :: "hy2_server \<Rightarrow> 'c hy2_state \<Rightarrow> bool" where
  "settings_kept s0 s \<longleftrightarrow> same_users s0 (ac_config s) \<and> (\<forall>t \<in> set (ac_tasks s). same_users s0 (task_config t))"

lemma hy2_server_step_settings:
  assumes "settings_kept s0 s"
  shows "settings_kept s0 (hy2_server_step ops to_str ev s)"
proof -
  have "same_users s0 (ac_config (hy2_server_step ops to_str ev s))"
    using assms by (cases ev) (auto simp: hy2_server_step_def server_step_config settings_kept_def same_users_def
        hy2_update_certificate_def split: sum.splits simp del: server_step.simps)
  moreover have "\<forall>cfg \<in> insert (ac_config s) (task_config ` set (ac_tasks s)). same_users s0 cfg"
    using assms by (auto simp: settings_kept_def)
  then have "\<forall>cfg \<in> task_config ` set (ac_tasks (hy2_server_step ops to_str ev s)). same_users s0 cfg"
    unfolding hy2_server_step_def by (meson server_step_configs subsetD)
  ultimately show ?thesis
    by (simp add: settings_kept_def)
qed

lemma hy2_server_run_settings: "settings_kept s0 s \<Longrightarrow> settings_kept s0 (hy2_server_run ops to_str evs s)"
  unfolding hy2_server_run_def by (induction evs arbitrary: s) (simp_all add: hy2_server_step_settings)

lemma hy2_server_run_inv:
  "accept_inv hy2_accept_connection (hy2_connection_step ops to_str) hy2_accepted s \<Longrightarrow>
   accept_inv hy2_accept_connection (hy2_connection_step ops to_str) hy2_accepted (hy2_server_run ops to_str evs s)"
  unfolding hy2_server_run_def
  by (induction evs arbitrary: s) (simp_all add: hy2_server_step_def hy2_service.server_step_inv)


section \<open>Properties\<close>

text \<open>
  (C6) The Hysteria2 server as a whole: whatever connections come in and whatever certificates are
  installed meanwhile, everything the application gets or that waits for it comes from a connection
  on which a request carried the password of one of the users given to \<open>bind\<close>, under that user's
  name; each connection's items arrive in the order it accepted them, none lost or repeated, and at
  most 256 wait.
\<close>

theorem hysteria2_server_gate:
  assumes "hy2_bind_with_bandwidth_and_transport_and_masquerade lib os options bandwidth topts masquerade = (Inr s0, trace)"
    "s = hy2_server_run ops to_str evs (accept_init s0)"
  shows "length (ac_queue s) \<le> 256 \<and>
    (\<forall>(n, a) \<in> set (ac_taken s @ ac_queue s). n < length (ac_tasks s) \<and>
       (\<exists>now request stream user. Request now request stream \<in> set (task_events (ac_tasks s ! n)) \<and> user \<in> set (hso_users options) \<and>
          Option.bind (header_get HEADER_AUTH (req_headers request)) to_str = Some (hy2_password user) \<and>
          hy2_accepted_user a = hy2_name user)) \<and>
    (\<forall>n < length (ac_tasks s). \<exists>rest. items_of n (ac_taken s @ ac_queue s) @ rest = hy2_accepted (task_conn (ac_tasks s ! n)))"
proof -
  have users: "hy2s_users s0 = hy2_users (hso_users options)"
    using assms(1) by (auto simp: hy2_bind_with_bandwidth_and_transport_and_masquerade_def split: sum.splits prod.splits)
  have inv: "accept_inv hy2_accept_connection (hy2_connection_step ops to_str) hy2_accepted s"
    unfolding assms(2) by (intro hy2_server_run_inv accept_inv_init)
  have kept: "settings_kept s0 s"
    unfolding assms(2) by (intro hy2_server_run_settings) (simp add: settings_kept_def accept_init_def same_users_def)
  have gate: "n < length (ac_tasks s) \<and>
       (\<exists>now request stream user. Request now request stream \<in> set (task_events (ac_tasks s ! n)) \<and> user \<in> set (hso_users options) \<and>
          Option.bind (header_get HEADER_AUTH (req_headers request)) to_str = Some (hy2_password user) \<and>
          hy2_accepted_user a = hy2_name user)" if "(n, a) \<in> set (ac_taken s @ ac_queue s)" for n a
  proof -
    let ?t = "ac_tasks s ! n"
    have n: "n < length (ac_tasks s)" and "hy2_allowed ops to_str (task_config ?t) (task_incoming ?t) (task_events ?t) a"
      using hy2_service.delivered_allowed [OF inv that] by auto
    then obtain now request stream where request: "Request now request stream \<in> set (task_events ?t)"
      "request_user_of to_str (hy2s_users (task_config ?t)) request = Some (hy2_accepted_user a)"
      by (auto simp: hy2_allowed_def logs_in_def hy2_connection_config_def)
    have "hy2s_users (task_config ?t) = hy2_users (hso_users options)"
      using kept n users by (simp add: settings_kept_def same_users_def)
    with request(2) obtain password where
      "Option.bind (header_get HEADER_AUTH (req_headers request)) to_str = Some password"
      "hy2_users (hso_users options) password = Some (hy2_accepted_user a)"
      by (auto simp: request_user_of_def bind_eq_Some_conv)
    with request(1) n show ?thesis
      using hy2_users_sound by metis
  qed
  have "\<exists>rest. items_of n (ac_taken s @ ac_queue s) @ rest = hy2_accepted (task_conn (ac_tasks s ! n))"
    if "n < length (ac_tasks s)" for n
    using inv that append_take_drop_id unfolding accept_inv_def by metis
  with inv gate show ?thesis
    by (auto simp: accept_inv_def ACCEPT_CAPACITY_def)
qed

definition demo_hy2_options :: hy2_server_options where
  "demo_hy2_options = \<lparr>hso_listen = \<lparr>ip = V4 0, sport = 443\<rparr>, hso_certificate_chain = [], hso_private_key = [1],
     hso_users = [\<lparr>hy2_name = ''bob'', hy2_password = ''secret''\<rparr>]\<rparr>"

definition demo_hy2_incoming :: "(congestion_kind \<times> u16) hy2_incoming" where
  "demo_hy2_incoming = \<lparr>hinc_error = None, hinc_connection = \<lparr>cc_controller = Switchable 0, cc_rtt = 1\<rparr>,
     hinc_heap = [0 \<mapsto> \<lparr>controller = (Bbr, 1200), kind = Bbr, current_mtu = 1200\<rparr>],
     hinc_source = \<lparr>ip = V4 0, sport = 1\<rparr>, hinc_rng = constant_rng, hinc_respond = (\<lambda>_. None)\<rparr>"

text \<open>A connection comes in, logs in and sends a datagram; the new session is queued.\<close>

definition demo_hy2_events :: "(congestion_kind \<times> u16) hy2_server_event list" where
  "demo_hy2_events = [Hy2Incoming demo_hy2_incoming, Hy2Connection 0 (Request 0 (demo_request ''secret'') (open_h3 [])),
     Hy2Connection 0 (DatagramRead 5 (cfg_source demo_config) (encode_message 1 2 0 1 ''a:1'' (qv_encode 3) [9])), Hy2Send 0]"

lemma demo_hy2_bound:
  "\<exists>s0 trace. hy2_bind_with_bandwidth_and_transport_and_masquerade (plain_library defaults) plain_os demo_hy2_options
       server_bandwidth_default quic_transport_options_default None = (Inr s0, trace) \<and>
     hy2_connection_config plain_ops Some s0 demo_hy2_incoming = demo_config"
  by (simp add: hy2_bind_with_bandwidth_and_transport_and_masquerade_def hy2_build_server_config_def plain_library_def plain_os_def
      single_cert_def quic_server_crypto_def detect_private_key_def bind_endpoint_def bind_udp_socket_def tune_udp_socket_def
      demo_hy2_options_def hy2_connection_config_def demo_hy2_incoming_def demo_config_def hy2_users_def server_bandwidth_default_def Let_def)

lemma demo_hy2_queue:
  assumes "hy2_connection_config plain_ops Some s0 demo_hy2_incoming = demo_config"
  shows "ac_queue (hy2_server_run plain_ops Some demo_hy2_events (accept_init s0)) =
    [(0, Hy2Packet \<lparr>host = ''a'', port = 1\<rparr> ''bob'' (cfg_source demo_config) Bbr 0)]"
proof -
  let ?d = "encode_message 1 2 0 1 ''a:1'' (qv_encode 3) [9]"
  have "hy2_accept_connection s0 demo_hy2_incoming = Some (hy2_init (hinc_heap demo_hy2_incoming))"
    by (simp add: hy2_accept_connection_def demo_hy2_incoming_def)
  moreover have "hy2_connection_step plain_ops Some s0 demo_hy2_incoming (Request 0 (demo_request ''secret'') (open_h3 []))
      (hy2_init (hinc_heap demo_hy2_incoming)) = demo_serving"
    unfolding hy2_connection_step_def assms by (simp only: demo_serving_def demo_hy2_incoming_def hy2_incoming.simps)
  moreover have "hy2_connection_step plain_ops Some s0 demo_hy2_incoming (DatagramRead 5 (cfg_source demo_config) ?d) demo_serving =
      serve_datagram 5 (cfg_source demo_config) ''bob'' Bbr ?d demo_serving"
    unfolding hy2_connection_step_def assms by (simp add: demo_serving_phase)
  ultimately show ?thesis
    by (simp add: hy2_server_run_def demo_hy2_events_def hy2_server_step_def accept_init_def demo_session(2) ACCEPT_CAPACITY_def Let_def)
qed

theorem hysteria2_server_gate_witness:
  "\<forall>defaults. \<exists>s0 trace. hy2_bind_with_bandwidth_and_transport_and_masquerade (plain_library defaults) plain_os demo_hy2_options
       server_bandwidth_default quic_transport_options_default None = (Inr s0, trace) \<and>
     (\<exists>request. Option.bind (header_get HEADER_AUTH (req_headers request)) Some = Some ''secret'' \<and>
        (\<exists>now stream. Request now request stream \<in>
           set (task_events (ac_tasks (hy2_server_run plain_ops Some demo_hy2_events (accept_init s0)) ! 0))))"
proof
  fix defaults
  obtain s0 trace where s0: "hy2_bind_with_bandwidth_and_transport_and_masquerade (plain_library defaults) plain_os demo_hy2_options
       server_bandwidth_default quic_transport_options_default None = (Inr s0, trace)"
    and cfg: "hy2_connection_config plain_ops Some s0 demo_hy2_incoming = demo_config"
    using demo_hy2_bound by blast
  let ?s = "hy2_server_run plain_ops Some demo_hy2_events (accept_init s0)"
  have "(0, Hy2Packet \<lparr>host = ''a'', port = 1\<rparr> ''bob'' (cfg_source demo_config) Bbr 0) \<in> set (ac_taken ?s @ ac_queue ?s)"
    by (simp add: demo_hy2_queue [OF cfg])
  with hysteria2_server_gate [OF s0 refl, of plain_ops Some demo_hy2_events]
  have "\<exists>now request stream user. Request now request stream \<in> set (task_events (ac_tasks ?s ! 0)) \<and> user \<in> set (hso_users demo_hy2_options) \<and>
      Option.bind (header_get HEADER_AUTH (req_headers request)) Some = Some (hy2_password user)"
    by blast
  with s0 show "\<exists>s0 trace. hy2_bind_with_bandwidth_and_transport_and_masquerade (plain_library defaults) plain_os demo_hy2_options
       server_bandwidth_default quic_transport_options_default None = (Inr s0, trace) \<and>
     (\<exists>request. Option.bind (header_get HEADER_AUTH (req_headers request)) Some = Some ''secret'' \<and>
        (\<exists>now stream. Request now request stream \<in>
           set (task_events (ac_tasks (hy2_server_run plain_ops Some demo_hy2_events (accept_init s0)) ! 0))))"
    by (auto simp: demo_hy2_options_def)
qed

end
