(* ===== verification/Squic_Codec.thy ===== *)
theory Squic_Codec
  imports Address
begin

text \<open>
  The SOCKS5-style address codec of \<open>src/src/shadowquic/mod.rs\<close>: a type byte, then an IPv4 or IPv6
  address or a length-prefixed domain name, then the port.
\<close>


section \<open>Operations\<close>

definition SQ_CONNECT :: u8 where
  "SQ_CONNECT = 0x01"

definition SQ_ASSOCIATE_OVER_DATAGRAM :: u8 where
  "SQ_ASSOCIATE_OVER_DATAGRAM = 0x03"

definition SQ_ASSOCIATE_OVER_STREAM :: u8 where
  "SQ_ASSOCIATE_OVER_STREAM = 0x04"

definition SQ_AUTHENTICATE :: u8 where
  "SQ_AUTHENTICATE = 0x05"

definition SQ_EXTENSION :: u8 where
  "SQ_EXTENSION = 0xff"

definition SQ_IPV4 :: u8 where
  "SQ_IPV4 = 0x01"

definition SQ_DOMAIN :: u8 where
  "SQ_DOMAIN = 0x03"

definition SQ_IPV6 :: u8 where
  "SQ_IPV6 = 0x04"

definition MAX_DOMAIN_LENGTH :: nat where
  "MAX_DOMAIN_LENGTH = 255"

lemmas sq_codes = SQ_CONNECT_def SQ_ASSOCIATE_OVER_DATAGRAM_def SQ_ASSOCIATE_OVER_STREAM_def SQ_AUTHENTICATE_def
  SQ_EXTENSION_def SQ_IPV4_def SQ_DOMAIN_def SQ_IPV6_def

definition encode_address :: "address \<Rightarrow> bytes result" where
  "encode_address dest =
     bindR (case parse_ip (host dest) of
              Some (V4 a) \<Rightarrow> Inr (SQ_IPV4 # to_be_bytes a)
            | Some (V6 a) \<Rightarrow> Inr (SQ_IPV6 # to_be_bytes a)
            | None \<Rightarrow>
                if host dest = [] \<or> length (host dest) > MAX_DOMAIN_LENGTH \<or> \<not> is_ascii (host dest)
                then Inl InvalidAddress
                else Inr (SQ_DOMAIN # word_of_nat (length (host dest)) # as_bytes (host dest)))
       (\<lambda>frame. Inr (frame @ to_be_bytes (port dest)))"

definition encode_connect :: "address \<Rightarrow> bytes result" where
  "encode_connect dest = bindR (encode_address dest) (\<lambda>bs. Inr (SQ_CONNECT # bs))"

definition decode_host :: "u8 \<Rightarrow> reader \<Rightarrow> (string \<times> reader) result" where
  "decode_host k r =
     (if k = SQ_IPV4 then
        bindR (quic_read_exact 4 r) (\<lambda>(bs, r). Inr (show_ip (V4 (from_be_bytes bs)), r))
      else if k = SQ_IPV6 then
        bindR (quic_read_exact 16 r) (\<lambda>(bs, r). Inr (show_ip (V6 (from_be_bytes bs)), r))
      else if k = SQ_DOMAIN then
        bindR (quic_read_exact 1 r) (\<lambda>(len, r).
        bindR (quic_read_exact (unat (hd len)) r) (\<lambda>(bs, r).
        bindR (ok_or InvalidAddress (from_utf8 bs)) (\<lambda>s. Inr (s, r))))
      else Inl (Protocol ''invalid ShadowQuic address type''))"

definition decode_address :: "reader \<Rightarrow> (address \<times> reader) result" where
  "decode_address r =
     bindR (quic_read_exact 1 r) (\<lambda>(k, r).
     bindR (decode_host (hd k) r) (\<lambda>(h, r).
     bindR (quic_read_exact 2 r) (\<lambda>(p, r).
     bindR (address_new h (from_be_bytes p)) (\<lambda>a. Inr (a, r)))))"


section \<open>Round trip\<close>

text \<open>
  An address that is an IP literal travels as binary and comes back in the standard spelling; a
  domain name comes back as it is.
\<close>

definition canonical :: "address \<Rightarrow> address" where
  "canonical a = (case parse_ip (host a) of None \<Rightarrow> a | Some i \<Rightarrow> a\<lparr>host := show_ip i\<rparr>)"

lemma canonical_idem [simp]: "canonical (canonical a) = canonical a"
  by (simp add: canonical_def parse_ip_show_ip split: option.splits)

lemma encode_canonical: "encode_address (canonical a) = encode_address a"
  by (cases "parse_ip (host a)") (simp_all add: canonical_def encode_address_def parse_ip_show_ip)

lemma show_ip_not_Nil: "show_ip i \<noteq> []"
  using normal_host_show_ip [of i] by (auto simp: normal_host_def)

lemma quic_read_exact_Cons [simp]:
  "quic_read_exact 1 \<lparr>pending = b # bs, ending = e\<rparr> = Inr ([b], \<lparr>pending = bs, ending = e\<rparr>)"
  "quic_read_exact (Suc 0) \<lparr>pending = b # bs, ending = e\<rparr> = Inr ([b], \<lparr>pending = bs, ending = e\<rparr>)"
  by (simp_all add: quic_read_exact_def)

lemma from_be_bytes_addr [simp]:
  "from_be_bytes (to_be_bytes (a :: 32 word)) = a" "from_be_bytes (to_be_bytes (b :: 128 word)) = b"
  by (simp_all add: from_to_be_bytes)

lemma decode_host_encoded:
  assumes "encode_address a = Inr bs"
  shows "\<exists>k hs. bs = k # hs @ to_be_bytes (port a) \<and>
    (\<forall>rest e. decode_host k \<lparr>pending = hs @ rest, ending = e\<rparr> = Inr (host (canonical a), \<lparr>pending = rest, ending = e\<rparr>))"
proof (cases "parse_ip (host a)")
  case None
  then have host: "host a \<noteq> []" "length (host a) \<le> 255" "is_ascii (host a)"
    and bs: "bs = SQ_DOMAIN # (word_of_nat (length (host a)) # as_bytes (host a)) @ to_be_bytes (port a)"
    using assms by (auto simp: encode_address_def MAX_DOMAIN_LENGTH_def split: if_splits)
  have "unat (word_of_nat (length (host a)) :: u8) = length (host a)"
    using host(2) by (simp add: unat_of_nat_small)
  then have "decode_host SQ_DOMAIN \<lparr>pending = (word_of_nat (length (host a)) # as_bytes (host a)) @ rest, ending = e\<rparr> =
      Inr (host (canonical a), \<lparr>pending = rest, ending = e\<rparr>)" for rest e
    using None host(3) by (simp add: decode_host_def canonical_def sq_codes ascii_utf8_string)
  with bs show ?thesis by blast
next
  case (Some i)
  show ?thesis
  proof (cases i)
    case (V4 x)
    then have "bs = SQ_IPV4 # to_be_bytes x @ to_be_bytes (port a)"
      using assms Some by (simp add: encode_address_def)
    moreover have "decode_host SQ_IPV4 \<lparr>pending = to_be_bytes x @ rest, ending = e\<rparr> =
        Inr (host (canonical a), \<lparr>pending = rest, ending = e\<rparr>)" for rest e
      using V4 Some by (simp add: decode_host_def canonical_def)
    ultimately show ?thesis by blast
  next
    case (V6 x)
    then have "bs = SQ_IPV6 # to_be_bytes x @ to_be_bytes (port a)"
      using assms Some by (simp add: encode_address_def)
    moreover have "decode_host SQ_IPV6 \<lparr>pending = to_be_bytes x @ rest, ending = e\<rparr> =
        Inr (host (canonical a), \<lparr>pending = rest, ending = e\<rparr>)" for rest e
      using V6 Some by (simp add: decode_host_def canonical_def sq_codes)
    ultimately show ?thesis by blast
  qed
qed

lemma host_canonical: "encode_address a = Inr bs \<Longrightarrow> host (canonical a) \<noteq> []"
  by (auto simp: canonical_def encode_address_def show_ip_not_Nil split: option.splits if_splits)

lemma port_canonical [simp]: "port (canonical a) = port a"
  by (simp add: canonical_def split: option.splits)

lemma decode_encoded_address:
  assumes "encode_address a = Inr bs"
  shows "decode_address \<lparr>pending = bs @ rest, ending = e\<rparr> = Inr (canonical a, \<lparr>pending = rest, ending = e\<rparr>)"
proof -
  obtain k hs where bs: "bs = k # hs @ to_be_bytes (port a)" and dec: "\<forall>rest e.
      decode_host k \<lparr>pending = hs @ rest, ending = e\<rparr> = Inr (host (canonical a), \<lparr>pending = rest, ending = e\<rparr>)"
    using decode_host_encoded [OF assms] by blast
  have "canonical a = \<lparr>host = host (canonical a), port = port a\<rparr>"
    using port_canonical [of a] by (cases "canonical a") simp
  then show ?thesis
    using host_canonical [OF assms] by (simp add: bs decode_address_def dec address_new_def)
qed

lemma encode_address_domain:
  "host a \<noteq> [] \<Longrightarrow> length (host a) \<le> 255 \<Longrightarrow> is_ascii (host a) \<Longrightarrow> \<exists>bs. encode_address a = Inr bs"
  by (auto simp: encode_address_def MAX_DOMAIN_LENGTH_def split: option.splits ip_addr.splits)

lemma decode_host_pending:
  "decode_host k r = Inr (h, r') \<Longrightarrow> length (pending r') \<le> length (pending r)"
  by (auto simp: decode_host_def result_iffs split: if_splits dest!: quic_read_exact_pending)

lemma decode_address_progress:
  "decode_address r = Inr (a, r') \<Longrightarrow> length (pending r') < length (pending r)"
  by (fastforce simp: decode_address_def result_iffs dest!: quic_read_exact_pending decode_host_pending)


text \<open>The shortest address on the wire is a domain name of one byte.\<close>

lemma decode_host_size:
  assumes "decode_host k r = Inr (h, r')" "h \<noteq> []"
  shows "length (pending r') + 2 \<le> length (pending r)"
proof -
  have "from_utf8 bs = Some h \<Longrightarrow> bs \<noteq> []" for bs
    using assms(2) by (auto simp: from_utf8_def string_of_bytes_def split: if_splits)
  note ne = this
  consider n bs r0 where "quic_read_exact n r0 = Inr (bs, r')" "4 \<le> n" "r0 = r"
    | len r0 bs where "quic_read_exact 1 r = Inr (len, r0)" "quic_read_exact (unat (hd len)) r0 = Inr (bs, r')" "from_utf8 bs = Some h"
    using assms(1) by (force simp: decode_host_def result_iffs split: if_splits)
  then show ?thesis
  proof cases
    case 1
    then show ?thesis by (auto dest!: quic_read_exact_pending)
  next
    case 2
    from quic_read_exact_pending [OF 2(1)] quic_read_exact_pending [OF 2(2)] ne [OF 2(3)]
    show ?thesis by (cases bs) auto
  qed
qed

lemma decode_address_no_panic: "decode_address r \<noteq> Inl (Panic why)"
  using quic_read_exact_no_panic
  by (auto simp: decode_address_def decode_host_def result_iffs address_new_def ok_or_def split: if_splits option.splits)

lemma decode_address_size:
  assumes "decode_address r = Inr (a, r')"
  shows "length (pending r') + 5 \<le> length (pending r)"
proof -
  obtain k r1 h r2 p where "quic_read_exact 1 r = Inr (k, r1)" "decode_host (hd k) r1 = Inr (h, r2)"
    "quic_read_exact 2 r2 = Inr (p, r')" "h \<noteq> []"
    using assms by (auto simp: decode_address_def result_iffs address_new_def split: if_splits)
  from this(1,3) decode_host_size [OF this(2,4)] show ?thesis
    by (auto dest!: quic_read_exact_pending)
qed


section \<open>Properties\<close>

text \<open>
  (C29) A destination that \<open>encode_address\<close> accepts is decoded to the same destination (an IP literal in
  its standard spelling), and the decoder stops right after it; decoding what was re-encoded gives
  the same again, so a relayed destination is stable.
\<close>

theorem squic_address_roundtrip:
  assumes "encode_address a = Inr bs"
  shows "decode_address \<lparr>pending = bs @ rest, ending = e\<rparr> = Inr (canonical a, \<lparr>pending = rest, ending = e\<rparr>) \<and>
    encode_address (canonical a) = Inr bs"
  using decode_encoded_address [OF assms] assms by (simp add: encode_canonical)

theorem squic_address_roundtrip_witness:
  "\<exists>bs. encode_address \<lparr>host = ''a.b'', port = 80\<rparr> = Inr bs \<and>
     decode_address \<lparr>pending = bs @ [9], ending = Finished\<rparr> =
       Inr (canonical \<lparr>host = ''a.b'', port = 80\<rparr>, \<lparr>pending = [9], ending = Finished\<rparr>)"
proof -
  have "\<exists>bs. encode_address \<lparr>host = ''a.b'', port = 80\<rparr> = Inr bs"
    by (rule encode_address_domain) (simp_all add: is_ascii_def byte_of_char_def)
  then show ?thesis
    using squic_address_roundtrip by blast
qed

text \<open>
  Exactly the non-IP hosts that are empty, longer than 255 bytes or not ASCII are refused; every
  socket address can be encoded.
\<close>

theorem squic_address_refused:
  "(encode_address a = Inl InvalidAddress \<longleftrightarrow>
     parse_ip (host a) = None \<and> (host a = [] \<or> length (host a) > 255 \<or> \<not> is_ascii (host a))) \<and>
   (\<exists>bs. encode_address (address_from_socket socket) = Inr bs \<and> length bs \<in> {7, 19})"
proof -
  have "encode_address (address_from_socket socket) =
      Inr ((case ip socket of V4 x \<Rightarrow> SQ_IPV4 # to_be_bytes x | V6 x \<Rightarrow> SQ_IPV6 # to_be_bytes x) @ to_be_bytes (sport socket))"
    by (simp add: encode_address_def address_from_socket_def parse_ip_show_ip split: ip_addr.splits)
  then show ?thesis
    by (auto simp: encode_address_def MAX_DOMAIN_LENGTH_def split: option.splits ip_addr.splits)
qed

end
