(* ===== verification/Squic_Udp.thy ===== *)
theory Squic_Udp
  imports Squic_Codec
begin

text \<open>
  The UDP plane of \<open>src/src/shadowquic/mod.rs\<close>: the sender announces an id per destination on the control
  stream and tags its packets with it; the receiver keeps a registry of routes by id. A channel end is
  a name; the packets waiting in a channel are kept per name in a store.
\<close>


section \<open>Data\<close>

datatype udp_mode = DatagramMode | StreamMode

record squic_packet =
  sq_data :: bytes
  sq_destination :: address

type_synonym chan = nat
type_synonym chan_store = "chan \<Rightarrow> squic_packet list option"

text \<open>
  A channel whose receiver is gone is \<open>None\<close>: sending fails. A send to a full channel waits (the result
  \<open>None\<close>).
\<close>

definition UDP_CAPACITY :: nat where
  "UDP_CAPACITY = 256"

definition chan_send :: "chan \<Rightarrow> squic_packet \<Rightarrow> chan_store \<Rightarrow> chan_store result option" where
  "chan_send ch p q = (case q ch of
       None \<Rightarrow> Some (Inl Closed)
     | Some ps \<Rightarrow> if length ps < UDP_CAPACITY then Some (Inr (q(ch \<mapsto> ps @ [p]))) else None)"

record udp_route =
  route_sender :: chan
  route_destination :: address

record udp_registry =
  routes :: "u16 \<rightharpoonup> udp_route"
  reg_closed :: bool

definition registry_default :: udp_registry where
  "registry_default = \<lparr>routes = Map.empty, reg_closed = False\<rparr>"

definition registry_register :: "u16 \<Rightarrow> address \<Rightarrow> chan \<Rightarrow> udp_registry \<Rightarrow> udp_registry" where
  "registry_register i dest ch reg =
     reg\<lparr>routes := (routes reg)(i \<mapsto> \<lparr>route_sender = ch, route_destination = dest\<rparr>)\<rparr>"

definition registry_remove :: "u16 list \<Rightarrow> udp_registry \<Rightarrow> udp_registry" where
  "registry_remove ids reg = foldl (\<lambda>reg i. reg\<lparr>routes := (routes reg)(i := None)\<rparr>) reg ids"

text \<open>One pass of the loop of \<open>wait\<close>: \<open>None\<close> means it goes to sleep until the registry changes.\<close>

definition registry_wait :: "u16 \<Rightarrow> udp_registry \<Rightarrow> udp_route result option" where
  "registry_wait i reg = (case routes reg i of
       Some route \<Rightarrow> Some (Inr route)
     | None \<Rightarrow> if reg_closed reg then Some (Inl Closed) else None)"

definition registry_close :: "udp_registry \<Rightarrow> udp_registry" where
  "registry_close reg = reg\<lparr>reg_closed := True\<rparr>"


section \<open>The receiving side\<close>

text \<open>
  The control stream: one announcement after the other until the stream ends; then the routes it
  registered are removed. The loop only ends with an error.
\<close>

definition control_step :: "chan \<Rightarrow> reader \<Rightarrow> udp_registry \<Rightarrow> (u16 \<times> reader \<times> udp_registry) result" where
  "control_step ch r reg =
     bindR (decode_address r) (\<lambda>(dest, r).
     bindR (quic_read_exact 2 r) (\<lambda>(bs, r).
       let i = from_be_bytes bs in Inr (i, r, registry_register i dest ch reg)))"

lemma control_step_Inr:
  assumes "control_step ch r reg = Inr (i, r', reg')"
  obtains dest r1 bs where "decode_address r = Inr (dest, r1)" "quic_read_exact 2 r1 = Inr (bs, r')" "i = from_be_bytes bs"
    "reg' = registry_register i dest ch reg"
  using assms by (auto simp: control_step_def result_iffs Let_def)

lemma control_step_size: "control_step ch r reg = Inr (i, r', reg') \<Longrightarrow> length (pending r') + 7 \<le> length (pending r)"
  using decode_address_size quic_read_exact_pending by (elim control_step_Inr) fastforce

function control_loop :: "chan \<Rightarrow> reader \<Rightarrow> u16 list \<Rightarrow> udp_registry \<Rightarrow> error \<times> u16 list \<times> udp_registry" where
  "control_loop ch r ids reg = (case control_step ch r reg of
       Inl e \<Rightarrow> (e, ids, reg)
     | Inr (i, r, reg) \<Rightarrow> control_loop ch r (ids @ [i]) reg)"
  by pat_completeness auto
termination
  by (relation "measure (\<lambda>(_, r, _, _). length (pending r))") (auto dest!: control_step_size)

declare control_loop.simps [simp del]

definition handle_udp_control_stream :: "chan \<Rightarrow> reader \<Rightarrow> udp_registry \<Rightarrow> unit result \<times> udp_registry" where
  "handle_udp_control_stream ch r reg =
     (case control_loop ch r [] reg of (e, ids, reg) \<Rightarrow> (Inl e, registry_remove ids reg))"

text \<open>
  A datagram waits until its id is registered and the channel has room; \<open>None\<close>: it is still waiting.
\<close>

definition handle_incoming_udp_datagram ::
  "bytes \<Rightarrow> udp_registry \<Rightarrow> chan_store \<Rightarrow> chan_store result option" where
  "handle_incoming_udp_datagram datagram reg q =
     (if length datagram < 2 then Some (Inl (Protocol ''truncated ShadowQuic UDP datagram''))
      else case registry_wait (from_be_bytes (take 2 datagram)) reg of
        None \<Rightarrow> None
      | Some (Inl e) \<Rightarrow> Some (Inl e)
      | Some (Inr route) \<Rightarrow>
          chan_send (route_sender route)
            \<lparr>sq_data = drop 2 datagram, sq_destination = route_destination route\<rparr> q)"

text \<open>
  A unidirectional stream: the id, then length-prefixed packets until it ends. One round of the loop
  either waits for room in the channel, fails, or goes on with the rest of the stream.
\<close>

definition udp_stream_step :: "udp_route \<Rightarrow> reader \<Rightarrow> chan_store \<Rightarrow> (reader \<times> chan_store) result option" where
  "udp_stream_step route r q = (case quic_read_exact 2 r of
       Inl e \<Rightarrow> Some (Inl e)
     | Inr (len, r) \<Rightarrow>
         (case quic_read_exact (unat (from_be_bytes len :: u16)) r of
            Inl e \<Rightarrow> Some (Inl e)
          | Inr (bs, r) \<Rightarrow>
              (case chan_send (route_sender route) \<lparr>sq_data = bs, sq_destination = route_destination route\<rparr> q of
                 None \<Rightarrow> None
               | Some (Inl e) \<Rightarrow> Some (Inl e)
               | Some (Inr q) \<Rightarrow> Some (Inr (r, q)))))"

lemma udp_stream_step_Inr:
  assumes "udp_stream_step route r q = Some (Inr (r', q'))"
  obtains len r1 bs where "quic_read_exact 2 r = Inr (len, r1)" "quic_read_exact (unat (from_be_bytes len :: u16)) r1 = Inr (bs, r')"
    "chan_send (route_sender route) \<lparr>sq_data = bs, sq_destination = route_destination route\<rparr> q = Some (Inr q')"
  using assms by (auto simp: udp_stream_step_def split: sum.splits prod.splits option.splits)

lemma udp_stream_step_size:
  "udp_stream_step route r q = Some (Inr (r', q')) \<Longrightarrow> length (pending r') < length (pending r)"
  using quic_read_exact_pending by (elim udp_stream_step_Inr) fastforce

text \<open>The result: the error that ended the loop, or where it waits for room.\<close>

function udp_stream_loop :: "udp_route \<Rightarrow> reader \<Rightarrow> chan_store \<Rightarrow> error option \<times> reader \<times> chan_store" where
  "udp_stream_loop route r q = (case udp_stream_step route r q of
       None \<Rightarrow> (None, r, q)
     | Some (Inl e) \<Rightarrow> (Some e, r, q)
     | Some (Inr (r, q)) \<Rightarrow> udp_stream_loop route r q)"
  by pat_completeness auto
termination
  by (relation "measure (\<lambda>(_, r, _). length (pending r))") (auto dest!: udp_stream_step_size)

declare udp_stream_loop.simps [simp del]

definition handle_incoming_udp_stream ::
  "reader \<Rightarrow> udp_registry \<Rightarrow> chan_store \<Rightarrow> error option \<times> reader \<times> chan_store" where
  "handle_incoming_udp_stream r reg q = (case quic_read_exact 2 r of
       Inl e \<Rightarrow> (Some e, r, q)
     | Inr (i, r') \<Rightarrow>
         (case registry_wait (from_be_bytes i) reg of
            None \<Rightarrow> (None, r, q)
          | Some (Inl e) \<Rightarrow> (Some e, r', q)
          | Some (Inr route) \<Rightarrow> udp_stream_loop route r' q))"


section \<open>The sending side\<close>

datatype outgoing_context = DatagramContext u16 | StreamContext writer

text \<open>
  The connection is a parameter: whether it takes a datagram (the error text otherwise), and what
  opening a unidirectional stream gives.
\<close>

record squic_link =
  link_datagram :: "bytes list \<Rightarrow> bytes \<Rightarrow> string option"
  link_open_uni :: "nat \<Rightarrow> connection_error + writer"

record packet_sender =
  sender_mode :: udp_mode
  sender_next_id :: u16
  control :: writer
  contexts :: "address \<rightharpoonup> outgoing_context"
  datagrams :: "bytes list"
  opened :: nat

text \<open>\<open>fetch_add\<close> on the shared 16-bit counter wraps.\<close>

definition announce :: "address \<Rightarrow> packet_sender \<Rightarrow> u16 result \<times> packet_sender" where
  "announce dest s =
     (let i = sender_next_id s; s = s\<lparr>sender_next_id := sender_next_id s + 1\<rparr>
      in case encode_address dest of
           Inl e \<Rightarrow> (Inl e, s)
         | Inr addr \<Rightarrow>
             (case quic_write_all addr (control s) of
                Inl e \<Rightarrow> (Inl e, s)
              | Inr w \<Rightarrow>
                  (let s = s\<lparr>control := w\<rparr>
                   in case quic_write_all (to_be_bytes i) w of
                        Inl e \<Rightarrow> (Inl e, s)
                      | Inr w \<Rightarrow> (Inr i, s\<lparr>control := w\<rparr>))))"

definition open_context :: "squic_link \<Rightarrow> address \<Rightarrow> packet_sender \<Rightarrow> unit result \<times> packet_sender" where
  "open_context link dest s = (case announce dest s of
       (Inl e, s) \<Rightarrow> (Inl e, s)
     | (Inr i, s) \<Rightarrow>
         (case sender_mode s of
            DatagramMode \<Rightarrow> (Inr (), s\<lparr>contexts := (contexts s)(dest \<mapsto> DatagramContext i)\<rparr>)
          | StreamMode \<Rightarrow>
              (case link_open_uni link (opened s) of
                 Inl e \<Rightarrow> (Inl (Connection e), s)
               | Inr w \<Rightarrow>
                   (let s = s\<lparr>opened := opened s + 1\<rparr>
                    in case quic_write_all (to_be_bytes i) w of
                         Inl e \<Rightarrow> (Inl e, s)
                       | Inr w \<Rightarrow> (Inr (), s\<lparr>contexts := (contexts s)(dest \<mapsto> StreamContext w)\<rparr>)))))"

definition send_in_context :: "squic_link \<Rightarrow> squic_packet \<Rightarrow> packet_sender \<Rightarrow> unit result \<times> packet_sender" where
  "send_in_context link p s = (case contexts s (sq_destination p) of
       None \<Rightarrow> (Inl (Panic ''ShadowQuic UDP context inserted''), s)
     | Some (DatagramContext i) \<Rightarrow>
         (let frame = to_be_bytes i @ sq_data p
          in case link_datagram link (datagrams s) frame of
               Some e \<Rightarrow> (Inl (Protocol e), s)
             | None \<Rightarrow> (Inr (), s\<lparr>datagrams := datagrams s @ [frame]\<rparr>))
     | Some (StreamContext w) \<Rightarrow>
         if length (sq_data p) > 65535 then (Inl (Protocol ''ShadowQuic UDP packet exceeds 65535 bytes''), s)
         else
           case quic_write_all (to_be_bytes (word_of_nat (length (sq_data p)) :: u16)) w of
             Inl e \<Rightarrow> (Inl e, s)
           | Inr w \<Rightarrow>
               (let s = s\<lparr>contexts := (contexts s)(sq_destination p \<mapsto> StreamContext w)\<rparr>
                in case quic_write_all (sq_data p) w of
                     Inl e \<Rightarrow> (Inl e, s)
                   | Inr w \<Rightarrow> (Inr (), s\<lparr>contexts := (contexts s)(sq_destination p \<mapsto> StreamContext w)\<rparr>)))"

definition squic_send :: "squic_link \<Rightarrow> squic_packet \<Rightarrow> packet_sender \<Rightarrow> unit result \<times> packet_sender" where
  "squic_send link p s =
     (case (if contexts s (sq_destination p) = None then open_context link (sq_destination p) s else (Inr (), s)) of
        (Inl e, s) \<Rightarrow> (Inl e, s)
      | (Inr _, s) \<Rightarrow> send_in_context link p s)"

text \<open>One poll of \<open>recv\<close>; when every sender of the channel is dropped it reports \<open>Closed\<close>.\<close>

definition squic_recv :: "bool \<Rightarrow> squic_packet list \<Rightarrow> squic_packet result option \<times> squic_packet list" where
  "squic_recv senders_gone ps = (case ps of
       p # ps \<Rightarrow> (Some (Inr p), ps)
     | [] \<Rightarrow> (if senders_gone then Some (Inl Closed) else None, []))"

lemma registry_remove_routes:
  "routes (registry_remove ids reg) i = (if i \<in> set ids then None else routes reg i)"
  "reg_closed (registry_remove ids reg) = reg_closed reg"
  by (induction ids arbitrary: reg) (simp_all add: registry_remove_def)



section \<open>The packet connections of a connection\<close>

text \<open>
  All packet connections of a QUIC connection hold its \<open>next_udp_id\<close> counter: a send reads and writes the
  shared counter; the rest of a sender is its own.
\<close>

record udp_connection =
  uc_next_id :: u16
  uc_senders :: "packet_sender list"

definition udp_connection_new :: udp_connection where
  "udp_connection_new = \<lparr>uc_next_id = 0, uc_senders = []\<rparr>"

text \<open>A new association; \<open>w\<close> is its control stream, the request already written.\<close>

definition add_association :: "udp_mode \<Rightarrow> writer \<Rightarrow> udp_connection \<Rightarrow> udp_connection" where
  "add_association mode w c = c\<lparr>uc_senders := uc_senders c @
     [\<lparr>sender_mode = mode, sender_next_id = uc_next_id c, control = w, contexts = Map.empty, datagrams = [], opened = 0\<rparr>]\<rparr>"

definition association_send :: "squic_link \<Rightarrow> nat \<Rightarrow> squic_packet \<Rightarrow> udp_connection \<Rightarrow> udp_connection" where
  "association_send link n p c =
     (if n < length (uc_senders c)
      then let s = snd (squic_send link p ((uc_senders c ! n)\<lparr>sender_next_id := uc_next_id c\<rparr>))
           in c\<lparr>uc_next_id := sender_next_id s, uc_senders := (uc_senders c)[n := s]\<rparr>
      else c)"


section \<open>The loops that read from the peer\<close>

lemma control_step_no_panic: "control_step ch r reg \<noteq> Inl (Panic why)"
  using decode_address_no_panic quic_read_exact_no_panic
  by (auto simp: control_step_def result_iffs Let_def split: prod.splits)

definition registers :: "chan \<Rightarrow> u16 set \<Rightarrow> udp_registry \<Rightarrow> udp_registry \<Rightarrow> bool" where
  "registers ch is reg reg' \<longleftrightarrow> (\<exists>m. dom m = is \<and> route_sender ` ran m \<subseteq> {ch} \<and> reg' = reg\<lparr>routes := routes reg ++ m\<rparr>)"

lemma registers_none: "registers ch {} reg reg"
  by (simp add: registers_def)

lemma registers_more:
  assumes "registers ch is (registry_register i dest ch reg) reg'"
  shows "registers ch (insert i is) reg reg'"
proof -
  obtain m where m: "dom m = is" "route_sender ` ran m \<subseteq> {ch}" "reg' = registry_register i dest ch reg\<lparr>routes := routes (registry_register i dest ch reg) ++ m\<rparr>"
    using assms by (auto simp: registers_def)
  let ?m = "[i \<mapsto> \<lparr>route_sender = ch, route_destination = dest\<rparr>] ++ m"
  have "dom ?m = insert i is" "route_sender ` ran ?m \<subseteq> {ch}"
    using m(1,2) by (auto simp: ran_def map_add_def split: option.splits if_splits)
  moreover have "reg' = reg\<lparr>routes := routes reg ++ ?m\<rparr>"
    using m(3) by (simp add: registry_register_def)
  ultimately show ?thesis unfolding registers_def by blast
qed

lemma control_loop_work:
  "control_loop ch r ids reg = (e, ids', reg') \<Longrightarrow>
   \<exists>more. ids' = ids @ more \<and> 7 * length more \<le> length (pending r) \<and> e \<noteq> Panic why \<and> registers ch (set more) reg reg'"
proof (induction ch r ids reg rule: control_loop.induct)
  case (1 ch r ids reg)
  show ?case
  proof (cases "control_step ch r reg")
    case (Inl x)
    then show ?thesis using "1.prems" control_step_no_panic registers_none by (auto simp: control_loop.simps [of ch r])
  next
    case (Inr a)
    then obtain i r1 reg1 where a: "control_step ch r reg = Inr (i, r1, reg1)" by (cases a) auto
    then have "control_loop ch r1 (ids @ [i]) reg1 = (e, ids', reg')"
      using "1.prems" by (simp add: control_loop.simps [of ch r])
    from "1.IH" [OF a refl refl this] obtain more where
      more: "ids' = (ids @ [i]) @ more" "7 * length more \<le> length (pending r1)" "e \<noteq> Panic why" "registers ch (set more) reg1 reg'" by blast
    obtain dest where "reg1 = registry_register i dest ch reg"
      using a by (elim control_step_Inr) simp
    with more(4) have "registers ch (set (i # more)) reg reg'"
      using registers_more by simp
    with more control_step_size [OF a] show ?thesis
      by (intro exI [of _ "i # more"]) simp
  qed
qed

lemma udp_stream_step_no_panic: "udp_stream_step route r q \<noteq> Some (Inl (Panic why))"
  using quic_read_exact_no_panic by (fastforce simp: udp_stream_step_def chan_send_def split: sum.splits option.splits if_splits)

lemma udp_stream_loop_no_panic: "udp_stream_loop route r q = (e, r', q') \<Longrightarrow> e \<noteq> Some (Panic why)"
proof (induction route r q rule: udp_stream_loop.induct)
  case (1 route r q)
  then show ?case
    using udp_stream_step_no_panic by (auto simp: udp_stream_loop.simps [of route r] split: option.splits sum.splits prod.splits)
qed

lemma udp_stream_loop_work:
  "udp_stream_loop route r q = (e, r', q') \<Longrightarrow>
   \<exists>ps. q' = (case q (route_sender route) of None \<Rightarrow> q | Some xs \<Rightarrow> q(route_sender route \<mapsto> xs @ ps)) \<and>
     sq_destination ` set ps \<subseteq> {route_destination route} \<and>
     (\<Sum>p \<leftarrow> ps. 2 + length (sq_data p)) \<le> length (pending r)"
proof (induction route r q rule: udp_stream_loop.induct)
  case (1 route r q)
  let ?p = "\<lambda>bs. \<lparr>sq_data = bs, sq_destination = route_destination route\<rparr>"
  have done_: ?case if "q' = q"
    using that by (intro exI [of _ "[]"]) (auto split: option.splits)
  show ?case
  proof (cases "\<exists>r1 q1. udp_stream_step route r q = Some (Inr (r1, q1))")
    case False
    then show ?thesis
      using "1.prems" by (intro done_) (auto simp: udp_stream_loop.simps [of route r] split: option.splits sum.splits)
  next
    case True
    then obtain r1 q1 where step: "udp_stream_step route r q = Some (Inr (r1, q1))" by blast
    then obtain len r0 bs where reads: "quic_read_exact 2 r = Inr (len, r0)"
        "quic_read_exact (unat (from_be_bytes len :: u16)) r0 = Inr (bs, r1)"
      and sent: "chan_send (route_sender route) (?p bs) q = Some (Inr q1)"
      by (rule udp_stream_step_Inr)
    obtain xs where xs: "q (route_sender route) = Some xs" "q1 = q(route_sender route \<mapsto> xs @ [?p bs])"
      using sent by (auto simp: chan_send_def split: option.splits if_splits)
    have "udp_stream_loop route r1 q1 = (e, r', q')"
      using "1.prems" step by (simp add: udp_stream_loop.simps [of route r])
    from "1.IH" [OF step refl refl this] obtain ps where
      ps: "q' = (case q1 (route_sender route) of None \<Rightarrow> q1 | Some xs \<Rightarrow> q1(route_sender route \<mapsto> xs @ ps))"
      "sq_destination ` set ps \<subseteq> {route_destination route}"
      "(\<Sum>p \<leftarrow> ps. 2 + length (sq_data p)) \<le> length (pending r1)" by blast
    have "length (pending r) = 2 + length bs + length (pending r1)"
      using quic_read_exact_pending [OF reads(1)] quic_read_exact_pending [OF reads(2)] by auto
    with ps xs show ?thesis
      by (intro exI [of _ "?p bs # ps"]) auto
  qed
qed

text \<open>
  (C19) The two loops that read UDP traffic from a peer end, and what they do is bounded by what the peer
  sent. A control stream of \<open>n\<close> bytes registers at most \<open>n / 7\<close> ids: exactly those it announces get a
  route, all to its own association, every other route stays, and when its handler ends the announced
  ids have none. A packet stream of \<open>n\<close> bytes only appends packets for its own destination to its own
  channel, of no more than \<open>n\<close> bytes together with their length fields. Neither panics.
\<close>

theorem squic_loops_bounded:
  "\<exists>e ids reg'. control_loop ch r [] reg = (e, ids, reg') \<and> 7 * length ids \<le> length (pending r) \<and> e \<noteq> Panic why \<and>
    (\<exists>m. dom m = set ids \<and> route_sender ` ran m \<subseteq> {ch} \<and> reg' = reg\<lparr>routes := routes reg ++ m\<rparr>) \<and>
    handle_udp_control_stream ch r reg = (Inl e, reg\<lparr>routes := routes reg |` (- set ids)\<rparr>) \<and>
    (\<exists>e' r' ps. udp_stream_loop route r q =
        (e', r', case q (route_sender route) of None \<Rightarrow> q | Some xs \<Rightarrow> q(route_sender route \<mapsto> xs @ ps)) \<and> e' \<noteq> Some (Panic why) \<and>
      sq_destination ` set ps \<subseteq> {route_destination route} \<and>
      (\<Sum>p \<leftarrow> ps. 2 + length (sq_data p)) \<le> length (pending r))"
proof -
  obtain e ids reg' where c: "control_loop ch r [] reg = (e, ids, reg')" by (metis prod_cases3)
  obtain e' r' q' where s: "udp_stream_loop route r q = (e', r', q')" by (metis prod_cases3)
  have ids: "7 * length ids \<le> length (pending r)" "e \<noteq> Panic why" "registers ch (set ids) reg reg'"
    using control_loop_work [OF c, of why] by auto
  obtain m where m: "dom m = set ids" "route_sender ` ran m \<subseteq> {ch}" "reg' = reg\<lparr>routes := routes reg ++ m\<rparr>"
    using ids(3) by (auto simp: registers_def)
  have "routes (registry_remove ids reg') = routes reg |` (- set ids)" "reg_closed (registry_remove ids reg') = reg_closed reg"
    using m(1) by (auto simp: fun_eq_iff registry_remove_routes m(3) restrict_map_def map_add_def domIff split: option.splits)
  then have "handle_udp_control_stream ch r reg = (Inl e, reg\<lparr>routes := routes reg |` (- set ids)\<rparr>)"
    by (simp add: handle_udp_control_stream_def c)
  with ids(1,2) m show ?thesis
    using c s udp_stream_loop_work [OF s] udp_stream_loop_no_panic [OF s, of why] by blast
qed

end
