(* ===== verification/Squic_Registry.thy ===== *)
theory Squic_Registry
  imports Squic_Udp
begin

text \<open>
  \<open>IncomingUdpRegistry\<close> under concurrency. Registering and closing change the shared state and then, in a
  second step, wake the waiters; a waiter takes a snapshot of the notifier, looks for its route,
  looks whether the registry is closed, and sleeps until the notifier moves past its snapshot.
  Every one of these is an atomic step of a transition system; the steps of different tasks
  interleave freely. \<open>epoch\<close> counts the calls of \<open>notify_waiters\<close>.
\<close>


section \<open>Steps\<close>

datatype wait_phase = Begin | Snapshot nat | Unrouted nat | Asleep nat | Done "udp_route result"

record reg_system =
  registry :: udp_registry
  epoch :: nat
  unnotified :: nat
  waiters :: "nat \<rightharpoonup> u16 \<times> wait_phase"

inductive reg_step :: "reg_system \<Rightarrow> reg_system \<Rightarrow> bool" where
  arrive: "waiters s t = None \<Longrightarrow> reg_step s (s\<lparr>waiters := (waiters s)(t \<mapsto> (i, Begin))\<rparr>)"
| notified: "waiters s t = Some (i, Begin) \<Longrightarrow>
    reg_step s (s\<lparr>waiters := (waiters s)(t \<mapsto> (i, Snapshot (epoch s)))\<rparr>)"
| found: "waiters s t = Some (i, Snapshot e) \<Longrightarrow> routes (registry s) i = Some route \<Longrightarrow>
    reg_step s (s\<lparr>waiters := (waiters s)(t \<mapsto> (i, Done (Inr route)))\<rparr>)"
| missing: "waiters s t = Some (i, Snapshot e) \<Longrightarrow> routes (registry s) i = None \<Longrightarrow>
    reg_step s (s\<lparr>waiters := (waiters s)(t \<mapsto> (i, Unrouted e))\<rparr>)"
| closed: "waiters s t = Some (i, Unrouted e) \<Longrightarrow> reg_closed (registry s) \<Longrightarrow>
    reg_step s (s\<lparr>waiters := (waiters s)(t \<mapsto> (i, Done (Inl Closed)))\<rparr>)"
| sleep: "waiters s t = Some (i, Unrouted e) \<Longrightarrow> \<not> reg_closed (registry s) \<Longrightarrow>
    reg_step s (s\<lparr>waiters := (waiters s)(t \<mapsto> (i, Asleep e))\<rparr>)"
| wake: "waiters s t = Some (i, Asleep e) \<Longrightarrow> e < epoch s \<Longrightarrow>
    reg_step s (s\<lparr>waiters := (waiters s)(t \<mapsto> (i, Begin))\<rparr>)"
| register: "reg_step s (s\<lparr>registry := registry_register i dest ch (registry s), unnotified := unnotified s + 1\<rparr>)"
| remove: "reg_step s (s\<lparr>registry := registry_remove ids (registry s)\<rparr>)"
| close: "reg_step s (s\<lparr>registry := registry_close (registry s), unnotified := unnotified s + 1\<rparr>)"
| notify: "unnotified s = Suc n \<Longrightarrow> reg_step s (s\<lparr>unnotified := n, epoch := epoch s + 1\<rparr>)"

inductive_cases reg_stepE: "reg_step s t"

definition reg_init :: "reg_system \<Rightarrow> bool" where
  "reg_init s \<longleftrightarrow> registry s = registry_default \<and> unnotified s = 0 \<and> waiters s = Map.empty"


section \<open>No wake-up is lost\<close>

text \<open>A change a sleeper would react to is either announced after its snapshot or about to be.\<close>

definition news :: "reg_system \<Rightarrow> nat \<Rightarrow> bool" where
  "news s e \<longleftrightarrow> e < epoch s \<or> 0 < unnotified s"

fun phase_ok :: "reg_system \<Rightarrow> u16 \<Rightarrow> wait_phase \<Rightarrow> bool" where
  "phase_ok s i (Snapshot e) = (e \<le> epoch s)"
| "phase_ok s i (Unrouted e) = (e \<le> epoch s \<and> (routes (registry s) i \<noteq> None \<longrightarrow> news s e))"
| "phase_ok s i (Asleep e) =
     (e \<le> epoch s \<and> (routes (registry s) i \<noteq> None \<or> reg_closed (registry s) \<longrightarrow> news s e))"
| "phase_ok s i _ = True"

definition reg_inv :: "reg_system \<Rightarrow> bool" where
  "reg_inv s \<longleftrightarrow> (\<forall>t i ph. waiters s t = Some (i, ph) \<longrightarrow> phase_ok s i ph)"

lemma reg_invD: "reg_inv s \<Longrightarrow> waiters s t = Some (i, ph) \<Longrightarrow> phase_ok s i ph"
  by (simp add: reg_inv_def)

lemma reg_inv_waiter: "reg_inv s \<Longrightarrow> phase_ok s i ph \<Longrightarrow> reg_inv (s\<lparr>waiters := (waiters s)(t \<mapsto> (i, ph))\<rparr>)"
proof -
  have "phase_ok (s\<lparr>waiters := w\<rparr>) j ps = phase_ok s j ps" for w j ps
    by (cases ps) (simp_all add: news_def)
  then show "reg_inv s \<Longrightarrow> phase_ok s i ph \<Longrightarrow> ?thesis"
    by (simp add: reg_inv_def)
qed

lemma reg_inv_change:
  assumes "reg_inv s" "waiters t = waiters s"
    and "\<And>i ph. phase_ok s i ph \<Longrightarrow> phase_ok t i ph"
  shows "reg_inv t"
  using assms by (simp add: reg_inv_def)

lemma reg_step_inv:
  assumes "reg_inv s" "reg_step s s'"
  shows "reg_inv s'"
  using assms(2)
proof (cases rule: reg_step.cases)
  case (missing t i e)
  then have "phase_ok s i (Snapshot e)"
    using reg_invD [OF assms(1)] by blast
  with missing show ?thesis
    using reg_inv_waiter [OF assms(1), of i "Unrouted e" t] by simp
next
  case (sleep t i e)
  then have "phase_ok s i (Unrouted e)"
    using reg_invD [OF assms(1)] by blast
  with sleep show ?thesis
    using reg_inv_waiter [OF assms(1), of i "Asleep e" t] by simp
next
  case (register i dest ch)
  show ?thesis
  proof (rule reg_inv_change [OF assms(1)])
    show "phase_ok s' j ph" if "phase_ok s j ph" for j ph
      using that register by (cases ph) (simp_all add: news_def)
  qed (simp add: register)
next
  case (remove ids)
  show ?thesis
  proof (rule reg_inv_change [OF assms(1)])
    show "phase_ok s' j ph" if "phase_ok s j ph" for j ph
      using that by (cases ph) (auto simp: remove news_def registry_remove_routes split: if_splits)
  qed (simp add: remove)
next
  case close
  show ?thesis
  proof (rule reg_inv_change [OF assms(1)])
    show "phase_ok s' j ph" if "phase_ok s j ph" for j ph
      using that close by (cases ph) (simp_all add: news_def registry_close_def)
  qed (simp add: close)
next
  case (notify n)
  show ?thesis
  proof (rule reg_inv_change [OF assms(1)])
    show "phase_ok s' j ph" if "phase_ok s j ph" for j ph
      using that notify by (cases ph) (simp_all add: news_def)
  qed (simp add: notify)
qed (simp_all add: reg_inv_waiter [OF assms(1)])

interpretation registry_system: invariant_system reg_init reg_step reg_inv
proof
  show "reg_inv s" if "reg_init s" for s
    using that by (simp add: reg_init_def reg_inv_def)
qed (rule reg_step_inv)


section \<open>Properties\<close>

lemma waiter_completes:
  assumes "waiters s t = Some (i, Begin)" "routes (registry s) i \<noteq> None \<or> reg_closed (registry s)"
  shows "\<exists>s' r. reg_step\<^sup>*\<^sup>* s s' \<and> waiters s' t = Some (i, Done r) \<and> registry s' = registry s \<and>
    registry_wait i (registry s) = Some r"
proof -
  let ?w = "\<lambda>ph. s\<lparr>waiters := (waiters s)(t \<mapsto> (i, ph))\<rparr>"
  have 1: "reg_step s (?w (Snapshot (epoch s)))"
    by (rule reg_step.notified [OF assms(1)])
  show ?thesis
  proof (cases "routes (registry s) i")
    case (Some route)
    have "reg_step (?w (Snapshot (epoch s))) (?w (Done (Inr route)))"
      using reg_step.found [of "?w (Snapshot (epoch s))" t i "epoch s" route] Some by simp
    with 1 Some show ?thesis
      by (intro exI [of _ "?w (Done (Inr route))"] exI [of _ "Inr route"])
        (auto simp: registry_wait_def intro: rtranclp.rtrancl_into_rtrancl)
  next
    case None
    have 2: "reg_step (?w (Snapshot (epoch s))) (?w (Unrouted (epoch s)))"
      using reg_step.missing [of "?w (Snapshot (epoch s))" t i "epoch s"] None by simp
    have "reg_step (?w (Unrouted (epoch s))) (?w (Done (Inl Closed)))"
      using reg_step.closed [of "?w (Unrouted (epoch s))" t i "epoch s"] None assms(2) by simp
    with 1 2 None assms(2) show ?thesis
      by (intro exI [of _ "?w (Done (Inl Closed))"] exI [of _ "Inl Closed"])
        (auto simp: registry_wait_def intro: rtranclp.rtrancl_into_rtrancl)
  qed
qed

text \<open>
  (C9) No wake-up is lost, whatever the interleaving: in every reachable state in which nobody still has
  to notify, a task asleep in \<open>wait\<close> whose id is registered by now, or whose registry is closed, can
  be woken, and from there runs to the end of \<open>wait\<close> with the route (or \<open>Closed\<close>).
\<close>

theorem registry_no_lost_wakeup:
  assumes "reg_init s0" "reg_step\<^sup>*\<^sup>* s0 s" "unnotified s = 0" "waiters s t = Some (i, Asleep e)"
    "routes (registry s) i \<noteq> None \<or> reg_closed (registry s)"
  shows "\<exists>s' r. reg_step\<^sup>*\<^sup>* s s' \<and> waiters s' t = Some (i, Done r) \<and> registry s' = registry s \<and>
    registry_wait i (registry s) = Some r"
proof -
  have "phase_ok s i (Asleep e)"
    by (rule reg_invD [OF registry_system.reachable_inv [OF assms(1,2)] assms(4)])
  then have "e < epoch s"
    using assms(3,5) by (auto simp: news_def)
  from reg_step.wake [OF assms(4) this]
  have step: "reg_step s (s\<lparr>waiters := (waiters s)(t \<mapsto> (i, Begin))\<rparr>)" .
  show ?thesis
    using waiter_completes [of "s\<lparr>waiters := (waiters s)(t \<mapsto> (i, Begin))\<rparr>" t i] assms(5) step
    by (auto intro: converse_rtranclp_into_rtranclp)
qed

text \<open>A run that ends with a sleeper whose route was registered after it fell asleep.\<close>

definition sleepy_start :: reg_system where
  "sleepy_start = \<lparr>registry = registry_default, epoch = 0, unnotified = 0, waiters = Map.empty\<rparr>"

definition sleepy_end :: reg_system where
  "sleepy_end = \<lparr>registry = registry_register 7 \<lparr>host = ''a'', port = 1\<rparr> 3 registry_default, epoch = 1, unnotified = 0,
     waiters = [5 \<mapsto> (7, Asleep 0)]\<rparr>"

lemma sleepy_run: "reg_step\<^sup>*\<^sup>* sleepy_start sleepy_end"
proof -
  let ?s = "\<lambda>ph. sleepy_start\<lparr>waiters := [5 \<mapsto> (7, ph)]\<rparr>"
  let ?r = "sleepy_end\<lparr>epoch := 0, unnotified := 1\<rparr>"
  have "reg_step sleepy_start (?s Begin)"
    using reg_step.arrive [of sleepy_start 5 7] by (simp add: sleepy_start_def)
  moreover have "reg_step (?s Begin) (?s (Snapshot 0))"
    using reg_step.notified [of "?s Begin" 5 7] by (simp add: sleepy_start_def)
  moreover have "reg_step (?s (Snapshot 0)) (?s (Unrouted 0))"
    using reg_step.missing [of "?s (Snapshot 0)" 5 7 0] by (simp add: sleepy_start_def registry_default_def)
  moreover have "reg_step (?s (Unrouted 0)) (?s (Asleep 0))"
    using reg_step.sleep [of "?s (Unrouted 0)" 5 7 0] by (simp add: sleepy_start_def registry_default_def)
  moreover have "reg_step (?s (Asleep 0)) ?r"
    using reg_step.register [of "?s (Asleep 0)" 7 "\<lparr>host = ''a'', port = 1\<rparr>" 3]
    by (simp add: sleepy_start_def sleepy_end_def)
  moreover have "reg_step ?r sleepy_end"
    using reg_step.notify [of ?r 0] by (simp add: sleepy_end_def)
  ultimately show ?thesis
    by (meson converse_rtranclp_into_rtranclp rtranclp.rtrancl_refl)
qed

theorem registry_no_lost_wakeup_witness:
  "\<exists>s' r. reg_step\<^sup>*\<^sup>* sleepy_end s' \<and> waiters s' 5 = Some (7, Done r) \<and> registry s' = registry sleepy_end \<and>
    registry_wait 7 (registry sleepy_end) = Some r"
  by (rule registry_no_lost_wakeup [OF _ sleepy_run])
    (simp_all add: sleepy_start_def sleepy_end_def reg_init_def registry_register_def)

end
