(* ===== verification/Squic_Delivery.thy ===== *)
theory Squic_Delivery
  imports Squic_Udp
begin

text \<open>
  What the two halves of the UDP plane achieve together: a packet sent in datagram mode reaches the
  peer's channel with its data and destination, whatever is lost, duplicated or reordered among the
  datagrams; a stream carries its packets in order; closing a control stream removes its routes.
\<close>


section \<open>Announcements\<close>

definition control_frame :: "address \<Rightarrow> u16 \<Rightarrow> bytes" where
  "control_frame a i = (case encode_address a of Inl _ \<Rightarrow> [] | Inr bs \<Rightarrow> bs @ to_be_bytes i)"

definition encodable :: "address \<Rightarrow> bool" where
  "encodable a \<longleftrightarrow> (\<exists>bs. encode_address a = Inr bs)"

lemma control_loop_frame:
  assumes "encodable a"
  shows "control_loop ch \<lparr>pending = control_frame a i @ rest, ending = e\<rparr> ids reg =
    control_loop ch \<lparr>pending = rest, ending = e\<rparr> (ids @ [i]) (registry_register i (canonical a) ch reg)"
proof -
  obtain bs where bs: "encode_address a = Inr bs"
    using assms by (auto simp: encodable_def)
  show ?thesis
    by (subst control_loop.simps) (simp add: control_step_def control_frame_def bs decode_encoded_address [OF bs] Let_def)
qed

definition numbered :: "u16 \<Rightarrow> nat \<Rightarrow> u16" where
  "numbered n0 k = n0 + word_of_nat k"

lemma numbered_inject: "j < 65536 \<Longrightarrow> k < 65536 \<Longrightarrow> numbered n j = numbered n k \<longleftrightarrow> j = k"
  by (simp add: numbered_def word_of_nat_inj)

definition announcements :: "u16 \<Rightarrow> address list \<Rightarrow> bytes" where
  "announcements n as = concat (map (\<lambda>k. control_frame (as ! k) (numbered n k)) [0..<length as])"

definition announced_routes :: "chan \<Rightarrow> u16 \<Rightarrow> address list \<Rightarrow> udp_registry \<Rightarrow> udp_registry" where
  "announced_routes ch n as reg =
     foldl (\<lambda>reg k. registry_register (numbered n k) (canonical (as ! k)) ch reg) reg [0..<length as]"

lemma announcements_snoc:
  "announcements n (as @ [a]) = announcements n as @ control_frame a (numbered n (length as))"
proof -
  have "map (\<lambda>k. control_frame ((as @ [a]) ! k) (numbered n k)) [0..<length as] =
      map (\<lambda>k. control_frame (as ! k) (numbered n k)) [0..<length as]"
    by (rule map_cong) (simp_all add: nth_append)
  then show ?thesis
    unfolding announcements_def by (simp del: map_eq_conv)
qed

lemma announced_routes_snoc:
  "announced_routes ch n (as @ [a]) reg =
     registry_register (numbered n (length as)) (canonical a) ch (announced_routes ch n as reg)"
proof -
  have "foldl (\<lambda>reg k. registry_register (numbered n k) (canonical ((as @ [a]) ! k)) ch reg) reg [0..<length as] =
      foldl (\<lambda>reg k. registry_register (numbered n k) (canonical (as ! k)) ch reg) reg [0..<length as]"
    by (rule foldl_cong) (simp_all add: nth_append)
  then show ?thesis
    by (simp add: announced_routes_def)
qed

lemma control_loop_announcements:
  assumes "\<forall>a \<in> set as. encodable a"
  shows "control_loop ch \<lparr>pending = announcements n as @ rest, ending = e\<rparr> ids reg =
    control_loop ch \<lparr>pending = rest, ending = e\<rparr> (ids @ map (numbered n) [0..<length as]) (announced_routes ch n as reg)"
  using assms
proof (induction as arbitrary: rest rule: rev_induct)
  case Nil
  then show ?case
    by (simp add: announcements_def announced_routes_def)
next
  case (snoc a as)
  then show ?case
    using snoc.IH [of "control_frame a (numbered n (length as)) @ rest"]
    by (simp add: announcements_snoc announced_routes_snoc control_loop_frame)
qed

lemma announced_routes_lookup:
  assumes "length as \<le> 65536" "k < length as"
  shows "routes (announced_routes ch n as reg) (numbered n k) =
    Some \<lparr>route_sender = ch, route_destination = canonical (as ! k)\<rparr>"
  using assms
proof (induction as rule: rev_induct)
  case (snoc a as)
  show ?case
  proof (cases "k = length as")
    case True
    then show ?thesis
      by (simp add: announced_routes_snoc registry_register_def nth_append)
  next
    case False
    then have k: "k < length as" and ne: "numbered n k \<noteq> numbered n (length as)"
      using snoc.prems numbered_inject [of k "length as" n] by auto
    then show ?thesis
      using snoc.IH snoc.prems(1) by (simp add: announced_routes_snoc registry_register_def nth_append)
  qed
qed simp


section \<open>The sender's bookkeeping\<close>

definition link_open :: "squic_link \<Rightarrow> bool" where
  "link_open link \<longleftrightarrow> (\<forall>sent frame. link_datagram link sent frame = None)"

definition fresh_sender :: "u16 \<Rightarrow> packet_sender" where
  "fresh_sender n = \<lparr>sender_mode = DatagramMode, sender_next_id = n, control = fresh_writer, contexts = Map.empty,
     datagrams = [], opened = 0\<rparr>"

definition sent_as :: "u16 \<Rightarrow> address list \<Rightarrow> squic_packet \<Rightarrow> bytes \<Rightarrow> bool" where
  "sent_as n as p d \<longleftrightarrow> (\<exists>k < length as. as ! k = sq_destination p \<and> d = to_be_bytes (numbered n k) @ sq_data p)"

definition sender_inv :: "bytes \<Rightarrow> u16 \<Rightarrow> address list \<Rightarrow> squic_packet list \<Rightarrow> packet_sender \<Rightarrow> bool" where
  "sender_inv pre n as ps s \<longleftrightarrow>
     sender_mode s = DatagramMode \<and> sender_next_id s = numbered n (length as) \<and>
     control s = \<lparr>written = pre @ announcements n as, room = None\<rparr> \<and>
     (\<forall>a \<in> set as. encodable a) \<and> distinct as \<and> dom (contexts s) = set as \<and>
     (\<forall>k < length as. contexts s (as ! k) = Some (DatagramContext (numbered n k))) \<and>
     list_all2 (sent_as n as) ps (datagrams s)"

text \<open>A sender that has written \<open>pre\<close> on its control stream and nothing else.\<close>

definition sender_after :: "bytes \<Rightarrow> u16 \<Rightarrow> packet_sender" where
  "sender_after pre n = (fresh_sender n)\<lparr>control := \<lparr>written = pre, room = None\<rparr>\<rparr>"

lemma sender_inv_after: "sender_inv pre n [] [] (sender_after pre n)"
  by (simp add: sender_inv_def sender_after_def fresh_sender_def announcements_def numbered_def)

lemma sender_after_Nil: "sender_after [] n = fresh_sender n"
  by (simp add: sender_after_def fresh_sender_def fresh_writer_def)

lemma sent_as_mono: "sent_as n as p d \<Longrightarrow> sent_as n (as @ bs) p d"
  unfolding sent_as_def by (metis length_append nth_append trans_less_add1)

lemma quic_write_all_unlimited:
  "quic_write_all bs \<lparr>written = w, room = None\<rparr> = Inr \<lparr>written = w @ bs, room = None\<rparr>"
  by (simp add: quic_write_all_def accepts_def emit_def)

lemma open_context_inv:
  assumes "sender_inv pre n as ps s" "encodable a" "contexts s a = None"
  shows "\<exists>s'. open_context link a s = (Inr (), s') \<and> sender_inv pre n (as @ [a]) ps s'"
proof -
  obtain bs where bs: "encode_address a = Inr bs"
    using assms(2) by (auto simp: encodable_def)
  let ?i = "numbered n (length as)"
  let ?s = "s\<lparr>sender_next_id := ?i + 1, control := \<lparr>written = pre @ announcements n (as @ [a]), room = None\<rparr>,
      contexts := (contexts s)(a \<mapsto> DatagramContext ?i)\<rparr>"
  have a: "a \<notin> set as"
    using assms(1,3) by (auto simp: sender_inv_def)
  have "open_context link a s = (Inr (), ?s)"
    using assms(1) bs
    by (simp add: open_context_def announce_def sender_inv_def quic_write_all_unlimited announcements_snoc control_frame_def
        Let_def)
  moreover have "sender_inv pre n (as @ [a]) ps ?s"
    using assms(1,2) a
    by (auto simp: sender_inv_def numbered_def nth_append less_Suc_eq in_set_conv_nth sent_as_mono elim!: list_all2_mono)
  ultimately show ?thesis by blast
qed

lemma send_in_context_inv:
  assumes "sender_inv pre n as ps s" "link_open link" "sq_destination p \<in> set as"
  shows "\<exists>s'. send_in_context link p s = (Inr (), s') \<and> sender_inv pre n as (ps @ [p]) s'"
proof -
  obtain k where k: "k < length as" "as ! k = sq_destination p"
    using assms(3) by (auto simp: in_set_conv_nth)
  then have c: "contexts s (sq_destination p) = Some (DatagramContext (numbered n k))"
    using assms(1) by (auto simp: sender_inv_def)
  have "sent_as n as p (to_be_bytes (numbered n k) @ sq_data p)"
    using k by (auto simp: sent_as_def)
  then show ?thesis
    using assms(1,2) c by (auto simp: send_in_context_def link_open_def sender_inv_def list_all2_appendI)
qed

lemma squic_send_inv:
  assumes "sender_inv pre n as ps s" "link_open link" "encodable (sq_destination p)"
  shows "\<exists>s' as'. squic_send link p s = (Inr (), s') \<and> sender_inv pre n as' (ps @ [p]) s' \<and>
    set as' = insert (sq_destination p) (set as)"
proof (cases "contexts s (sq_destination p)")
  case None
  obtain s1 where s1: "open_context link (sq_destination p) s = (Inr (), s1)" "sender_inv pre n (as @ [sq_destination p]) ps s1"
    using open_context_inv [OF assms(1,3) None] by blast
  obtain s2 where "send_in_context link p s1 = (Inr (), s2)" "sender_inv pre n (as @ [sq_destination p]) (ps @ [p]) s2"
    using send_in_context_inv [OF s1(2) assms(2)] by auto
  then show ?thesis
    using None s1(1) by (intro exI [of _ s2] exI [of _ "as @ [sq_destination p]"]) (simp add: squic_send_def)
next
  case (Some c)
  then have d: "sq_destination p \<in> set as"
    using assms(1) by (auto simp: sender_inv_def)
  then obtain s2 where "send_in_context link p s = (Inr (), s2)" "sender_inv pre n as (ps @ [p]) s2"
    using send_in_context_inv [OF assms(1,2)] by auto
  then show ?thesis
    using Some d by (intro exI [of _ s2] exI [of _ as]) (auto simp: squic_send_def)
qed

fun send_all :: "squic_link \<Rightarrow> squic_packet list \<Rightarrow> packet_sender \<Rightarrow> unit result \<times> packet_sender" where
  "send_all link [] s = (Inr (), s)"
| "send_all link (p # ps) s = (case squic_send link p s of
       (Inl e, s) \<Rightarrow> (Inl e, s)
     | (Inr _, s) \<Rightarrow> send_all link ps s)"

lemma send_all_inv:
  assumes "sender_inv pre n as qs s" "link_open link" "\<forall>p \<in> set ps. encodable (sq_destination p)"
  shows "\<exists>s' as'. send_all link ps s = (Inr (), s') \<and> sender_inv pre n as' (qs @ ps) s' \<and>
    set as' = set as \<union> sq_destination ` set ps"
  using assms(1,3)
proof (induction ps arbitrary: s as qs)
  case (Cons p ps)
  obtain s1 as1 where 1: "squic_send link p s = (Inr (), s1)" "sender_inv pre n as1 (qs @ [p]) s1"
    "set as1 = insert (sq_destination p) (set as)"
    using squic_send_inv [OF Cons.prems(1) assms(2)] Cons.prems(2) by fastforce
  from Cons.IH [OF 1(2)] Cons.prems(2) 1 show ?case by fastforce
qed auto


section \<open>Delivery of datagrams\<close>

fun deliver_all :: "udp_registry \<Rightarrow> bytes list \<Rightarrow> chan_store \<Rightarrow> chan_store result option" where
  "deliver_all reg [] q = Some (Inr q)"
| "deliver_all reg (d # ds) q = (case handle_incoming_udp_datagram d reg q of
       Some (Inr q) \<Rightarrow> deliver_all reg ds q
     | x \<Rightarrow> x)"

definition received_as :: "squic_packet \<Rightarrow> squic_packet" where
  "received_as p = p\<lparr>sq_destination := canonical (sq_destination p)\<rparr>"

lemma deliver_sent:
  assumes "sent_as n as p d" "length as \<le> 65536" "q ch = Some xs" "length xs < UDP_CAPACITY"
  shows "handle_incoming_udp_datagram d (announced_routes ch n as reg) q = Some (Inr (q(ch \<mapsto> xs @ [received_as p])))"
proof -
  obtain k where k: "k < length as" "as ! k = sq_destination p" "d = to_be_bytes (numbered n k) @ sq_data p"
    using assms(1) by (auto simp: sent_as_def)
  have "registry_wait (numbered n k) (announced_routes ch n as reg) =
      Some (Inr \<lparr>route_sender = ch, route_destination = canonical (sq_destination p)\<rparr>)"
    using announced_routes_lookup [OF assms(2) k(1)] k(2) by (simp add: registry_wait_def)
  then show ?thesis
    using assms(3,4) k(3) by (cases p) (simp add: handle_incoming_udp_datagram_def chan_send_def received_as_def)
qed

lemma deliver_all_sent:
  assumes "length as \<le> 65536" "list_all2 (sent_as n as) ps ds"
  shows "q ch = Some xs \<Longrightarrow> length xs + length ps \<le> UDP_CAPACITY \<Longrightarrow>
    deliver_all (announced_routes ch n as reg) ds q = Some (Inr (q(ch \<mapsto> xs @ map received_as ps)))"
  using assms(2)
proof (induction ps ds arbitrary: q xs rule: list_all2_induct)
  case Nil
  then show ?case
    by (auto simp: fun_upd_idem)
next
  case (Cons p ps d ds)
  then show ?case
    using deliver_sent [where q = q and ch = ch and reg = reg, OF Cons.hyps(1) assms(1) Cons.prems(1)]
    by (auto simp: fun_upd_upd)
qed


section \<open>Streams\<close>

definition stream_frame :: "bytes \<Rightarrow> bytes" where
  "stream_frame bs = to_be_bytes (word_of_nat (length bs) :: u16) @ bs"

lemma udp_stream_frame:
  assumes "length bs \<le> 65535" "q (route_sender route) = Some xs" "length xs < UDP_CAPACITY"
  shows "udp_stream_loop route \<lparr>pending = stream_frame bs @ rest, ending = e\<rparr> q =
    udp_stream_loop route \<lparr>pending = rest, ending = e\<rparr>
      (q(route_sender route \<mapsto> xs @ [\<lparr>sq_data = bs, sq_destination = route_destination route\<rparr>]))"
proof -
  have "unat (word_of_nat (length bs) :: u16) = length bs"
    using assms(1) by (simp add: unat_of_nat_small)
  then show ?thesis
    using assms(2,3) by (subst udp_stream_loop.simps) (simp add: udp_stream_step_def stream_frame_def chan_send_def)
qed

lemma udp_stream_frames:
  assumes "\<forall>bs \<in> set bss. length bs \<le> 65535" "q (route_sender route) = Some xs" "length xs + length bss \<le> UDP_CAPACITY"
  shows "udp_stream_loop route \<lparr>pending = concat (map stream_frame bss), ending = e\<rparr> q =
    (Some (quic_read_failure 0 e), \<lparr>pending = [], ending = e\<rparr>,
     q(route_sender route \<mapsto> xs @ map (\<lambda>bs. \<lparr>sq_data = bs, sq_destination = route_destination route\<rparr>) bss))"
  using assms
proof (induction bss arbitrary: q xs)
  case Nil
  then show ?case
    by (subst udp_stream_loop.simps) (auto simp: udp_stream_step_def quic_read_exact_def fun_upd_idem)
next
  case (Cons bs bss)
  let ?q = "q(route_sender route \<mapsto> xs @ [\<lparr>sq_data = bs, sq_destination = route_destination route\<rparr>])"
  have "udp_stream_loop route \<lparr>pending = concat (map stream_frame (bs # bss)), ending = e\<rparr> q =
      udp_stream_loop route \<lparr>pending = concat (map stream_frame bss), ending = e\<rparr> ?q"
    using Cons.prems udp_stream_frame [where q = q] by simp
  then show ?case
    using Cons.IH [of ?q] Cons.prems(1,3) by (auto simp: fun_upd_def cong: if_cong)
qed


section \<open>Closing a control stream\<close>

lemma control_loop_routes:
  assumes "control_loop ch r ids reg = (e, ids', reg')"
  shows "set ids \<subseteq> set ids' \<and> reg_closed reg' = reg_closed reg \<and>
    (\<forall>i. i \<notin> set ids' \<longrightarrow> routes reg' i = routes reg i)"
  using assms
proof (induction ch r ids reg rule: control_loop.induct)
  case (1 ch r ids reg)
  note loop = "1.prems" [unfolded control_loop.simps [of ch r]]
  consider (stop) "ids' = ids" "reg' = reg"
    | (step) i r1 reg1 where "control_step ch r reg = Inr (i, r1, reg1)" "control_loop ch r1 (ids @ [i]) reg1 = (e, ids', reg')"
    using loop by (auto split: sum.splits prod.splits)
  then show ?case
  proof cases
    case step
    from "1.IH" [OF step(1) refl refl step(2)] step(1) show ?thesis
      by (auto simp: registry_register_def elim!: control_step_Inr)
  qed simp
qed

lemma handle_control_routes:
  assumes "control_loop ch r [] reg = (e, ids, reg1)"
  shows "fst (handle_udp_control_stream ch r reg) = Inl e"
    "routes (snd (handle_udp_control_stream ch r reg)) i = (if i \<in> set ids then None else routes reg i)"
  using control_loop_routes [OF assms] by (simp_all add: handle_udp_control_stream_def assms registry_remove_routes)


lemma send_stream_context:
  assumes "contexts s a = Some (StreamContext \<lparr>written = w, room = None\<rparr>)" "length bs \<le> 65535"
  shows "squic_send link \<lparr>sq_data = bs, sq_destination = a\<rparr> s =
    (Inr (), s\<lparr>contexts := (contexts s)(a \<mapsto> StreamContext \<lparr>written = w @ stream_frame bs, room = None\<rparr>)\<rparr>)"
  using assms by (simp add: squic_send_def send_in_context_def quic_write_all_unlimited stream_frame_def)

lemma send_all_stream:
  assumes "\<forall>bs \<in> set bss. length bs \<le> 65535" "contexts s a = Some (StreamContext \<lparr>written = w, room = None\<rparr>)"
  shows "\<exists>s'. send_all link (map (\<lambda>bs. \<lparr>sq_data = bs, sq_destination = a\<rparr>) bss) s = (Inr (), s') \<and>
    contexts s' a = Some (StreamContext \<lparr>written = w @ concat (map stream_frame bss), room = None\<rparr>)"
  using assms
proof (induction bss arbitrary: s w)
  case (Cons bs bss)
  then show ?case
    using Cons.IH [of "s\<lparr>contexts := (contexts s)(a \<mapsto> StreamContext \<lparr>written = w @ stream_frame bs, room = None\<rparr>)\<rparr>"
        "w @ stream_frame bs"] send_stream_context [OF Cons.prems(2)]
    by simp
qed simp


lemma send_and_deliver:
  assumes "link_open link" "\<forall>p \<in> set ps. encodable (sq_destination p)"
    "card (sq_destination ` set ps) \<le> 65536" "q ch = Some xs" "set js \<subseteq> {..<length ps}" "length xs + length js \<le> UDP_CAPACITY"
  obtains s bs where "send_all link ps (sender_after pre n) = (Inr (), s)" "length (datagrams s) = length ps"
    "written (control s) = pre @ bs"
    "\<And>e. deliver_all (snd (snd (control_loop ch \<lparr>pending = bs, ending = e\<rparr> [] reg)))
       (map (\<lambda>j. datagrams s ! j) js) q = Some (Inr (q(ch \<mapsto> xs @ map (\<lambda>j. received_as (ps ! j)) js)))"
proof -
  obtain s as where s: "send_all link ps (sender_after pre n) = (Inr (), s)" "sender_inv pre n as ps s"
    "set as = sq_destination ` set ps"
    using send_all_inv [OF sender_inv_after assms(1,2), of pre n] by auto
  have inv: "control s = \<lparr>written = pre @ announcements n as, room = None\<rparr>" "\<forall>a \<in> set as. encodable a" "distinct as"
    "list_all2 (sent_as n as) ps (datagrams s)"
    using s(2) by (simp_all add: sender_inv_def)
  have len: "length as \<le> 65536"
    using assms(3) s(3) distinct_card [OF inv(3)] by simp
  have "list_all2 (sent_as n as) (map (\<lambda>j. ps ! j) js) (map (\<lambda>j. datagrams s ! j) js)"
    using inv(4) assms(5) by (auto simp: list_all2_conv_all_nth dest: nth_mem)
  from deliver_all_sent [where q = q and ch = ch, OF len this assms(4)] assms(6)
  have "deliver_all (announced_routes ch n as reg) (map (\<lambda>j. datagrams s ! j) js) q =
      Some (Inr (q(ch \<mapsto> xs @ map (\<lambda>j. received_as (ps ! j)) js)))"
    by (simp add: comp_def)
  moreover have "snd (snd (control_loop ch \<lparr>pending = announcements n as, ending = e\<rparr> [] reg)) =
      announced_routes ch n as reg" for e
    using control_loop_announcements [OF inv(2), of ch n "[]" e "[]" reg]
    by (simp add: control_step_def control_loop.simps [of ch "\<lparr>pending = [], ending = e\<rparr>"] decode_address_def quic_read_exact_def)
  ultimately show ?thesis
    using s(1) list_all2_lengthD [OF inv(4)] inv(1) by (intro that [of s "announcements n as"]) auto
qed


section \<open>Properties\<close>

text \<open>
  Datagram mode, end to end. All packets to encodable destinations are accepted; after the peer has
  processed the announcements on the control stream, any selection of the emitted datagrams, in any
  order and with repetitions, puts exactly the corresponding packets on the channel, each with its
  data and its destination, as long as no more than 65536 destinations share the 16-bit ids and the
  channel has room for them.
\<close>

lemma squic_datagram_delivery:
  assumes "link_open link" "\<forall>p \<in> set ps. encodable (sq_destination p)"
    "card (sq_destination ` set ps) \<le> 65536" "q ch = Some xs" "set js \<subseteq> {..<length ps}" "length xs + length js \<le> UDP_CAPACITY"
  shows "\<exists>s. send_all link ps (fresh_sender n) = (Inr (), s) \<and> length (datagrams s) = length ps \<and>
    (\<forall>e. deliver_all (snd (snd (control_loop ch \<lparr>pending = written (control s), ending = e\<rparr> [] registry_default)))
       (map (\<lambda>j. datagrams s ! j) js) q = Some (Inr (q(ch \<mapsto> xs @ map (\<lambda>j. received_as (ps ! j)) js))))"
proof -
  obtain s bs where s: "send_all link ps (sender_after [] n) = (Inr (), s)" "length (datagrams s) = length ps"
    "written (control s) = [] @ bs"
    "\<And>e. deliver_all (snd (snd (control_loop ch \<lparr>pending = bs, ending = e\<rparr> [] registry_default)))
       (map (\<lambda>j. datagrams s ! j) js) q = Some (Inr (q(ch \<mapsto> xs @ map (\<lambda>j. received_as (ps ! j)) js)))"
    using send_and_deliver [where q = q and pre = "[]" and n = n and reg = registry_default, OF assms] by blast
  then show ?thesis
    by (auto simp: sender_after_Nil)
qed

lemma first_stream_send:
  assumes "sender_mode s = StreamMode" "contexts s a = None" "encode_address a = Inr addr" "room (control s) = None"
    "link_open_uni link (opened s) = Inr fresh_writer" "sq_destination p = a"
  shows "squic_send link p s = send_in_context link p (s\<lparr>sender_next_id := sender_next_id s + 1,
    control := emit (addr @ to_be_bytes (sender_next_id s)) (control s), opened := opened s + 1,
    contexts := (contexts s)(a \<mapsto> StreamContext \<lparr>written = to_be_bytes (sender_next_id s), room = None\<rparr>)\<rparr>)"
  using assms by (simp add: squic_send_def open_context_def announce_def Let_def quic_write_all_def accepts_def emit_def fresh_writer_def)

text \<open>
  (C18) Stream mode. Sending to a destination whose stream is open writes length-prefixed frames, and the
  peer that reads the stream puts the packets on the channel of the announced route (as far as it has
  room), all of them and in order. The first packet to a destination first announces it on the
  control stream with the next id, opens a stream and writes the id there; the packet is then sent as
  on an open stream. A packet over 65535 bytes is refused without a byte of it written; when it is
  the first to its destination, the announcement and the opened stream remain.
\<close>

theorem squic_stream_delivery:
  assumes "contexts s a = Some (StreamContext \<lparr>written = to_be_bytes i, room = None\<rparr>)"
    "\<forall>bs \<in> set bss. length bs \<le> 65535" "routes reg i = Some route" "q (route_sender route) = Some xs"
    "length xs + length bss \<le> UDP_CAPACITY"
    "sender_mode t = StreamMode" "contexts t a' = None" "encode_address a' = Inr addr" "room (control t) = None"
    "link_open_uni link (opened t) = Inr fresh_writer"
  defines "t' \<equiv> t\<lparr>sender_next_id := sender_next_id t + 1, control := emit (addr @ to_be_bytes (sender_next_id t)) (control t), opened := opened t + 1,
    contexts := (contexts t)(a' \<mapsto> StreamContext \<lparr>written = to_be_bytes (sender_next_id t), room = None\<rparr>)\<rparr>"
  shows "(\<exists>s' w. send_all link (map (\<lambda>bs. \<lparr>sq_data = bs, sq_destination = a\<rparr>) bss) s = (Inr (), s') \<and>
      contexts s' a = Some (StreamContext w) \<and>
      (\<forall>e. handle_incoming_udp_stream \<lparr>pending = written w, ending = e\<rparr> reg q =
        (Some (quic_read_failure 0 e), \<lparr>pending = [], ending = e\<rparr>, q(route_sender route \<mapsto>
          xs @ map (\<lambda>bs. \<lparr>sq_data = bs, sq_destination = route_destination route\<rparr>) bss)))) \<and>
    (\<forall>p. sq_destination p = a \<and> length (sq_data p) > 65535 \<longrightarrow>
       squic_send link p s = (Inl (Protocol ''ShadowQuic UDP packet exceeds 65535 bytes''), s)) \<and>
    (\<forall>p. sq_destination p = a' \<longrightarrow> squic_send link p t =
       (if length (sq_data p) > 65535 then (Inl (Protocol ''ShadowQuic UDP packet exceeds 65535 bytes''), t')
        else squic_send link p t'))"
proof -
  obtain s' where s': "send_all link (map (\<lambda>bs. \<lparr>sq_data = bs, sq_destination = a\<rparr>) bss) s = (Inr (), s')"
    "contexts s' a = Some (StreamContext \<lparr>written = to_be_bytes i @ concat (map stream_frame bss), room = None\<rparr>)"
    using send_all_stream [OF assms(2,1)] by blast
  have "handle_incoming_udp_stream \<lparr>pending = to_be_bytes i @ concat (map stream_frame bss), ending = e\<rparr> reg q =
      (Some (quic_read_failure 0 e), \<lparr>pending = [], ending = e\<rparr>, q(route_sender route \<mapsto>
        xs @ map (\<lambda>bs. \<lparr>sq_data = bs, sq_destination = route_destination route\<rparr>) bss))" for e
    using udp_stream_frames [where q = q and route = route, OF assms(2,4,5)] assms(3)
    by (simp add: handle_incoming_udp_stream_def registry_wait_def)
  moreover have "squic_send link p t = send_in_context link p t'" "squic_send link p t' = send_in_context link p t'" if "sq_destination p = a'" for p
    using first_stream_send [OF assms(6-10) that] that by (simp_all add: t'_def squic_send_def)
  ultimately show ?thesis
    using s' assms(1) by (auto simp: squic_send_def send_in_context_def t'_def)
qed

theorem squic_stream_delivery_witness:
  "\<exists>s' w t'. send_all \<lparr>link_datagram = \<lambda>_ _. None, link_open_uni = \<lambda>_. Inr fresh_writer\<rparr>
      [\<lparr>sq_data = [1, 2], sq_destination = \<lparr>host = ''a'', port = 1\<rparr>\<rparr>]
      \<lparr>sender_mode = StreamMode, sender_next_id = 6, control = fresh_writer,
       contexts = [\<lparr>host = ''a'', port = 1\<rparr> \<mapsto> StreamContext \<lparr>written = to_be_bytes (5 :: u16), room = None\<rparr>],
       datagrams = [], opened = 1\<rparr> = (Inr (), s') \<and>
    contexts s' \<lparr>host = ''a'', port = 1\<rparr> = Some (StreamContext w) \<and>
    handle_incoming_udp_stream \<lparr>pending = written w, ending = Finished\<rparr>
      \<lparr>routes = [5 \<mapsto> \<lparr>route_sender = 4, route_destination = \<lparr>host = ''a'', port = 1\<rparr>\<rparr>], reg_closed = False\<rparr> (\<lambda>_. Some []) =
    (Some (quic_read_failure 0 Finished), \<lparr>pending = [], ending = Finished\<rparr>, (\<lambda>_. Some [])(4 \<mapsto> [\<lparr>sq_data = [1, 2], sq_destination = \<lparr>host = ''a'', port = 1\<rparr>\<rparr>])) \<and>
    squic_send \<lparr>link_datagram = \<lambda>_ _. None, link_open_uni = \<lambda>_. Inr fresh_writer\<rparr>
      \<lparr>sq_data = replicate 65536 0, sq_destination = \<lparr>host = ''a'', port = 1\<rparr>\<rparr> ((fresh_sender 6)\<lparr>sender_mode := StreamMode\<rparr>) =
    (Inl (Protocol ''ShadowQuic UDP packet exceeds 65535 bytes''), t') \<and> sender_next_id t' = 7 \<and> opened t' = 1"
proof -
  let ?a = "\<lparr>host = ''a'', port = 1\<rparr>" and ?link = "\<lparr>link_datagram = \<lambda>_ _. None, link_open_uni = \<lambda>_. Inr fresh_writer\<rparr>"
  let ?s = "\<lparr>sender_mode = StreamMode, sender_next_id = 6, control = fresh_writer,
    contexts = [?a \<mapsto> StreamContext \<lparr>written = to_be_bytes (5 :: u16), room = None\<rparr>], datagrams = [], opened = 1\<rparr>"
  let ?t = "(fresh_sender 6)\<lparr>sender_mode := StreamMode\<rparr>"
  obtain addr where addr: "encode_address ?a = Inr addr"
    using encode_address_domain [of ?a] by (auto simp: is_ascii_def byte_of_char_def)
  have t: "sender_mode ?t = StreamMode" "contexts ?t ?a = None" "room (control ?t) = None" "link_open_uni ?link (opened ?t) = Inr fresh_writer"
    by (simp_all add: fresh_sender_def fresh_writer_def)
  note claim = squic_stream_delivery [of ?s ?a 5 "[[1, 2]]" "\<lparr>routes = [5 \<mapsto> \<lparr>route_sender = 4, route_destination = ?a\<rparr>], reg_closed = False\<rparr>"
      "\<lparr>route_sender = 4, route_destination = ?a\<rparr>" "\<lambda>_. Some []" "[]" ?t ?a addr ?link]
  have first: "\<exists>s' w. send_all ?link [\<lparr>sq_data = [1, 2], sq_destination = ?a\<rparr>] ?s = (Inr (), s') \<and> contexts s' ?a = Some (StreamContext w) \<and>
      handle_incoming_udp_stream \<lparr>pending = written w, ending = Finished\<rparr>
        \<lparr>routes = [5 \<mapsto> \<lparr>route_sender = 4, route_destination = ?a\<rparr>], reg_closed = False\<rparr> (\<lambda>_. Some []) =
      (Some (quic_read_failure 0 Finished), \<lparr>pending = [], ending = Finished\<rparr>, (\<lambda>_. Some [])(4 \<mapsto> [\<lparr>sq_data = [1, 2], sq_destination = ?a\<rparr>]))"
    using claim [THEN conjunct1] t addr by (auto simp: UDP_CAPACITY_def)
  have "squic_send ?link \<lparr>sq_data = replicate 65536 0, sq_destination = ?a\<rparr> ?t = (Inl (Protocol ''ShadowQuic UDP packet exceeds 65535 bytes''), t') \<and>
      sender_next_id t' = 7 \<and> opened t' = 1"
    if "t' = ?t\<lparr>sender_next_id := sender_next_id ?t + 1, control := emit (addr @ to_be_bytes (sender_next_id ?t)) (control ?t), opened := opened ?t + 1,
      contexts := (contexts ?t)(?a \<mapsto> StreamContext \<lparr>written = to_be_bytes (sender_next_id ?t), room = None\<rparr>)\<rparr>" for t'
    using claim [THEN conjunct2, THEN conjunct2, rule_format, of "\<lparr>sq_data = replicate 65536 0, sq_destination = ?a\<rparr>"] t addr
    by (simp add: UDP_CAPACITY_def that) (simp add: fresh_sender_def)
  with first show ?thesis by blast
qed

text \<open>
  The handler of a control stream always ends with the error that ended the stream, and then every
  id the stream announced is unregistered, so a destination can only be reached while its
  association is open; ids it did not announce keep their routes.
\<close>

theorem control_stream_cleanup:
  assumes "control_loop ch r [] reg = (e, ids, reg1)"
  shows "handle_udp_control_stream ch r reg = (Inl e, registry_remove ids reg1) \<and>
    (\<forall>i. routes (snd (handle_udp_control_stream ch r reg)) i = (if i \<in> set ids then None else routes reg i))"
  using handle_control_routes [OF assms] assms by (simp add: handle_udp_control_stream_def)

text \<open>
  Sending never reaches the \<open>expect\<close> that panics: the context it looks up has just been inserted.
\<close>

theorem squic_send_no_panic: "fst (squic_send link p s) \<noteq> Inl (Panic why)"
proof -
  have "fst (announce a t) \<noteq> Inl (Panic why)" for a t
    by (auto simp: announce_def encode_address_def quic_write_all_def Let_def bindR_def
        split: option.splits ip_addr.splits if_splits)
  then have "fst (open_context link a t) \<noteq> Inl (Panic why)" for a t
    by (auto simp: open_context_def quic_write_all_def Let_def split: prod.splits sum.splits udp_mode.splits if_splits)
      (metis fst_conv)+
  moreover have "open_context link a t = (Inr (), t') \<Longrightarrow> contexts t' a \<noteq> None" for a t t'
    by (auto simp: open_context_def Let_def split: prod.splits sum.splits udp_mode.splits if_splits)
  moreover have "contexts t (sq_destination p) \<noteq> None \<Longrightarrow> fst (send_in_context link p t) \<noteq> Inl (Panic why)" for t
    by (auto simp: send_in_context_def quic_write_all_def Let_def split: option.splits outgoing_context.splits)
  ultimately show ?thesis
    by (auto simp: squic_send_def split: prod.splits sum.splits) (metis fst_conv)+
qed

end
