(* ===== verification/Squic_Associations.thy ===== *)
theory Squic_Associations
  imports Squic_Delivery
begin

text \<open>
  Several UDP associations on one connection. The packet connections of \<open>associate\<close> and of an accepted
  association all hold the connection's \<open>next_udp_id\<close> counter (\<open>src/src/shadowquic/mod.rs\<close>, an
  \<open>Arc<AtomicU16>\<close>), and the peer keeps one registry per connection, so context ids must be unique
  across associations.
\<close>

datatype association_event = Associate udp_mode writer | SendOn nat squic_packet

fun association_step :: "squic_link \<Rightarrow> association_event \<Rightarrow> udp_connection \<Rightarrow> udp_connection" where
  "association_step link (Associate mode w) c = add_association mode w c"
| "association_step link (SendOn n p) c = association_send link n p c"

text \<open>The id under which a context's packets travel: in every datagram, or at the start of its stream.\<close>

fun context_id :: "outgoing_context \<Rightarrow> u16" where
  "context_id (DatagramContext i) = i"
| "context_id (StreamContext w) = from_be_bytes (take 2 (written w))"

fun context_ok :: "outgoing_context \<Rightarrow> bool" where
  "context_ok (DatagramContext i) = True"
| "context_ok (StreamContext w) = (2 \<le> length (written w))"

definition fresh_streams :: "squic_link \<Rightarrow> bool" where
  "fresh_streams link \<longleftrightarrow> (\<forall>k w. link_open_uni link k = Inr w \<longrightarrow> written w = [])"


section \<open>One send\<close>

text \<open>What a send does to the contexts: one more with the counter's id, or the same ids as before.\<close>

definition contexts_after :: "u16 \<Rightarrow> address \<Rightarrow> packet_sender \<Rightarrow> packet_sender \<Rightarrow> bool" where
  "contexts_after i dest s s' \<longleftrightarrow>
     (\<forall>a c. contexts s' a = Some c \<longrightarrow> context_ok c \<and>
        ((\<exists>c0. contexts s a = Some c0 \<and> context_id c = context_id c0) \<or>
         (contexts s a = None \<and> a = dest \<and> context_id c = i \<and> sender_next_id s' = i + 1)))"

lemma quic_write_all_Inr: "quic_write_all bs w = Inr w' \<Longrightarrow> written w' = written w @ bs"
  by (auto simp: quic_write_all_def emit_def split: if_splits)

lemma announce_contexts: "announce dest s = (res, s') \<Longrightarrow>
    contexts s' = contexts s \<and> sender_next_id s' = sender_next_id s + 1 \<and> (\<forall>i. res = Inr i \<longrightarrow> i = sender_next_id s)"
  by (auto simp: announce_def Let_def split: sum.splits)

lemma open_context_contexts:
  assumes "open_context link dest s = (res, s')" "fresh_streams link"
  shows "sender_next_id s' = sender_next_id s + 1 \<and>
    (contexts s' = contexts s \<or>
     (\<exists>c. context_ok c \<and> context_id c = sender_next_id s \<and> contexts s' = (contexts s)(dest \<mapsto> c)))"
proof -
  obtain r1 s1 where a: "announce dest s = (r1, s1)" by fastforce
  note facts = announce_contexts [OF a]
  show ?thesis
  proof (cases r1)
    case (Inl e)
    then show ?thesis using assms(1) a facts by (auto simp: open_context_def)
  next
    case (Inr i)
    show ?thesis
    proof (cases "sender_mode s1")
      case DatagramMode
      then show ?thesis using assms(1) a Inr facts
        by (auto simp: open_context_def intro!: exI [of _ "DatagramContext i"])
    next
      case StreamMode
      show ?thesis
      proof (cases "link_open_uni link (opened s1)")
        case (Inl e)
        then show ?thesis using assms(1) a \<open>r1 = Inr i\<close> StreamMode facts by (auto simp: open_context_def)
      next
        case (Inr w)
        show ?thesis
        proof (cases "quic_write_all (to_be_bytes i) w")
          case (Inl e)
          then show ?thesis using assms(1) a \<open>r1 = Inr i\<close> StreamMode facts Inr by (auto simp: open_context_def Let_def)
        next
          case (Inr w')
          then have "written w' = to_be_bytes i"
            using quic_write_all_Inr assms(2) \<open>link_open_uni link (opened s1) = Inr w\<close> by (fastforce simp: fresh_streams_def)
          then have "context_ok (StreamContext w')" "context_id (StreamContext w') = sender_next_id s"
            using facts \<open>r1 = Inr i\<close> by simp_all
          moreover have "s' = s1\<lparr>opened := opened s1 + 1, contexts := (contexts s1)(dest \<mapsto> StreamContext w')\<rparr>"
            using assms(1) a \<open>r1 = Inr i\<close> StreamMode \<open>link_open_uni link (opened s1) = Inr w\<close> Inr
            by (simp add: open_context_def Let_def)
          ultimately show ?thesis
            using facts by (intro conjI disjI2 exI [of _ "StreamContext w'"]) simp_all
        qed
      qed
    qed
  qed
qed

lemma send_in_context_contexts:
  assumes "send_in_context link p s = (res, s')" "\<forall>a c. contexts s a = Some c \<longrightarrow> context_ok c"
  shows "sender_next_id s' = sender_next_id s"
    "contexts s' a = Some c \<Longrightarrow> context_ok c \<and> (\<exists>c0. contexts s a = Some c0 \<and> context_id c = context_id c0)"
proof -
  show "sender_next_id s' = sender_next_id s"
    using assms(1) by (auto simp: send_in_context_def Let_def split: option.splits outgoing_context.splits if_splits sum.splits)
  assume c: "contexts s' a = Some c"
  show "context_ok c \<and> (\<exists>c0. contexts s a = Some c0 \<and> context_id c = context_id c0)"
  proof (cases "contexts s' = contexts s")
    case True
    then show ?thesis using c assms(2) by auto
  next
    case False
    then obtain w w' bs where w: "contexts s (sq_destination p) = Some (StreamContext w)" "written w' = written w @ bs"
      "contexts s' = (contexts s)(sq_destination p \<mapsto> StreamContext w')"
      using assms(1)
      by (auto simp: send_in_context_def Let_def dest!: quic_write_all_Inr split: option.splits outgoing_context.splits if_splits sum.splits)
    then have "2 \<le> length (written w)"
      using assms(2) by fastforce
    with w c assms(2) show ?thesis by (auto split: if_splits)
  qed
qed

lemma squic_send_contexts:
  assumes "squic_send link p s = (res, s')" "fresh_streams link" "\<forall>a c. contexts s a = Some c \<longrightarrow> context_ok c"
  shows "contexts_after (sender_next_id s) (sq_destination p) s s'"
    "sender_next_id s' = sender_next_id s \<or> sender_next_id s' = sender_next_id s + 1"
proof -
  obtain r1 s1 where s1: "(if contexts s (sq_destination p) = None then open_context link (sq_destination p) s else (Inr (), s)) = (r1, s1)"
    by fastforce
  have opened: "(contexts s1 = contexts s \<and> (sender_next_id s1 = sender_next_id s \<or> sender_next_id s1 = sender_next_id s + 1)) \<or>
      (\<exists>c. contexts s (sq_destination p) = None \<and> context_ok c \<and> context_id c = sender_next_id s \<and>
        contexts s1 = (contexts s)(sq_destination p \<mapsto> c) \<and> sender_next_id s1 = sender_next_id s + 1)"
    using s1 open_context_contexts [OF _ assms(2), of "sq_destination p" s r1 s1] by (auto split: if_splits)
  then have ok: "\<forall>a c. contexts s1 a = Some c \<longrightarrow> context_ok c"
    using assms(3) by (metis fun_upd_apply option.inject)
  obtain r2 s2 where s2: "send_in_context link p s1 = (r2, s2)" by fastforce
  have s': "s' = s1 \<or> s' = s2"
    using assms(1) s1 s2 by (auto simp: squic_send_def split: sum.splits)
  show "sender_next_id s' = sender_next_id s \<or> sender_next_id s' = sender_next_id s + 1"
    using s' opened send_in_context_contexts(1) [OF s2 ok] by auto
  have step: "context_ok c \<and> (\<exists>c0. contexts s1 a = Some c0 \<and> context_id c = context_id c0)" "sender_next_id s' = sender_next_id s1"
    if "contexts s' a = Some c" for a c
    using s' that ok send_in_context_contexts [OF s2 ok] by auto
  show "contexts_after (sender_next_id s) (sq_destination p) s s'"
    unfolding contexts_after_def
  proof (intro allI impI conjI)
    fix a c
    assume c: "contexts s' a = Some c"
    then show "context_ok c" using step by blast
    from c obtain c0 where c0: "contexts s1 a = Some c0" "context_id c = context_id c0" "sender_next_id s' = sender_next_id s1"
      using step by blast
    then show "(\<exists>c0. contexts s a = Some c0 \<and> context_id c = context_id c0) \<or>
        contexts s a = None \<and> a = sq_destination p \<and> context_id c = sender_next_id s \<and> sender_next_id s' = sender_next_id s + 1"
      using opened by (auto split: if_splits)
  qed
qed


section \<open>All associations of a connection\<close>

text \<open>
  After \<open>m\<close> ids, every context has one of the numbers below \<open>m\<close>, and \<open>owner\<close> says which association
  took a number, and for which destination.
\<close>

definition association_inv :: "nat \<Rightarrow> (nat \<Rightarrow> nat \<times> address) \<Rightarrow> udp_connection \<Rightarrow> bool" where
  "association_inv m owner c \<longleftrightarrow> uc_next_id c = word_of_nat m \<and>
     (\<forall>i < length (uc_senders c). \<forall>a ctx. contexts (uc_senders c ! i) a = Some ctx \<longrightarrow>
        context_ok ctx \<and> (\<exists>k < m. context_id ctx = word_of_nat k \<and> owner k = (i, a)))"

lemma association_inv_new: "association_inv 0 owner udp_connection_new"
  by (simp add: association_inv_def udp_connection_new_def)

lemma association_inv_add: "association_inv m owner c \<Longrightarrow> association_inv m owner (add_association mode w c)"
  by (auto simp: association_inv_def add_association_def nth_append less_Suc_eq)

lemma association_inv_send:
  assumes inv: "association_inv m owner c" and "fresh_streams link"
  shows "\<exists>m' owner'. m' \<le> Suc m \<and> association_inv m' owner' (association_send link n p c)"
proof (cases "n < length (uc_senders c)")
  case False
  then show ?thesis using inv by (auto simp: association_send_def intro!: exI [of _ m] exI [of _ owner])
next
  case True
  define s where "s = (uc_senders c ! n)\<lparr>sender_next_id := uc_next_id c\<rparr>"
  obtain res s' where s': "squic_send link p s = (res, s')" by fastforce
  have step: "association_send link n p c = c\<lparr>uc_next_id := sender_next_id s', uc_senders := (uc_senders c)[n := s']\<rparr>"
    using True s' by (simp add: association_send_def s_def)
  have same: "contexts s = contexts (uc_senders c ! n)" "sender_next_id s = word_of_nat m"
    using inv by (simp_all add: s_def association_inv_def)
  have "\<forall>a ctx. contexts s a = Some ctx \<longrightarrow> context_ok ctx"
    using inv True unfolding same association_inv_def by blast
  note sent = squic_send_contexts [OF s' \<open>fresh_streams link\<close> this]
  define m' where "m' = (if sender_next_id s' = word_of_nat m then m else Suc m)"
  define owner' where "owner' = owner(m := (n, sq_destination p))"
  have next_id: "sender_next_id s' = word_of_nat m'"
    using sent(2) by (auto simp: m'_def same add.commute)
  have "m \<le> m'" by (simp add: m'_def)
  have old: "context_ok ctx \<and> (\<exists>k < m'. context_id ctx = word_of_nat k \<and> owner' k = (i, a))"
    if i: "i < length (uc_senders c)" "contexts (uc_senders c ! i) a = Some ctx" for i a ctx
  proof -
    obtain k where "context_ok ctx" "k < m" "context_id ctx = word_of_nat k" "owner k = (i, a)"
      using inv i unfolding association_inv_def by blast
    then show ?thesis using \<open>m \<le> m'\<close> by (auto simp: owner'_def intro!: exI [of _ k])
  qed
  have new: "context_ok ctx \<and> (\<exists>k < m'. context_id ctx = word_of_nat k \<and> owner' k = (n, a))"
    if ctx: "contexts s' a = Some ctx" for a ctx
  proof -
    have ok: "context_ok ctx" and "(\<exists>c0. contexts s a = Some c0 \<and> context_id ctx = context_id c0) \<or>
        (a = sq_destination p \<and> context_id ctx = word_of_nat m \<and> sender_next_id s' = word_of_nat m + 1)"
      using sent(1) ctx unfolding contexts_after_def same by blast+
    then consider c0 where "contexts s a = Some c0" "context_id ctx = context_id c0"
      | "a = sq_destination p" "context_id ctx = word_of_nat m" "m < m'"
      by (auto simp: m'_def)
    then show ?thesis
    proof cases
      case 1
      then show ?thesis using old [OF True, of a c0] ok by (auto simp: same)
    next
      case 2
      then show ?thesis using ok by (auto simp: owner'_def)
    qed
  qed
  have "association_inv m' owner' (association_send link n p c)"
    using old new next_id True unfolding step association_inv_def by (simp add: nth_list_update)
  moreover have "m' \<le> Suc m" by (simp add: m'_def)
  ultimately show ?thesis by blast
qed

lemma association_inv_step:
  assumes "association_inv m owner c" "fresh_streams link"
  shows "\<exists>m' owner'. m' \<le> Suc m \<and> association_inv m' owner' (association_step link e c)"
proof (cases e)
  case (Associate mode w)
  then show ?thesis using association_inv_add [OF assms(1)] by (auto intro!: exI [of _ m] exI [of _ owner])
next
  case (SendOn n p)
  then show ?thesis using association_inv_send [OF assms] by simp
qed

lemma association_inv_run:
  assumes "association_inv m owner c" "fresh_streams link"
  shows "\<exists>m' owner'. m' \<le> m + length es \<and> association_inv m' owner' (fold (association_step link) es c)"
  using assms(1)
proof (induction es arbitrary: m owner c)
  case Nil
  then show ?case by auto
next
  case (Cons e es)
  obtain m1 owner1 where "m1 \<le> Suc m" "association_inv m1 owner1 (association_step link e c)"
    using association_inv_step [OF Cons.prems assms(2)] by blast
  then obtain m' owner' where "m' \<le> m1 + length es" "association_inv m' owner' (fold (association_step link) es (association_step link e c))"
    using Cons.IH by blast
  with \<open>m1 \<le> Suc m\<close> show ?case by (auto intro!: exI [of _ m'] exI [of _ owner'])
qed

lemma association_inv_owner:
  assumes "association_inv m owner c" "m \<le> 65536" "i < length (uc_senders c)" "j < length (uc_senders c)"
    "contexts (uc_senders c ! i) a = Some x" "contexts (uc_senders c ! j) b = Some y" "context_id x = context_id y"
  shows "i = j \<and> a = b"
proof -
  obtain k l where k: "k < m" "context_id x = word_of_nat k" "owner k = (i, a)"
    and l: "l < m" "context_id y = word_of_nat l" "owner l = (j, b)"
    using assms(1,3-6) unfolding association_inv_def by blast
  have "unat (word_of_nat k :: u16) = k" "unat (word_of_nat l :: u16) = l"
    using k(1) l(1) assms(2) by (simp_all add: unat_of_nat)
  then have "k = l" using k(2) l(2) assms(7) by metis
  with k(3) l(3) show ?thesis by simp
qed

text \<open>
  Property (C8). The peer keeps one registry per connection for all its UDP associations. Any mixture
  of at most 65536 new associations and sends on one connection, sends that fail included, gives every
  association and destination its own context id: two open contexts with the same id are the same
  context of the same association. (After 65536 ids the counter wraps.)
\<close>

theorem association_ids_unique:
  assumes "fresh_streams link" "length es \<le> 65536"
    "c = fold (association_step link) es udp_connection_new"
    "i < length (uc_senders c)" "j < length (uc_senders c)"
    "contexts (uc_senders c ! i) a = Some x" "contexts (uc_senders c ! j) b = Some y"
    "context_id x = context_id y"
  shows "i = j \<and> a = b"
proof -
  obtain m owner where "m \<le> length es" "association_inv m owner c"
    using association_inv_run [OF association_inv_new assms(1), of es] assms(3) by auto
  moreover from this(1) assms(2) have "m \<le> 65536" by simp
  ultimately show ?thesis using association_inv_owner assms(4-8) by blast
qed

definition open_link :: squic_link where
  "open_link = \<lparr>link_datagram = \<lambda>_ _. None, link_open_uni = \<lambda>_. Inr fresh_writer\<rparr>"

definition dns_server :: address where
  "dns_server = \<lparr>host = ''a.b'', port = 53\<rparr>"

definition dns_packet :: squic_packet where
  "dns_packet = \<lparr>sq_data = [1, 2, 3], sq_destination = dns_server\<rparr>"

definition two_associations :: udp_connection where
  "two_associations = fold (association_step open_link)
     [Associate DatagramMode fresh_writer, Associate StreamMode fresh_writer, SendOn 0 dns_packet, SendOn 1 dns_packet]
     udp_connection_new"

lemma fresh_streams_open_link: "fresh_streams open_link"
  by (simp add: fresh_streams_def open_link_def)

lemma two_associations_contexts:
  "length (uc_senders two_associations) = 2"
  "map_option context_id (contexts (uc_senders two_associations ! 0) dns_server) = Some 0"
  "map_option context_id (contexts (uc_senders two_associations ! 1) dns_server) = Some 1"
proof -
  obtain bs where "encode_address dns_server = Inr bs"
    using encode_address_domain [of dns_server] by (auto simp: dns_server_def is_ascii_def byte_of_char_def)
  then show "length (uc_senders two_associations) = 2"
    "map_option context_id (contexts (uc_senders two_associations ! 0) dns_server) = Some 0"
    "map_option context_id (contexts (uc_senders two_associations ! 1) dns_server) = Some 1"
    by (simp_all add: two_associations_def udp_connection_new_def add_association_def association_send_def squic_send_def
        open_context_def announce_def send_in_context_def quic_write_all_def accepts_def emit_def fresh_writer_def open_link_def dns_packet_def Let_def)
qed

theorem association_ids_unique_witness:
  "\<exists>x y. contexts (uc_senders two_associations ! 0) dns_server = Some x \<and>
     contexts (uc_senders two_associations ! 1) dns_server = Some y \<and>
     context_id x \<noteq> context_id y"
proof -
  obtain x y where xy: "contexts (uc_senders two_associations ! 0) dns_server = Some x"
      "contexts (uc_senders two_associations ! 1) dns_server = Some y"
    using two_associations_contexts(2,3) by auto
  have "context_id x \<noteq> context_id y"
    using association_ids_unique [OF fresh_streams_open_link _ two_associations_def _ _ xy]
      two_associations_contexts(1) by auto
  with xy show ?thesis by blast
qed

end
