(* ===== verification/Squic_Plane.thy ===== *)
theory Squic_Plane
  imports Squic_Udp
begin

text \<open>
  The UDP state of one connection of \<open>src/src/shadowquic/mod.rs\<close>, shared by client and server: the registry,
  the channels of the packet connections, the tasks that read control streams, datagrams and packet
  streams, and the senders. Every task advances one step at a time, between two points where it may
  wait, so the steps of different tasks interleave freely.
\<close>


section \<open>Tasks\<close>

text \<open>
  A control stream's task (\<open>handle_udp_control_stream\<close>): the channel it registers routes for, the rest of the
  stream, the ids registered so far, and the error it ended with.
\<close>

record udp_control =
  ctl_chan :: chan
  ctl_recv :: reader
  ctl_ids :: "u16 list"
  ctl_end :: "error option"

definition control_turn :: "udp_control \<Rightarrow> udp_registry \<Rightarrow> udp_control \<times> udp_registry" where
  "control_turn c reg = (case ctl_end c of
       Some e \<Rightarrow> (c, reg)
     | None \<Rightarrow>
         (case control_step (ctl_chan c) (ctl_recv c) reg of
            Inl e \<Rightarrow> (c\<lparr>ctl_end := Some e\<rparr>, registry_remove (ctl_ids c) reg)
          | Inr (i, r, reg) \<Rightarrow> (c\<lparr>ctl_recv := r, ctl_ids := ctl_ids c @ [i]\<rparr>, reg)))"

text \<open>
  The tasks of \<open>handle_incoming_udp_datagram\<close> and \<open>handle_incoming_udp_stream\<close>: a stream whose id is still to be
  read, a wait for the route of an id, then the packets for that route.
\<close>

datatype udp_payload = OneDatagram bytes | PacketStream reader

datatype udp_task =
    StreamOpened reader
  | AwaitRoute u16 udp_payload
  | Routed udp_route udp_payload
  | TaskEnded "unit result"

definition datagram_task :: "bytes \<Rightarrow> udp_task" where
  "datagram_task datagram =
     (if length datagram < 2 then TaskEnded (Inl (Protocol ''truncated ShadowQuic UDP datagram''))
      else AwaitRoute (from_be_bytes (take 2 datagram)) (OneDatagram (drop 2 datagram)))"

fun task_step :: "udp_registry \<Rightarrow> udp_task \<Rightarrow> chan_store \<Rightarrow> udp_task \<times> chan_store" where
  "task_step reg (StreamOpened r) q = (case quic_read_exact 2 r of
       Inl e \<Rightarrow> (TaskEnded (Inl e), q)
     | Inr (i, r) \<Rightarrow> (AwaitRoute (from_be_bytes i) (PacketStream r), q))"
| "task_step reg (AwaitRoute i x) q = (case registry_wait i reg of
       None \<Rightarrow> (AwaitRoute i x, q)
     | Some (Inl e) \<Rightarrow> (TaskEnded (Inl e), q)
     | Some (Inr route) \<Rightarrow> (Routed route x, q))"
| "task_step reg (Routed route (OneDatagram bs)) q =
     (case chan_send (route_sender route) \<lparr>sq_data = bs, sq_destination = route_destination route\<rparr> q of
        None \<Rightarrow> (Routed route (OneDatagram bs), q)
      | Some (Inl e) \<Rightarrow> (TaskEnded (Inl e), q)
      | Some (Inr q) \<Rightarrow> (TaskEnded (Inr ()), q))"
| "task_step reg (Routed route (PacketStream r)) q = (case udp_stream_step route r q of
       None \<Rightarrow> (Routed route (PacketStream r), q)
     | Some (Inl e) \<Rightarrow> (TaskEnded (Inl e), q)
     | Some (Inr (r, q)) \<Rightarrow> (Routed route (PacketStream r), q))"
| "task_step reg (TaskEnded res) q = (TaskEnded res, q)"


section \<open>The state of a connection\<close>

text \<open>
  Packet connection \<open>n\<close> is the \<open>n\<close>-th association of the connection: channel \<open>n\<close> holds what it has received and
  not handed out, control \<open>n\<close> is the task on its control stream, and \<open>uc_senders\<close> holds its outgoing half.
\<close>

record udp_plane =
  up_registry :: udp_registry
  up_queues :: chan_store
  up_controls :: "udp_control list"
  up_tasks :: "udp_task list"
  up_out :: udp_connection

definition plane_new :: udp_plane where
  "plane_new = \<lparr>up_registry = registry_default, up_queues = (\<lambda>_. None), up_controls = [], up_tasks = [], up_out = udp_connection_new\<rparr>"

text \<open>An association with its two halves of the control stream.\<close>

definition plane_associate :: "udp_mode \<Rightarrow> writer \<Rightarrow> reader \<Rightarrow> udp_plane \<Rightarrow> udp_plane" where
  "plane_associate mode w r p =
     (let ch = length (uc_senders (up_out p))
      in p\<lparr>up_queues := (up_queues p)(ch \<mapsto> []), up_out := add_association mode w (up_out p),
           up_controls := up_controls p @ [\<lparr>ctl_chan = ch, ctl_recv = r, ctl_ids = [], ctl_end = None\<rparr>]\<rparr>)"

definition plane_spawn :: "udp_task \<Rightarrow> udp_plane \<Rightarrow> udp_plane" where
  "plane_spawn t p = p\<lparr>up_tasks := up_tasks p @ [t]\<rparr>"

definition plane_close :: "udp_plane \<Rightarrow> udp_plane" where
  "plane_close p = p\<lparr>up_registry := registry_close (up_registry p)\<rparr>"

text \<open>
  Who still holds a sender of channel \<open>n\<close>: the task of the control stream, the routes, the tasks that have
  got a route. When nobody does, \<open>recv\<close> on the drained channel reports \<open>Closed\<close>.
\<close>

definition senders_gone :: "nat \<Rightarrow> udp_plane \<Rightarrow> bool" where
  "senders_gone n p \<longleftrightarrow>
     (\<forall>c \<in> set (up_controls p). ctl_chan c = n \<longrightarrow> ctl_end c \<noteq> None) \<and>
     (\<forall>i route. routes (up_registry p) i = Some route \<longrightarrow> route_sender route \<noteq> n) \<and>
     (\<forall>t \<in> set (up_tasks p). \<forall>route x. t = Routed route x \<longrightarrow> route_sender route \<noteq> n)"

definition plane_recv :: "nat \<Rightarrow> udp_plane \<Rightarrow> squic_packet result option \<times> udp_plane" where
  "plane_recv n p = (case up_queues p n of
       None \<Rightarrow> (None, p)
     | Some ps \<Rightarrow>
         (case squic_recv (senders_gone n p) ps of (res, ps) \<Rightarrow> (res, p\<lparr>up_queues := (up_queues p)(n \<mapsto> ps)\<rparr>)))"

text \<open>
  The steps after the set-up: the tasks, and what the application does with a packet connection it
  has. Dropping one drops the receiving end of its channel.
\<close>

datatype plane_event =
    ControlStep nat
  | TaskStep nat
  | AppSend nat squic_packet
  | AppRecv nat
  | AppDrop nat

fun plane_step :: "squic_link \<Rightarrow> plane_event \<Rightarrow> udp_plane \<Rightarrow> udp_plane" where
  "plane_step link (ControlStep n) p =
     (if n < length (up_controls p)
      then case control_turn (up_controls p ! n) (up_registry p) of
             (c, reg) \<Rightarrow> p\<lparr>up_controls := (up_controls p)[n := c], up_registry := reg\<rparr>
      else p)"
| "plane_step link (TaskStep n) p =
     (if n < length (up_tasks p)
      then case task_step (up_registry p) (up_tasks p ! n) (up_queues p) of
             (t, q) \<Rightarrow> p\<lparr>up_tasks := (up_tasks p)[n := t], up_queues := q\<rparr>
      else p)"
| "plane_step link (AppSend n x) p =
     (if up_queues p n = None then p else p\<lparr>up_out := association_send link n x (up_out p)\<rparr>)"
| "plane_step link (AppRecv n) p = snd (plane_recv n p)"
| "plane_step link (AppDrop n) p = p\<lparr>up_queues := (up_queues p)(n := None)\<rparr>"


section \<open>The tasks and the handlers\<close>

text \<open>
  A task that is not interrupted does what the handler does: a datagram in two steps, a control stream
  or a packet stream in as many as it has rounds.
\<close>

fun task_steps :: "nat \<Rightarrow> udp_registry \<Rightarrow> udp_task \<times> chan_store \<Rightarrow> udp_task \<times> chan_store" where
  "task_steps 0 reg s = s"
| "task_steps (Suc k) reg s = task_steps k reg (task_step reg (fst s) (snd s))"

lemma datagram_task_handler:
  "task_steps (Suc (Suc 0)) reg (datagram_task d, q) =
     (case handle_incoming_udp_datagram d reg q of
        Some (Inl e) \<Rightarrow> (TaskEnded (Inl e), q)
      | Some (Inr q) \<Rightarrow> (TaskEnded (Inr ()), q)
      | None \<Rightarrow> task_steps (Suc (Suc 0)) reg (datagram_task d, q))"
  "handle_incoming_udp_datagram d reg q = None \<Longrightarrow>
     \<exists>t. task_steps (Suc (Suc 0)) reg (datagram_task d, q) = (t, q) \<and> (\<forall>res. t \<noteq> TaskEnded res)"
  by (auto simp: datagram_task_def handle_incoming_udp_datagram_def split: option.splits sum.splits if_splits)

lemma routed_stream_task:
  "udp_stream_loop route r q = (Some e, r', q') \<Longrightarrow> \<exists>k. task_steps k reg (Routed route (PacketStream r), q) = (TaskEnded (Inl e), q')"
proof (induction route r q rule: udp_stream_loop.induct)
  case (1 route r q)
  note loop = "1.prems" [unfolded udp_stream_loop.simps [of route r]]
  then consider (stop) "udp_stream_step route r q = Some (Inl e)" "q' = q"
    | (step) r1 q1 where "udp_stream_step route r q = Some (Inr (r1, q1))" "udp_stream_loop route r1 q1 = (Some e, r', q')"
    by (auto split: option.splits sum.splits)
  then show ?case
  proof cases
    case stop
    then show ?thesis by (intro exI [of _ "Suc 0"]) simp
  next
    case step
    obtain k where "task_steps k reg (Routed route (PacketStream r1), q1) = (TaskEnded (Inl e), q')"
      using "1.IH" [OF step(1) refl refl step(2)] by blast
    then show ?thesis
      using step(1) by (intro exI [of _ "Suc k"]) simp
  qed
qed

lemma stream_task_handler:
  assumes "handle_incoming_udp_stream r reg q = (Some e, r', q')"
  shows "\<exists>k. task_steps k reg (StreamOpened r, q) = (TaskEnded (Inl e), q')"
proof (cases "quic_read_exact 2 r")
  case (Inl x)
  then show ?thesis
    using assms by (intro exI [of _ "Suc 0"]) (simp add: handle_incoming_udp_stream_def)
next
  case (Inr x)
  then obtain i r1 where id: "quic_read_exact 2 r = Inr (i, r1)" by (cases x) simp
  then consider (closed) "registry_wait (from_be_bytes i) reg = Some (Inl e)" "q' = q"
    | (route) route where "registry_wait (from_be_bytes i) reg = Some (Inr route)" "udp_stream_loop route r1 q = (Some e, r', q')"
    using assms by (auto simp: handle_incoming_udp_stream_def split: option.splits sum.splits)
  then show ?thesis
  proof cases
    case closed
    then show ?thesis using id by (intro exI [of _ "Suc (Suc 0)"]) simp
  next
    case route
    then obtain k where "task_steps k reg (Routed route (PacketStream r1), q) = (TaskEnded (Inl e), q')"
      using routed_stream_task by blast
    then show ?thesis using id route(1) by (intro exI [of _ "Suc (Suc k)"]) simp
  qed
qed

fun control_turns :: "nat \<Rightarrow> udp_control \<times> udp_registry \<Rightarrow> udp_control \<times> udp_registry" where
  "control_turns 0 s = s"
| "control_turns (Suc k) s = control_turns k (control_turn (fst s) (snd s))"

lemma control_task_handler:
  "control_loop ch r ids reg = (e, ids', reg') \<Longrightarrow>
   \<exists>k r'. control_turns k (\<lparr>ctl_chan = ch, ctl_recv = r, ctl_ids = ids, ctl_end = None\<rparr>, reg) =
     (\<lparr>ctl_chan = ch, ctl_recv = r', ctl_ids = ids', ctl_end = Some e\<rparr>, registry_remove ids' reg')"
proof (induction ch r ids reg rule: control_loop.induct)
  case (1 ch r ids reg)
  note loop = "1.prems" [unfolded control_loop.simps [of ch r]]
  then consider (stop) "control_step ch r reg = Inl e" "ids' = ids" "reg' = reg"
    | (step) i r1 reg1 where "control_step ch r reg = Inr (i, r1, reg1)" "control_loop ch r1 (ids @ [i]) reg1 = (e, ids', reg')"
    by (auto split: sum.splits)
  then show ?case
  proof cases
    case stop
    then show ?thesis by (intro exI [of _ "Suc 0"]) (simp add: control_turn_def)
  next
    case step
    obtain k r' where "control_turns k (\<lparr>ctl_chan = ch, ctl_recv = r1, ctl_ids = ids @ [i], ctl_end = None\<rparr>, reg1) =
        (\<lparr>ctl_chan = ch, ctl_recv = r', ctl_ids = ids', ctl_end = Some e\<rparr>, registry_remove ids' reg')"
      using "1.IH" [OF step(1) refl refl step(2)] by blast
    then show ?thesis
      using step(1) by (intro exI [of _ "Suc k"] exI [of _ r']) (simp add: control_turn_def)
  qed
qed


section \<open>Everything that happens to the state\<close>

datatype plane_action =
    OpenAssociation udp_mode writer reader
  | ReceiveDatagram bytes
  | ReceiveStream reader
  | CloseRegistry
  | Step plane_event

fun plane_act :: "squic_link \<Rightarrow> plane_action \<Rightarrow> udp_plane \<Rightarrow> udp_plane" where
  "plane_act link (OpenAssociation mode w r) p = plane_associate mode w r p"
| "plane_act link (ReceiveDatagram d) p = plane_spawn (datagram_task d) p"
| "plane_act link (ReceiveStream r) p = plane_spawn (StreamOpened r) p"
| "plane_act link CloseRegistry p = plane_close p"
| "plane_act link (Step ev) p = plane_step link ev p"

text \<open>
  Routes only lead to associations whose control stream is being read, and no channel holds more than
  its capacity.
\<close>

definition routes_live :: "udp_control list \<Rightarrow> udp_registry \<Rightarrow> bool" where
  "routes_live cs reg \<longleftrightarrow> (\<forall>i route. routes reg i = Some route \<longrightarrow>
     route_sender route < length cs \<and> ctl_end (cs ! route_sender route) = None \<and> i \<in> set (ctl_ids (cs ! route_sender route)))"

fun task_known :: "nat \<Rightarrow> udp_task \<Rightarrow> bool" where
  "task_known n (Routed route x) = (route_sender route < n)"
| "task_known n _ = True"

definition queues_ok :: "nat \<Rightarrow> chan_store \<Rightarrow> bool" where
  "queues_ok n q \<longleftrightarrow> (\<forall>ch ps. q ch = Some ps \<longrightarrow> ch < n \<and> length ps \<le> UDP_CAPACITY)"

definition plane_inv :: "udp_plane \<Rightarrow> bool" where
  "plane_inv p \<longleftrightarrow> length (uc_senders (up_out p)) = length (up_controls p) \<and>
     (\<forall>n < length (up_controls p). ctl_chan (up_controls p ! n) = n) \<and>
     routes_live (up_controls p) (up_registry p) \<and>
     queues_ok (length (up_controls p)) (up_queues p) \<and>
     list_all (task_known (length (up_controls p))) (up_tasks p)"

lemma chan_send_ok:
  assumes "chan_send ch x q = Some (Inr q')" "queues_ok n q"
  shows "queues_ok n q'"
  using assms by (auto simp: chan_send_def queues_ok_def split: option.splits if_splits)

lemma task_step_known:
  assumes "task_step reg t q = (t', q')" "task_known (length cs) t" "queues_ok (length cs) q" "routes_live cs reg"
  shows "task_known (length cs) t' \<and> queues_ok (length cs) q'"
  using assms
proof (induction reg t q rule: task_step.induct)
  case (2 reg i x q)
  then show ?case
    by (auto simp: registry_wait_def routes_live_def split: option.splits if_splits)
next
  case (4 reg route r q)
  then show ?case
    by (auto split: option.splits sum.splits elim!: udp_stream_step_Inr chan_send_ok)
qed (auto split: sum.splits option.splits elim!: chan_send_ok)

lemma control_turn_live:
  assumes "control_turn (cs ! n) reg = (c, reg')" "n < length cs" "\<forall>k < length cs. ctl_chan (cs ! k) = k" "routes_live cs reg"
  shows "ctl_chan c = n \<and> routes_live (cs[n := c]) reg'"
proof (cases "ctl_end (cs ! n)")
  case (Some e)
  then show ?thesis using assms by (auto simp: control_turn_def)
next
  case None
  show ?thesis
  proof (cases "control_step (ctl_chan (cs ! n)) (ctl_recv (cs ! n)) reg")
    case (Inl e)
    then show ?thesis
      using assms None by (auto simp: control_turn_def routes_live_def registry_remove_routes nth_list_update split: if_splits)
  next
    case (Inr x)
    then obtain i r reg1 where step: "control_step (ctl_chan (cs ! n)) (ctl_recv (cs ! n)) reg = Inr (i, r, reg1)" by (cases x) auto
    then obtain dest where "reg1 = registry_register i dest n reg"
      using assms(2,3) by (auto elim!: control_step_Inr)
    then show ?thesis
      using assms None step
      by (auto simp: control_turn_def routes_live_def registry_register_def nth_list_update split: if_splits)
  qed
qed

lemma plane_inv_new: "plane_inv plane_new"
  by (simp add: plane_inv_def plane_new_def udp_connection_new_def routes_live_def registry_default_def queues_ok_def)

lemma list_all_known_mono: "list_all (task_known n) ts \<Longrightarrow> n \<le> m \<Longrightarrow> list_all (task_known m) ts"
proof (induction ts)
  case (Cons t ts)
  then show ?case by (cases t) auto
qed simp

lemma plane_inv_associate:
  assumes "plane_inv p"
  shows "plane_inv (plane_associate mode w r p)"
  using assms list_all_known_mono [of "length (up_controls p)" "up_tasks p" "Suc (length (up_controls p))"]
  by (auto simp: plane_inv_def plane_associate_def add_association_def Let_def nth_append less_Suc_eq routes_live_def queues_ok_def)

lemma association_send_length: "length (uc_senders (association_send link n x c)) = length (uc_senders c)"
  by (simp add: association_send_def Let_def)

lemma plane_inv_queue:
  "plane_inv p \<Longrightarrow> up_queues p n \<noteq> None \<Longrightarrow> length xs \<le> UDP_CAPACITY \<Longrightarrow> plane_inv (p\<lparr>up_queues := (up_queues p)(n \<mapsto> xs)\<rparr>)"
  by (auto simp: plane_inv_def queues_ok_def)

lemma plane_inv_step:
  assumes "plane_inv p"
  shows "plane_inv (plane_step link ev p)"
proof (cases ev)
  case (ControlStep n)
  obtain c reg where turn: "control_turn (up_controls p ! n) (up_registry p) = (c, reg)" by fastforce
  then show ?thesis
    using control_turn_live [OF turn] assms ControlStep by (auto simp: plane_inv_def nth_list_update)
next
  case (TaskStep n)
  obtain t q where t: "task_step (up_registry p) (up_tasks p ! n) (up_queues p) = (t, q)" by fastforce
  have "plane_inv (p\<lparr>up_tasks := (up_tasks p)[n := t], up_queues := q\<rparr>)" if "n < length (up_tasks p)"
    using task_step_known [OF t] that assms
    by (auto simp: plane_inv_def list_all_length nth_list_update)
  then show ?thesis using t TaskStep assms by simp
next
  case (AppSend n x)
  then show ?thesis using assms by (simp add: plane_inv_def association_send_length)
next
  case (AppRecv n)
  have "length ps \<le> UDP_CAPACITY" if "up_queues p n = Some ps" for ps
    using assms that by (auto simp: plane_inv_def queues_ok_def)
  then show ?thesis
    using AppRecv assms plane_inv_queue [OF assms, of n]
    by (fastforce simp: plane_recv_def squic_recv_def split: option.splits list.splits)
next
  case (AppDrop n)
  then show ?thesis using assms by (auto simp: plane_inv_def queues_ok_def)
qed

lemma plane_inv_act: "plane_inv p \<Longrightarrow> plane_inv (plane_act link a p)"
proof (cases a)
  case (ReceiveDatagram d)
  then show "plane_inv p \<Longrightarrow> ?thesis" by (auto simp: plane_inv_def plane_spawn_def datagram_task_def)
next
  case (ReceiveStream r)
  then show "plane_inv p \<Longrightarrow> ?thesis" by (auto simp: plane_inv_def plane_spawn_def)
next
  case CloseRegistry
  then show "plane_inv p \<Longrightarrow> ?thesis" by (auto simp: plane_inv_def plane_close_def registry_close_def routes_live_def)
qed (simp_all add: plane_inv_associate plane_inv_step)

definition plane_run :: "squic_link \<Rightarrow> plane_action list \<Rightarrow> udp_plane \<Rightarrow> udp_plane" where
  "plane_run link as p = fold (plane_act link) as p"

lemma plane_inv_run: "plane_inv p \<Longrightarrow> plane_inv (plane_run link as p)"
  unfolding plane_run_def by (induction as arbitrary: p) (simp_all add: plane_inv_act)

end
