(* ===== verification/Squic_Isolation.thy ===== *)
theory Squic_Isolation
  imports Squic_Associations Squic_Plane
begin

text \<open>
  Two ends of a connection with many UDP associations, under every schedule, while ids are not reused: what a packet connection
  hands out was sent on its own association by the peer, to the destination it says. The sending end is a
  run of \<open>Squic_Associations\<close>, the receiving end a run of \<open>Squic_Plane\<close>; the network may lose, repeat, delay
  and reorder datagrams, and cut streams short.
\<close>


section \<open>What the sending end has emitted\<close>

text \<open>
  \<open>owner k\<close> is the association and the destination that got the \<open>k\<close>-th id; \<open>sent\<close> is what was given to \<open>send\<close>,
  by association.
\<close>

type_synonym owners = "nat \<Rightarrow> nat \<times> address"

definition announcement_bytes :: "owners \<Rightarrow> nat list \<Rightarrow> bytes" where
  "announcement_bytes owner ks = concat (map (\<lambda>k. control_frame (snd (owner k)) (word_of_nat k)) ks)"

definition announces :: "nat \<Rightarrow> owners \<Rightarrow> nat \<Rightarrow> nat list \<Rightarrow> bool" where
  "announces m owner n ks \<longleftrightarrow> (\<forall>k \<in> set ks. k < m \<and> fst (owner k) = n \<and> encodable (snd (owner k)))"

definition sent_data :: "(nat \<times> squic_packet) set \<Rightarrow> nat \<times> address \<Rightarrow> bytes \<Rightarrow> bool" where
  "sent_data sent ow bs \<longleftrightarrow> (fst ow, \<lparr>sq_data = bs, sq_destination = snd ow\<rparr>) \<in> sent"

definition sent_frames :: "(nat \<times> squic_packet) set \<Rightarrow> nat \<times> address \<Rightarrow> bytes list \<Rightarrow> bool" where
  "sent_frames sent ow bss \<longleftrightarrow> (\<forall>bs \<in> set bss. length bs \<le> 65535 \<and> sent_data sent ow bs)"

fun context_emits :: "(nat \<times> squic_packet) set \<Rightarrow> nat \<times> address \<Rightarrow> u16 \<Rightarrow> outgoing_context \<Rightarrow> bool" where
  "context_emits sent ow i (DatagramContext j) = (j = i)"
| "context_emits sent ow i (StreamContext w) =
     (\<exists>bss. sent_frames sent ow bss \<and> w = \<lparr>written = to_be_bytes i @ concat (map stream_frame bss), room = None\<rparr>)"

definition control_emits :: "nat \<Rightarrow> owners \<Rightarrow> nat \<Rightarrow> bytes \<Rightarrow> writer \<Rightarrow> bool" where
  "control_emits m owner n hdr w \<longleftrightarrow> (\<exists>ks. announces m owner n ks \<and> w = \<lparr>written = hdr @ announcement_bytes owner ks, room = None\<rparr>)"

definition contexts_emit :: "nat \<Rightarrow> owners \<Rightarrow> (nat \<times> squic_packet) set \<Rightarrow> nat \<Rightarrow> (address \<rightharpoonup> outgoing_context) \<Rightarrow> bool" where
  "contexts_emit m owner sent n ctxs \<longleftrightarrow>
     (\<forall>a ctx. ctxs a = Some ctx \<longrightarrow> (\<exists>k < m. owner k = (n, a) \<and> context_emits sent (n, a) (word_of_nat k) ctx))"

definition datagram_emitted :: "nat \<Rightarrow> owners \<Rightarrow> (nat \<times> squic_packet) set \<Rightarrow> nat \<Rightarrow> bytes \<Rightarrow> bool" where
  "datagram_emitted m owner sent n d \<longleftrightarrow>
     (\<exists>k < m. \<exists>bs. fst (owner k) = n \<and> sent_data sent (owner k) bs \<and> d = to_be_bytes (word_of_nat k :: u16) @ bs)"

definition sender_emits :: "nat \<Rightarrow> owners \<Rightarrow> (nat \<times> squic_packet) set \<Rightarrow> nat \<Rightarrow> bytes \<Rightarrow> packet_sender \<Rightarrow> bool" where
  "sender_emits m owner sent n hdr s \<longleftrightarrow> control_emits m owner n hdr (control s) \<and>
     contexts_emit m owner sent n (contexts s) \<and> (\<forall>d \<in> set (datagrams s). datagram_emitted m owner sent n d)"

definition unlimited_streams :: "squic_link \<Rightarrow> bool" where
  "unlimited_streams link \<longleftrightarrow> (\<forall>k w. link_open_uni link k = Inr w \<longrightarrow> w = fresh_writer)"

lemma context_emits_mono: "context_emits sent ow i ctx \<Longrightarrow> sent \<subseteq> sent' \<Longrightarrow> context_emits sent' ow i ctx"
  by (cases ctx) (auto simp: sent_frames_def sent_data_def)

text \<open>More ids and more packets do not invalidate what was emitted before.\<close>

definition extends_to :: "nat \<Rightarrow> owners \<Rightarrow> (nat \<times> squic_packet) set \<Rightarrow> nat \<Rightarrow> owners \<Rightarrow> (nat \<times> squic_packet) set \<Rightarrow> bool" where
  "extends_to m owner sent m' owner' sent' \<longleftrightarrow> m \<le> m' \<and> sent \<subseteq> sent' \<and> (\<forall>k < m. owner' k = owner k)"

lemma sender_emits_mono:
  assumes "sender_emits m owner sent n hdr s" "extends_to m owner sent m' owner' sent'"
  shows "sender_emits m' owner' sent' n hdr s"
proof -
  have ext: "m \<le> m'" "sent \<subseteq> sent'" "\<And>k. k < m \<Longrightarrow> owner' k = owner k"
    using assms(2) by (auto simp: extends_to_def)
  obtain ks where ks: "announces m owner n ks" "control s = \<lparr>written = hdr @ announcement_bytes owner ks, room = None\<rparr>"
    using assms(1) by (auto simp: sender_emits_def control_emits_def)
  have "announcement_bytes owner' ks = announcement_bytes owner ks" "announces m' owner' n ks"
    using ks(1) ext by (auto simp: announcement_bytes_def announces_def intro!: arg_cong [of _ _ concat])
  then have "control_emits m' owner' n hdr (control s)"
    using ks(2) unfolding control_emits_def by metis
  moreover have "contexts_emit m' owner' sent' n (contexts s)"
    using assms(1) ext unfolding sender_emits_def contexts_emit_def by (metis context_emits_mono order_less_le_trans)
  moreover have "datagram_emitted m' owner' sent' n d" if d: "d \<in> set (datagrams s)" for d
  proof -
    obtain k bs where "k < m" "fst (owner k) = n" "sent_data sent (owner k) bs" "d = to_be_bytes (word_of_nat k :: u16) @ bs"
      using assms(1) d unfolding sender_emits_def datagram_emitted_def by blast
    then show ?thesis using ext unfolding datagram_emitted_def by (intro exI [of _ k]) (auto simp: sent_data_def)
  qed
  ultimately show ?thesis by (simp add: sender_emits_def)
qed

lemma open_context_emits:
  assumes "sender_emits m owner sent n hdr s" "sender_next_id s = word_of_nat m" "unlimited_streams link"
    "open_context link dest s = (res, s')" "owner m = (n, dest)"
  shows "sender_emits (Suc m) owner sent n hdr s' \<and> sender_next_id s' = word_of_nat (Suc m)"
proof -
  have old: "sender_emits (Suc m) owner sent n hdr s"
    by (rule sender_emits_mono [OF assms(1)]) (auto simp: extends_to_def)
  show ?thesis
  proof (cases "encode_address dest")
    case (Inl e)
    then show ?thesis
      using assms(2,4) old by (auto simp: open_context_def announce_def Let_def sender_emits_def add.commute)
  next
    case (Inr addr)
    obtain ks where ks: "announces (Suc m) owner n ks" "control s = \<lparr>written = hdr @ announcement_bytes owner ks, room = None\<rparr>"
      using old by (auto simp: sender_emits_def control_emits_def)
    let ?w = "\<lparr>written = hdr @ announcement_bytes owner (ks @ [m]), room = None\<rparr>"
    let ?s = "s\<lparr>sender_next_id := word_of_nat (Suc m), control := ?w\<rparr>"
    have ann: "announce dest s = (Inr (word_of_nat m), ?s)"
      using Inr assms(2,5) ks(2) by (simp add: announce_def Let_def quic_write_all_unlimited announcement_bytes_def control_frame_def add.commute)
    have "announces (Suc m) owner n (ks @ [m])"
      using ks(1) Inr assms(5) by (auto simp: announces_def encodable_def)
    then have w: "control_emits (Suc m) owner n hdr ?w"
      unfolding control_emits_def by blast
    have ctx: "contexts_emit (Suc m) owner sent n ((contexts s)(dest \<mapsto> ctx))"
      if "context_emits sent (n, dest) (word_of_nat m) ctx" for ctx
      using old that assms(5) unfolding sender_emits_def contexts_emit_def by (metis fun_upd_apply lessI option.inject)
    let ?u = "\<lparr>written = to_be_bytes (word_of_nat m :: u16), room = None\<rparr>"
    have "context_emits sent (n, dest) (word_of_nat m) (StreamContext ?u)"
      by (simp, intro exI [of _ "[]"]) (simp add: sent_frames_def)
    moreover have "quic_write_all (to_be_bytes (word_of_nat m :: u16)) x = Inr ?u" if "link_open_uni link l = Inr x" for x l
    proof -
      have "x = fresh_writer" using assms(3) that unfolding unlimited_streams_def by blast
      then show ?thesis by (simp add: fresh_writer_def quic_write_all_unlimited)
    qed
    ultimately show ?thesis
      using assms(4) ann w old ctx [of "DatagramContext (word_of_nat m)"] ctx [of "StreamContext ?u"]
      by (auto simp: open_context_def Let_def sender_emits_def split: udp_mode.splits sum.splits)
  qed
qed

lemma send_in_context_emits:
  assumes "sender_emits m owner sent n hdr s" "(n, p) \<in> sent" "send_in_context link p s = (res, s')"
  shows "sender_emits m owner sent n hdr s' \<and> sender_next_id s' = sender_next_id s"
proof (cases "contexts s (sq_destination p)")
  case None
  then show ?thesis using assms by (simp add: send_in_context_def)
next
  case (Some ctx)
  then obtain k where k: "k < m" "owner k = (n, sq_destination p)" "context_emits sent (n, sq_destination p) (word_of_nat k) ctx"
    using assms(1) unfolding sender_emits_def contexts_emit_def by blast
  have p: "sent_data sent (n, sq_destination p) (sq_data p)"
    using assms(2) by (cases p) (simp add: sent_data_def)
  show ?thesis
  proof (cases ctx)
    case (DatagramContext i)
    then have "datagram_emitted m owner sent n (to_be_bytes i @ sq_data p)"
      using k p unfolding datagram_emitted_def by auto
    then show ?thesis
      using assms(1,3) Some DatagramContext by (auto simp: send_in_context_def Let_def sender_emits_def split: option.splits)
  next
    case (StreamContext w)
    then obtain bss where w: "sent_frames sent (n, sq_destination p) bss"
        "w = \<lparr>written = to_be_bytes (word_of_nat k :: u16) @ concat (map stream_frame bss), room = None\<rparr>"
      using k(3) by auto
    show ?thesis
    proof (cases "length (sq_data p) > 65535")
      case True
      then show ?thesis using assms(1,3) Some StreamContext by (auto simp: send_in_context_def)
    next
      case False
      let ?w = "\<lparr>written = to_be_bytes (word_of_nat k :: u16) @ concat (map stream_frame (bss @ [sq_data p])), room = None\<rparr>"
      have "sent_frames sent (n, sq_destination p) (bss @ [sq_data p])"
        using w(1) p False by (auto simp: sent_frames_def)
      then have "context_emits sent (n, sq_destination p) (word_of_nat k) (StreamContext ?w)"
        by (simp only: context_emits.simps) blast
      then have "contexts_emit m owner sent n ((contexts s)(sq_destination p \<mapsto> StreamContext ?w))"
        using assms(1) k(1,2) unfolding sender_emits_def contexts_emit_def by (metis fun_upd_apply option.inject)
      moreover have "s' = s\<lparr>contexts := (contexts s)(sq_destination p \<mapsto> StreamContext ?w)\<rparr>"
        using assms(3) Some StreamContext False
        by (simp add: send_in_context_def w(2) quic_write_all_unlimited stream_frame_def)
      ultimately show ?thesis
        using assms(1) by (simp add: sender_emits_def)
    qed
  qed
qed

lemma squic_send_emits:
  assumes "sender_emits m owner sent n hdr s" "sender_next_id s = word_of_nat m" "unlimited_streams link" "squic_send link p s = (res, s')"
  obtains m' owner' where "m' \<le> (if contexts s (sq_destination p) = None then Suc m else m)" "extends_to m owner sent m' owner' (insert (n, p) sent)"
    "sender_emits m' owner' (insert (n, p) sent) n hdr s'" "sender_next_id s' = word_of_nat m'"
proof (cases "contexts s (sq_destination p)")
  case None
  let ?owner = "owner(m := (n, sq_destination p))" and ?sent = "insert (n, p) sent"
  have ext: "extends_to m owner sent m ?owner ?sent" "extends_to m owner sent (Suc m) ?owner ?sent"
    by (auto simp: extends_to_def)
  obtain r1 s1 where s1: "open_context link (sq_destination p) s = (r1, s1)" by fastforce
  have e1: "sender_emits (Suc m) ?owner ?sent n hdr s1" "sender_next_id s1 = word_of_nat (Suc m)"
    using open_context_emits [OF sender_emits_mono [OF assms(1) ext(1)] assms(2,3) s1] by simp_all
  obtain r2 s2 where s2: "send_in_context link p s1 = (r2, s2)" by fastforce
  have e2: "sender_emits (Suc m) ?owner ?sent n hdr s2" "sender_next_id s2 = word_of_nat (Suc m)"
    using send_in_context_emits [OF e1(1) _ s2] e1(2) by simp_all
  have "s' = s1 \<or> s' = s2"
    using assms(4) None s1 s2 by (auto simp: squic_send_def split: sum.splits)
  with e1 e2 ext(2) None show thesis by (intro that [of "Suc m" ?owner]) auto
next
  case (Some ctx)
  let ?sent = "insert (n, p) sent"
  have ext: "extends_to m owner sent m owner ?sent" by (auto simp: extends_to_def)
  have "send_in_context link p s = (res, s')"
    using assms(4) Some by (simp add: squic_send_def)
  from send_in_context_emits [OF sender_emits_mono [OF assms(1) ext] _ this] assms(2) ext Some show thesis
    by (intro that [of m owner]) auto
qed

text \<open>
  An id is taken by a send on an open association to a destination that has no context; \<open>ids_taken\<close> counts
  them over a run.
\<close>

fun takes_id :: "association_event \<Rightarrow> udp_connection \<Rightarrow> bool" where
  "takes_id (Associate mode w) c = False"
| "takes_id (SendOn n p) c = (n < length (uc_senders c) \<and> contexts (uc_senders c ! n) (sq_destination p) = None)"

fun ids_taken :: "squic_link \<Rightarrow> association_event list \<Rightarrow> udp_connection \<Rightarrow> nat" where
  "ids_taken link [] c = 0"
| "ids_taken link (e # es) c = of_bool (takes_id e c) + ids_taken link es (association_step link e c)"

lemma ids_taken_snoc:
  "ids_taken link (es @ [e]) c = ids_taken link es c + of_bool (takes_id e (fold (association_step link) es c))"
  by (induction es arbitrary: c) simp_all

text \<open>
  The ids are 16 bits: the one after 65535 is 0 again, and announcing an id that is in use takes it away
  from the association that had it.
\<close>

lemma id_counter_wraps:
  assumes "takes_id (SendOn n p) c" "uc_next_id c = 65535"
  shows "uc_next_id (association_send link n p c) = 0"
  using assms
  by (simp add: association_send_def squic_send_def open_context_def announce_def send_in_context_def Let_def
      split: sum.splits option.splits outgoing_context.splits udp_mode.splits if_splits)

lemma reused_id_redirects:
  "routes (registry_register i d' ch' (registry_register i d ch reg)) i = Some \<lparr>route_sender = ch', route_destination = d'\<rparr>"
  by (simp add: registry_register_def)

text \<open>All associations of a connection; the headers are what their control streams carried before.\<close>

fun headers :: "association_event list \<Rightarrow> bytes list" where
  "headers [] = []"
| "headers (Associate mode w # es) = written w # headers es"
| "headers (SendOn n p # es) = headers es"

lemma headers_append: "headers (es @ fs) = headers es @ headers fs"
  by (induction es rule: headers.induct) simp_all

definition sends :: "association_event list \<Rightarrow> (nat \<times> squic_packet) set" where
  "sends es = {(n, p). SendOn n p \<in> set es}"

definition emits :: "nat \<Rightarrow> owners \<Rightarrow> association_event list \<Rightarrow> udp_connection \<Rightarrow> bool" where
  "emits m owner es c \<longleftrightarrow> uc_next_id c = word_of_nat m \<and> length (uc_senders c) = length (headers es) \<and>
     (\<forall>n < length (uc_senders c). sender_emits m owner (sends es) n (headers es ! n) (uc_senders c ! n))"

definition unlimited_controls :: "association_event list \<Rightarrow> bool" where
  "unlimited_controls es \<longleftrightarrow> (\<forall>mode w. Associate mode w \<in> set es \<longrightarrow> room w = None)"

lemma emits_associate:
  assumes "emits m owner es c" "room w = None"
  shows "emits m owner (es @ [Associate mode w]) (add_association mode w c)"
proof -
  have sends: "sends (es @ [Associate mode w]) = sends es" by (auto simp: sends_def)
  have "control_emits m owner n (written w) w" for n
    unfolding control_emits_def using assms(2) by (intro exI [of _ "[]"]) (cases w, simp add: announces_def announcement_bytes_def)
  then show ?thesis
    using assms(1) by (auto simp: emits_def sends headers_append add_association_def nth_append less_Suc_eq sender_emits_def contexts_emit_def)
qed

lemma emits_send:
  assumes "emits m owner es c" "unlimited_streams link"
  obtains m' owner' where "m' \<le> m + of_bool (takes_id (SendOn n p) c)" "emits m' owner' (es @ [SendOn n p]) (association_send link n p c)"
proof (cases "n < length (uc_senders c)")
  case False
  have "extends_to m owner (sends es) m owner (sends (es @ [SendOn n p]))"
    by (auto simp: extends_to_def sends_def)
  with False assms(1) show thesis
    by (intro that [of m owner]) (auto simp: emits_def headers_append association_send_def intro: sender_emits_mono)
next
  case True
  let ?s = "(uc_senders c ! n)\<lparr>sender_next_id := uc_next_id c\<rparr>"
  have sends: "sends (es @ [SendOn n p]) = insert (n, p) (sends es)" by (auto simp: sends_def)
  obtain res s' where s': "squic_send link p ?s = (res, s')" by fastforce
  have s: "sender_emits m owner (sends es) n (headers es ! n) ?s" "sender_next_id ?s = word_of_nat m"
    using assms(1) True by (simp_all add: emits_def sender_emits_def)
  obtain m' owner' where e: "m' \<le> (if contexts ?s (sq_destination p) = None then Suc m else m)" "extends_to m owner (sends es) m' owner' (insert (n, p) (sends es))"
      "sender_emits m' owner' (insert (n, p) (sends es)) n (headers es ! n) s'" "sender_next_id s' = word_of_nat m'"
    using squic_send_emits [OF s assms(2) s'] .
  have "association_send link n p c = c\<lparr>uc_next_id := word_of_nat m', uc_senders := (uc_senders c)[n := s']\<rparr>"
    using True s' e(4) by (simp add: association_send_def)
  moreover have "sender_emits m' owner' (insert (n, p) (sends es)) k (headers es ! k) ((uc_senders c)[n := s'] ! k)"
    if "k < length (uc_senders c)" for k
    using e(3) that assms(1) sender_emits_mono [OF _ e(2)] by (cases "k = n") (auto simp: emits_def)
  ultimately show thesis
    using e(1) assms(1) True by (intro that [of m' owner']) (simp_all add: emits_def headers_append sends split: if_splits)
qed

lemma emits_run:
  assumes "unlimited_streams link" "unlimited_controls es"
  shows "\<exists>m owner. m \<le> ids_taken link es udp_connection_new \<and> emits m owner es (fold (association_step link) es udp_connection_new)"
  using assms(2)
proof (induction es rule: rev_induct)
  case Nil
  show ?case by (intro exI [of _ 0]) (simp add: emits_def udp_connection_new_def)
next
  case (snoc e es)
  let ?c = "fold (association_step link) es udp_connection_new"
  have "unlimited_controls es" using snoc.prems by (auto simp: unlimited_controls_def)
  from snoc.IH [OF this] obtain m owner where m: "m \<le> ids_taken link es udp_connection_new" "emits m owner es ?c" by (elim exE conjE)
  show ?case
  proof (cases e)
    case (Associate mode w)
    then have "room w = None" using snoc.prems [unfolded unlimited_controls_def, rule_format, of mode w] by simp
    from emits_associate [OF m(2) this, of mode] m(1) show ?thesis
      unfolding Associate by (intro exI [of _ m] exI [of _ owner]) (simp add: ids_taken_snoc)
  next
    case (SendOn n p)
    obtain m' owner' where "m' \<le> m + of_bool (takes_id (SendOn n p) ?c)" "emits m' owner' (es @ [SendOn n p]) (association_send link n p ?c)"
      using emits_send [OF m(2) assms(1)] .
    with m(1) show ?thesis
      unfolding SendOn by (intro exI [of _ m'] exI [of _ owner']) (simp add: ids_taken_snoc)
  qed
qed


section \<open>Reading what may be cut short\<close>

definition more :: "reader \<Rightarrow> bytes \<Rightarrow> reader" where
  "more r rest = r\<lparr>pending := pending r @ rest\<rparr>"

definition extendable :: "(reader \<Rightarrow> ('a \<times> reader) result) \<Rightarrow> bool" where
  "extendable f \<longleftrightarrow> (\<forall>r x r' rest. f r = Inr (x, r') \<longrightarrow> f (more r rest) = Inr (x, more r' rest))"

lemma extendable_bind [intro]:
  assumes "extendable f" "\<And>x. extendable (g x)"
  shows "extendable (\<lambda>r. bindR (f r) (\<lambda>(x, r). g x r))"
  unfolding extendable_def
proof (intro allI impI)
  fix r y r' rest
  assume "bindR (f r) (\<lambda>(x, r). g x r) = Inr (y, r')"
  then obtain x r1 where "f r = Inr (x, r1)" "g x r1 = Inr (y, r')" by (auto simp: result_iffs)
  then show "bindR (f (more r rest)) (\<lambda>(x, r). g x r) = Inr (y, more r' rest)"
    using assms unfolding extendable_def by simp
qed

lemma extendable_basic [intro]:
  "extendable (quic_read_exact n)" "extendable (\<lambda>r. Inl e)" "extendable (\<lambda>r. Inr (x, r))" "extendable (\<lambda>r. bindR y (\<lambda>x. Inr (h x, r)))"
  by (auto simp: extendable_def quic_read_exact_def more_def result_iffs split: if_splits)

lemma extendable_if [intro]: "extendable f \<Longrightarrow> extendable g \<Longrightarrow> extendable (\<lambda>r. if b then f r else g r)"
  by (cases b) simp_all

lemma extendable_decode_host: "extendable (decode_host k)"
  unfolding decode_host_def [abs_def]
  by (intro extendable_if extendable_bind extendable_basic(1-3) extendable_basic(4) [where h = "\<lambda>x. x"])

lemma extendable_decode_address: "extendable decode_address"
  unfolding decode_address_def [abs_def]
  by (intro extendable_bind extendable_basic extendable_decode_host extendable_basic(4) [where h = "\<lambda>x. x"])

lemma decode_address_more: "decode_address r = Inr (a, r') \<Longrightarrow> decode_address (more r rest) = Inr (a, more r' rest)"
  using extendable_decode_address unfolding extendable_def by blast

text \<open>A complete announcement that is read is the next one that was written.\<close>

lemma control_step_frames:
  assumes "control_step ch r reg = Inr (i, r', reg')" "pending r @ rest = announcement_bytes owner ks" "\<forall>k \<in> set ks. encodable (snd (owner k))"
  obtains k ks' where "ks = k # ks'" "i = word_of_nat k" "reg' = registry_register i (canonical (snd (owner k))) ch reg"
    "pending r' @ rest = announcement_bytes owner ks'"
proof -
  obtain dest r1 bs where step: "decode_address r = Inr (dest, r1)" "quic_read_exact 2 r1 = Inr (bs, r')" "i = from_be_bytes bs"
      "reg' = registry_register i dest ch reg"
    using assms(1) by (rule control_step_Inr)
  have "pending r \<noteq> []" using control_step_size [OF assms(1)] by auto
  then obtain k ks' where ks: "ks = k # ks'" using assms(2) by (cases ks) (auto simp: announcement_bytes_def)
  obtain addr where addr: "encode_address (snd (owner k)) = Inr addr" using assms(3) ks by (auto simp: encodable_def)
  let ?id = "to_be_bytes (word_of_nat k :: u16)"
  have "more r rest = \<lparr>pending = addr @ (?id @ announcement_bytes owner ks'), ending = ending r\<rparr>"
    using assms(2) ks addr by (simp add: more_def announcement_bytes_def control_frame_def)
  then have "decode_address (more r rest) = Inr (canonical (snd (owner k)), \<lparr>pending = ?id @ announcement_bytes owner ks', ending = ending r\<rparr>)"
    using decode_encoded_address [OF addr] by simp
  then have dest: "dest = canonical (snd (owner k))" "pending r1 @ rest = ?id @ announcement_bytes owner ks'"
    using decode_address_more [OF step(1), of rest] by (auto simp: more_def dest: arg_cong [of _ _ pending])
  moreover have "pending r1 = bs @ pending r'" "length bs = 2"
    using quic_read_exact_pending [OF step(2)] by simp_all
  ultimately have "bs = ?id" "pending r' @ rest = announcement_bytes owner ks'" by auto
  with step(3,4) dest(1) ks show thesis by (intro that [of k ks']) simp_all
qed

lemma udp_stream_step_frames:
  assumes "udp_stream_step route r q = Some (Inr (r', q'))" "pending r @ rest = concat (map stream_frame bss)"
    "\<forall>bs \<in> set bss. length bs \<le> 65535"
  obtains bs bss' where "bss = bs # bss'" "pending r' @ rest = concat (map stream_frame bss')"
    "chan_send (route_sender route) \<lparr>sq_data = bs, sq_destination = route_destination route\<rparr> q = Some (Inr q')"
proof -
  obtain len r1 bs where step: "quic_read_exact 2 r = Inr (len, r1)" "quic_read_exact (unat (from_be_bytes len :: u16)) r1 = Inr (bs, r')"
      "chan_send (route_sender route) \<lparr>sq_data = bs, sq_destination = route_destination route\<rparr> q = Some (Inr q')"
    using assms(1) by (rule udp_stream_step_Inr)
  have reads: "pending r = len @ pending r1" "length len = 2" "pending r1 = bs @ pending r'" "length bs = unat (from_be_bytes len :: u16)"
    using quic_read_exact_pending [OF step(1)] quic_read_exact_pending [OF step(2)] by simp_all
  then obtain b bss' where bss: "bss = b # bss'" using assms(2) by (cases bss) auto
  then have "len = to_be_bytes (word_of_nat (length b) :: u16)" "pending r1 @ rest = b @ concat (map stream_frame bss')"
    using assms(2) reads(1,2) by (auto simp: stream_frame_def)
  moreover have "unat (word_of_nat (length b) :: u16) = length b"
    using assms(3) bss by (simp add: unat_of_nat_small)
  ultimately have "bs = b" "pending r' @ rest = concat (map stream_frame bss')"
    using reads(3,4) by auto
  with step(3) bss show thesis by (intro that [of b bss']) simp_all
qed


section \<open>What the receiving end holds\<close>

text \<open>\<open>f\<close> tells which association of the sender an association of the receiver belongs to.\<close>

definition route_owned :: "nat \<Rightarrow> owners \<Rightarrow> (nat \<Rightarrow> nat) \<Rightarrow> u16 \<Rightarrow> udp_route \<Rightarrow> bool" where
  "route_owned m owner f i route \<longleftrightarrow> (\<exists>k < m. i = word_of_nat k \<and> fst (owner k) = f (route_sender route) \<and>
     route_destination route = canonical (snd (owner k)))"

fun payload_owned :: "(nat \<times> squic_packet) set \<Rightarrow> nat \<times> address \<Rightarrow> udp_payload \<Rightarrow> bool" where
  "payload_owned sent ow (OneDatagram bs) = sent_data sent ow bs"
| "payload_owned sent ow (PacketStream r) =
     (\<exists>bss rest. sent_frames sent ow bss \<and> pending r @ rest = concat (map stream_frame bss))"

fun task_owned :: "nat \<Rightarrow> owners \<Rightarrow> (nat \<times> squic_packet) set \<Rightarrow> (nat \<Rightarrow> nat) \<Rightarrow> udp_task \<Rightarrow> bool" where
  "task_owned m owner sent f (StreamOpened r) =
     (\<exists>k < m. \<exists>bss rest. sent_frames sent (owner k) bss \<and>
        pending r @ rest = to_be_bytes (word_of_nat k :: u16) @ concat (map stream_frame bss))"
| "task_owned m owner sent f (AwaitRoute i x) = (\<exists>k < m. i = word_of_nat k \<and> payload_owned sent (owner k) x)"
| "task_owned m owner sent f (Routed route x) =
     (\<exists>k < m. fst (owner k) = f (route_sender route) \<and> route_destination route = canonical (snd (owner k)) \<and>
        payload_owned sent (owner k) x)"
| "task_owned m owner sent f (TaskEnded res) = True"

definition queues_owned :: "(nat \<times> squic_packet) set \<Rightarrow> (nat \<Rightarrow> nat) \<Rightarrow> chan_store \<Rightarrow> bool" where
  "queues_owned sent f q \<longleftrightarrow> (\<forall>b ps x. q b = Some ps \<and> x \<in> set ps \<longrightarrow> (\<exists>p. (f b, p) \<in> sent \<and> x = received_as p))"

definition control_owned :: "nat \<Rightarrow> owners \<Rightarrow> nat \<Rightarrow> udp_control \<Rightarrow> bool" where
  "control_owned m owner n c \<longleftrightarrow> (\<exists>ks rest. announces m owner n ks \<and> pending (ctl_recv c) @ rest = announcement_bytes owner ks)"

definition isolated :: "nat \<Rightarrow> owners \<Rightarrow> (nat \<times> squic_packet) set \<Rightarrow> (nat \<Rightarrow> nat) \<Rightarrow> udp_plane \<Rightarrow> bool" where
  "isolated m owner sent f p \<longleftrightarrow> plane_inv p \<and>
     (\<forall>i route. routes (up_registry p) i = Some route \<longrightarrow> route_owned m owner f i route) \<and>
     list_all (task_owned m owner sent f) (up_tasks p) \<and> queues_owned sent f (up_queues p) \<and>
     (\<forall>b < length (up_controls p). control_owned m owner (f b) (up_controls p ! b))"

lemma chan_send_owned:
  assumes "queues_owned sent f q" "chan_send b \<lparr>sq_data = bs, sq_destination = canonical (snd ow)\<rparr> q = Some (Inr q')"
    "sent_data sent ow bs" "fst ow = f b"
  shows "queues_owned sent f q'"
proof -
  have "\<lparr>sq_data = bs, sq_destination = canonical (snd ow)\<rparr> = received_as \<lparr>sq_data = bs, sq_destination = snd ow\<rparr>"
    by (simp add: received_as_def)
  moreover have "(f b, \<lparr>sq_data = bs, sq_destination = snd ow\<rparr>) \<in> sent"
    using assms(3,4) by (simp add: sent_data_def)
  moreover obtain xs where "q b = Some xs" "q' = q(b \<mapsto> xs @ [\<lparr>sq_data = bs, sq_destination = canonical (snd ow)\<rparr>])"
    using assms(2) by (auto simp: chan_send_def split: option.splits if_splits)
  ultimately show ?thesis
    using assms(1) unfolding queues_owned_def by (auto split: if_splits)
qed

lemma task_step_owned:
  assumes "task_step reg t q = (t', q')" "task_owned m owner sent f t" "queues_owned sent f q" "m \<le> 65536"
    "\<forall>i route. routes reg i = Some route \<longrightarrow> route_owned m owner f i route"
  shows "task_owned m owner sent f t' \<and> queues_owned sent f q'"
proof (cases t)
  case (StreamOpened r)
  then obtain k bss rest where k: "k < m" "sent_frames sent (owner k) bss"
      "pending r @ rest = to_be_bytes (word_of_nat k :: u16) @ concat (map stream_frame bss)"
    using assms(2) by auto
  show ?thesis
  proof (cases "quic_read_exact 2 r")
    case (Inr x)
    then obtain i r1 where read: "quic_read_exact 2 r = Inr (i, r1)" by (cases x) simp
    then have "pending r = i @ pending r1" "length i = 2"
      using quic_read_exact_pending by blast+
    then have "i = to_be_bytes (word_of_nat k :: u16)" "pending r1 @ rest = concat (map stream_frame bss)"
      using k(3) by auto
    then have "task_owned m owner sent f (AwaitRoute (from_be_bytes i) (PacketStream r1))"
      using k(1,2) unfolding task_owned.simps payload_owned.simps by auto
    with read assms(1,3) StreamOpened show ?thesis by auto
  qed (use assms(1,3) StreamOpened in auto)
next
  case (AwaitRoute i x)
  then obtain k where k: "k < m" "i = word_of_nat k" "payload_owned sent (owner k) x" using assms(2) by auto
  show ?thesis
  proof (cases "routes reg i")
    case (Some route)
    then obtain k' where k': "k' < m" "i = word_of_nat k'" "fst (owner k') = f (route_sender route)"
        "route_destination route = canonical (snd (owner k'))"
      using assms(5) by (auto simp: route_owned_def)
    have "unat (word_of_nat k :: u16) = k" "unat (word_of_nat k' :: u16) = k'"
      using k(1) k'(1) assms(4) by (simp_all add: unat_of_nat)
    then have "k' = k" using k(2) k'(2) by metis
    with k k' Some assms(1,3) AwaitRoute show ?thesis by (auto simp: registry_wait_def)
  qed (use assms(1-3) AwaitRoute in \<open>auto simp: registry_wait_def split: if_splits\<close>)
next
  case (Routed route x)
  then obtain k where k: "k < m" "fst (owner k) = f (route_sender route)" "route_destination route = canonical (snd (owner k))"
      "payload_owned sent (owner k) x"
    using assms(2) by auto
  show ?thesis
  proof (cases x)
    case (OneDatagram bs)
    then show ?thesis
      using assms(1-3) Routed k chan_send_owned [OF assms(3) _ _ k(2)] by (auto split: option.splits sum.splits)
  next
    case (PacketStream r)
    then obtain bss rest where bss: "sent_frames sent (owner k) bss" "pending r @ rest = concat (map stream_frame bss)"
      using k(4) by auto
    show ?thesis
    proof (cases "\<exists>r1 q1. udp_stream_step route r q = Some (Inr (r1, q1))")
      case True
      then obtain r1 q1 where step: "udp_stream_step route r q = Some (Inr (r1, q1))" by blast
      obtain bs bss' where bs: "bss = bs # bss'" "pending r1 @ rest = concat (map stream_frame bss')"
          "chan_send (route_sender route) \<lparr>sq_data = bs, sq_destination = route_destination route\<rparr> q = Some (Inr q1)"
        using bss(1) by (rule_tac udp_stream_step_frames [OF step bss(2)]) (auto simp: sent_frames_def)
      have "queues_owned sent f q1"
        using chan_send_owned [OF assms(3) _ _ k(2)] bs bss(1) k(3) by (auto simp: sent_frames_def)
      moreover have "payload_owned sent (owner k) (PacketStream r1)"
        using bs(1,2) bss(1) by (auto simp: sent_frames_def)
      then have "task_owned m owner sent f (Routed route (PacketStream r1))"
        using k(1-3) unfolding task_owned.simps by blast
      ultimately show ?thesis
        using assms(1) Routed PacketStream step by (auto simp del: task_owned.simps)
    next
      case False
      then have "(t' = t \<or> (\<exists>res. t' = TaskEnded res)) \<and> q' = q"
        using assms(1) Routed PacketStream by (auto split: option.splits sum.splits)
      then show ?thesis
        using assms(2,3) by (auto simp del: task_owned.simps(1-3))
    qed
  qed
qed (use assms(1,3) in auto)


section \<open>Every schedule\<close>

text \<open>
  What the receiving end takes in comes from the sending end \<open>c\<close>: its \<open>b\<close>-th association reads (a beginning
  of) the control stream of association \<open>f b\<close> behind the header, a datagram is one that was sent, a
  stream is (the beginning of) one that was written.
\<close>

fun fed_by :: "association_event list \<Rightarrow> udp_connection \<Rightarrow> (nat \<Rightarrow> nat) \<Rightarrow> nat \<Rightarrow> plane_action list \<Rightarrow> bool" where
  "fed_by es c f b [] = True"
| "fed_by es c f b (OpenAssociation mode w r # as) =
     (f b < length (uc_senders c) \<and> (\<exists>rest. headers es ! f b @ pending r @ rest = written (control (uc_senders c ! f b))) \<and>
      fed_by es c f (Suc b) as)"
| "fed_by es c f b (ReceiveDatagram d # as) =
     ((\<exists>n < length (uc_senders c). d \<in> set (datagrams (uc_senders c ! n))) \<and> fed_by es c f b as)"
| "fed_by es c f b (ReceiveStream r # as) =
     ((\<exists>n < length (uc_senders c). \<exists>a w rest. contexts (uc_senders c ! n) a = Some (StreamContext w) \<and> pending r @ rest = written w) \<and>
      fed_by es c f b as)"
| "fed_by es c f b (CloseRegistry # as) = fed_by es c f b as"
| "fed_by es c f b (Step ev # as) = fed_by es c f b as"

lemma control_turn_owned:
  assumes "control_turn c reg = (c', reg')" "control_owned m owner (f (ctl_chan c)) c"
    "\<forall>i route. routes reg i = Some route \<longrightarrow> route_owned m owner f i route"
  shows "control_owned m owner (f (ctl_chan c)) c' \<and> (\<forall>i route. routes reg' i = Some route \<longrightarrow> route_owned m owner f i route)"
proof (cases "\<exists>i r reg1. ctl_end c = None \<and> control_step (ctl_chan c) (ctl_recv c) reg = Inr (i, r, reg1)")
  case False
  then have "ctl_recv c' = ctl_recv c" "\<forall>i route. routes reg' i = Some route \<longrightarrow> routes reg i = Some route"
    using assms(1) by (auto simp: control_turn_def registry_remove_routes split: option.splits sum.splits if_splits)
  then show ?thesis
    using assms(2,3) by (simp add: control_owned_def)
next
  case True
  then obtain i r reg1 where step: "ctl_end c = None" "control_step (ctl_chan c) (ctl_recv c) reg = Inr (i, r, reg1)" by blast
  obtain ks rest where ks: "announces m owner (f (ctl_chan c)) ks" "pending (ctl_recv c) @ rest = announcement_bytes owner ks"
    using assms(2) by (auto simp: control_owned_def)
  obtain k ks' where k: "ks = k # ks'" "i = word_of_nat k" "reg1 = registry_register i (canonical (snd (owner k))) (ctl_chan c) reg"
      "pending r @ rest = announcement_bytes owner ks'"
    using ks(1) by (rule_tac control_step_frames [OF step(2) ks(2)]) (auto simp: announces_def)
  have "c' = c\<lparr>ctl_recv := r, ctl_ids := ctl_ids c @ [i]\<rparr>" "reg' = reg1"
    using assms(1) step by (auto simp: control_turn_def)
  moreover have "announces m owner (f (ctl_chan c)) ks'" "k < m" "fst (owner k) = f (ctl_chan c)"
    using ks(1) k(1) by (auto simp: announces_def)
  then have "route_owned m owner f i \<lparr>route_sender = ctl_chan c, route_destination = canonical (snd (owner k))\<rparr>"
    using k(2) by (auto simp: route_owned_def)
  ultimately show ?thesis
    using assms(3) k(3,4) \<open>announces m owner (f (ctl_chan c)) ks'\<close>
    by (auto simp: control_owned_def registry_register_def)
qed

lemma plane_step_controls: "length (up_controls (plane_step link ev p)) = length (up_controls p)"
  by (cases ev) (auto simp: plane_recv_def split: prod.splits option.splits)

lemma isolated_step:
  assumes "isolated m owner sent f p" "m \<le> 65536"
  shows "isolated m owner sent f (plane_step link ev p)"
proof -
  have inv: "plane_inv (plane_step link ev p)"
    using assms(1) plane_inv_step by (simp add: isolated_def)
  show ?thesis
  proof (cases ev)
    case (ControlStep n)
    obtain c reg where turn: "control_turn (up_controls p ! n) (up_registry p) = (c, reg)" by fastforce
    have "control_owned m owner (f n) c \<and> (\<forall>i route. routes reg i = Some route \<longrightarrow> route_owned m owner f i route)"
      if "n < length (up_controls p)"
    proof -
      have "ctl_chan (up_controls p ! n) = n" using assms(1) that by (simp add: isolated_def plane_inv_def)
      then show ?thesis using control_turn_owned [OF turn, of m owner f] assms(1) that by (simp add: isolated_def)
    qed
    then show ?thesis
      using inv assms(1) turn ControlStep by (auto simp: isolated_def nth_list_update)
  next
    case (TaskStep n)
    obtain t q where t: "task_step (up_registry p) (up_tasks p ! n) (up_queues p) = (t, q)" by fastforce
    have "task_owned m owner sent f t \<and> queues_owned sent f q" if "n < length (up_tasks p)"
      using task_step_owned [OF t, of m owner sent f] assms that by (simp add: isolated_def list_all_length)
    then show ?thesis
      using inv assms(1) t TaskStep by (auto simp: isolated_def list_all_length nth_list_update)
  next
    case (AppSend n x)
    then show ?thesis using inv assms(1) by (simp add: isolated_def)
  next
    case (AppRecv n)
    have "queues_owned sent f (up_queues (snd (plane_recv n p)))"
      using assms(1) by (fastforce simp: isolated_def queues_owned_def plane_recv_def squic_recv_def split: option.splits list.splits if_splits)
    then show ?thesis
      using inv assms(1) AppRecv by (auto simp: isolated_def plane_recv_def split: option.splits prod.splits)
  next
    case (AppDrop n)
    then show ?thesis using inv assms(1) by (auto simp: isolated_def queues_owned_def split: if_splits)
  qed
qed

lemma sender_control_owned:
  assumes "sender_emits m owner sent n hdr s" "hdr @ pending r @ rest = written (control s)" "ctl_recv c = r"
  shows "control_owned m owner n c"
proof -
  obtain ks where "announces m owner n ks" "control s = \<lparr>written = hdr @ announcement_bytes owner ks, room = None\<rparr>"
    using assms(1) by (auto simp: sender_emits_def control_emits_def)
  moreover from this have "pending (ctl_recv c) @ rest = announcement_bytes owner ks" using assms(2,3) by simp
  ultimately show ?thesis unfolding control_owned_def by blast
qed

lemma isolated_associate:
  assumes "isolated m owner sent f p" "control_owned m owner (f (length (up_controls p))) \<lparr>ctl_chan = length (up_controls p), ctl_recv = r, ctl_ids = [], ctl_end = None\<rparr>"
  shows "isolated m owner sent f (plane_associate mode w r p)"
proof -
  have "length (uc_senders (up_out p)) = length (up_controls p)" "plane_inv (plane_associate mode w r p)"
    using assms(1) plane_inv_associate by (simp_all add: isolated_def plane_inv_def)
  then show ?thesis
    using assms by (auto simp: isolated_def plane_associate_def Let_def nth_append less_Suc_eq queues_owned_def)
qed

lemma isolated_run:
  assumes "emits m owner es c" "m \<le> 65536"
  shows "isolated m owner (sends es) f p \<Longrightarrow> fed_by es c f (length (up_controls p)) as \<Longrightarrow>
    isolated m owner (sends es) f (plane_run link as p)"
proof (induction as arbitrary: p)
  case Nil
  then show ?case by (simp add: plane_run_def)
next
  case (Cons a as)
  let ?p = "plane_act link a p"
  have sender: "sender_emits m owner (sends es) n (headers es ! n) (uc_senders c ! n)" if "n < length (uc_senders c)" for n
    using assms(1) that by (simp add: emits_def)
  have spawn: "isolated m owner (sends es) f (plane_spawn t p)" if "task_owned m owner (sends es) f t" "task_known (length (up_controls p)) t" for t
    using Cons.prems(1) that by (auto simp: isolated_def plane_spawn_def plane_inv_def)
  have "isolated m owner (sends es) f ?p \<and> fed_by es c f (length (up_controls ?p)) as"
  proof (cases a)
    case (OpenAssociation mode w r)
    then obtain rest where "f (length (up_controls p)) < length (uc_senders c)"
        "headers es ! f (length (up_controls p)) @ pending r @ rest = written (control (uc_senders c ! f (length (up_controls p))))"
      using Cons.prems(2) by auto
    then show ?thesis
      using isolated_associate [OF Cons.prems(1) sender_control_owned [OF sender]] OpenAssociation Cons.prems(2)
      by (simp add: plane_associate_def Let_def)
  next
    case (ReceiveDatagram d)
    then obtain n where "n < length (uc_senders c)" "d \<in> set (datagrams (uc_senders c ! n))"
      using Cons.prems(2) by auto
    then obtain k bs where k: "k < m" "sent_data (sends es) (owner k) bs" "d = to_be_bytes (word_of_nat k :: u16) @ bs"
      using sender unfolding sender_emits_def datagram_emitted_def by blast
    then have "datagram_task d = AwaitRoute (word_of_nat k) (OneDatagram bs)" by (simp add: datagram_task_def)
    with k(1,2) ReceiveDatagram Cons.prems(2) spawn [of "datagram_task d"] show ?thesis by (auto simp: plane_spawn_def)
  next
    case (ReceiveStream r)
    then obtain n a w rest where s: "n < length (uc_senders c)" "contexts (uc_senders c ! n) a = Some (StreamContext w)" "pending r @ rest = written w"
      using Cons.prems(2) by auto
    then obtain k where k: "k < m" "owner k = (n, a)" "context_emits (sends es) (n, a) (word_of_nat k) (StreamContext w)"
      using sender unfolding sender_emits_def contexts_emit_def by blast
    then obtain bss where "sent_frames (sends es) (owner k) bss" "written w = to_be_bytes (word_of_nat k :: u16) @ concat (map stream_frame bss)"
      by auto
    with k(1) s(3) have "task_owned m owner (sends es) f (StreamOpened r)"
      unfolding task_owned.simps by (intro exI [of _ k] conjI exI [of _ bss] exI [of _ rest]) simp_all
    with ReceiveStream Cons.prems(2) spawn [of "StreamOpened r"] show ?thesis by (auto simp: plane_spawn_def)
  next
    case CloseRegistry
    then show ?thesis
      using Cons.prems plane_inv_act [of p link CloseRegistry]
      by (auto simp: isolated_def plane_close_def registry_close_def)
  next
    case (Step ev)
    then show ?thesis
      using isolated_step [OF Cons.prems(1) assms(2)] Cons.prems(2) plane_step_controls by simp
  qed
  then show ?case using Cons.IH [of ?p] by (simp add: plane_run_def)
qed


section \<open>Properties\<close>

text \<open>
  (C7) UDP associations are isolated as long as ids are not reused. One end opens any number of
  associations and sends any number of packets on them, in any order and in both modes, taking at most
  65536 ids in all (an id is taken by the first send to a destination, and by every send to one that
  cannot be encoded) and with no write on its streams failing; the other end takes in associations,
  datagrams and streams in any order, with losses, repetitions and streams cut short, and its tasks
  take their steps in any interleaving. Whatever \<open>recv\<close> hands out on an association was sent on the
  matching association of the peer, with that data and to that destination. Without the bound this is
  false of the code: the 16-bit ids wrap (\<open>id_counter_wraps\<close>, \<open>reused_id_redirects\<close>).
\<close>

theorem associations_isolated:
  assumes "unlimited_streams link" "unlimited_controls es" "ids_taken link es udp_connection_new \<le> 65536"
    "fed_by es (fold (association_step link) es udp_connection_new) f 0 as"
    "fst (plane_recv b (plane_run link' as plane_new)) = Some (Inr x)"
  shows "\<exists>p. SendOn (f b) p \<in> set es \<and> x = received_as p"
proof -
  let ?c = "fold (association_step link) es udp_connection_new"
  obtain m owner where m: "m \<le> ids_taken link es udp_connection_new" "emits m owner es ?c"
    using emits_run [OF assms(1,2)] by (elim exE conjE)
  have "isolated m owner (sends es) f plane_new"
    by (simp add: isolated_def plane_inv_new) (simp add: plane_new_def registry_default_def queues_owned_def)
  from isolated_run [OF m(2) _ this, of as link'] m(1) assms(3,4)
  have "queues_owned (sends es) f (up_queues (plane_run link' as plane_new))"
    by (simp add: plane_new_def isolated_def)
  moreover obtain ps where "up_queues (plane_run link' as plane_new) b = Some ps" "x \<in> set ps"
    using assms(5) by (auto simp: plane_recv_def squic_recv_def split: option.splits list.splits if_splits)
  ultimately show ?thesis
    unfolding queues_owned_def sends_def by blast
qed

definition one_send :: "association_event list" where
  "one_send = [Associate DatagramMode fresh_writer, SendOn 0 dns_packet]"

text \<open>The receiving end of that send: the datagram arrives before its announcement has been read.\<close>

definition one_receive :: "bytes \<Rightarrow> plane_action list" where
  "one_receive addr = [OpenAssociation DatagramMode fresh_writer \<lparr>pending = addr @ to_be_bytes (0 :: u16), ending = Finished\<rparr>,
     ReceiveDatagram (to_be_bytes (0 :: u16) @ sq_data dns_packet), Step (TaskStep 0), Step (ControlStep 0), Step (TaskStep 0), Step (TaskStep 0)]"

lemma one_send_emits:
  assumes "encode_address dns_server = Inr addr"
  shows "fold (association_step open_link) one_send udp_connection_new = \<lparr>uc_next_id = 1, uc_senders =
    [\<lparr>sender_mode = DatagramMode, sender_next_id = 1, control = \<lparr>written = addr @ to_be_bytes (0 :: u16), room = None\<rparr>,
      contexts = [dns_server \<mapsto> DatagramContext 0], datagrams = [to_be_bytes (0 :: u16) @ sq_data dns_packet], opened = 0\<rparr>]\<rparr>"
  using assms
  by (simp add: one_send_def udp_connection_new_def add_association_def association_send_def squic_send_def open_context_def
      announce_def send_in_context_def quic_write_all_def accepts_def emit_def fresh_writer_def open_link_def dns_packet_def Let_def)

lemma one_receive_delivers:
  assumes "encode_address dns_server = Inr addr"
  shows "fst (plane_recv 0 (plane_run open_link (one_receive addr) plane_new)) = Some (Inr (received_as dns_packet))"
proof -
  have "decode_address \<lparr>pending = addr @ to_be_bytes (0 :: u16), ending = Finished\<rparr> =
      Inr (canonical dns_server, \<lparr>pending = to_be_bytes (0 :: u16) @ [], ending = Finished\<rparr>)"
    using decode_encoded_address [OF assms, of "to_be_bytes (0 :: u16)" Finished] by simp
  then have "control_step 0 \<lparr>pending = addr @ to_be_bytes (0 :: u16), ending = Finished\<rparr> reg =
      Inr (0, \<lparr>pending = [], ending = Finished\<rparr>, registry_register 0 (canonical dns_server) 0 reg)" for reg
    by (simp add: control_step_def quic_read_exact_append [of "to_be_bytes (0 :: u16)" 2 "[]"] Let_def del: append_Nil2)
  then show ?thesis
    by (simp add: plane_run_def one_receive_def plane_new_def plane_associate_def udp_connection_new_def add_association_def
        plane_spawn_def datagram_task_def registry_wait_def registry_default_def control_turn_def registry_register_def
        chan_send_def UDP_CAPACITY_def plane_recv_def squic_recv_def received_as_def dns_packet_def Let_def)
qed

theorem associations_isolated_witness:
  "\<exists>addr p. fst (plane_recv 0 (plane_run open_link (one_receive addr) plane_new)) = Some (Inr (received_as dns_packet)) \<and>
     SendOn 0 p \<in> set one_send \<and> received_as dns_packet = received_as p"
proof -
  obtain addr where addr: "encode_address dns_server = Inr addr"
    using encode_address_domain [of dns_server] by (auto simp: dns_server_def is_ascii_def byte_of_char_def)
  have "unlimited_streams open_link" "unlimited_controls one_send"
    by (auto simp: unlimited_streams_def open_link_def unlimited_controls_def one_send_def fresh_writer_def)
  moreover have "fed_by one_send (fold (association_step open_link) one_send udp_connection_new) (\<lambda>b. b) 0 (one_receive addr)"
    unfolding one_send_emits [OF addr] by (simp add: one_receive_def one_send_def fresh_writer_def)
  ultimately show ?thesis
    using associations_isolated [OF _ _ _ _ one_receive_delivers [OF addr], where f = "\<lambda>b. b" and es = one_send and link = open_link]
      one_receive_delivers [OF addr] by (auto simp: one_send_def)
qed

end
