(* ===== verification/Squic_Setup.thy ===== *)
theory Squic_Setup
  imports Quic_Setup
begin

text \<open>
  Options and constructors of \<open>src/src/shadowquic/mod.rs\<close>: the TLS configurations of ShadowQUIC and
  SunnyQUIC clients and servers, and the endpoints of the two clients.
\<close>


section \<open>Options\<close>

datatype congestion_config = BbrConfig | BrutalConfig u64 bool

record user =
  user_name :: string
  user_password :: string

record client_options =
  co_server :: socket_addr
  co_server_name :: string
  co_username :: string
  co_password :: string
  co_congestion :: congestion_config
  co_zero_rtt :: bool

record sunny_client_options =
  sco_server :: socket_addr
  sco_server_name :: string
  sco_credential :: bytes
  sco_ca_certificates :: "bytes list"
  sco_congestion :: congestion_config
  sco_zero_rtt :: bool

record server_options =
  options_listen :: socket_addr
  options_users :: "user list"
  options_server_name :: "string option"
  options_jls_upstream_addr :: "string option"
  options_jls_rate_limit :: u64
  options_congestion :: congestion_config
  options_zero_rtt :: bool

record sunny_server_options =
  sunny_listen :: socket_addr
  sunny_user_list :: "user list"
  sunny_certificate_chain :: "bytes list"
  sunny_private_key :: bytes
  sunny_congestion :: congestion_config
  sunny_zero_rtt :: bool


section \<open>Clients\<close>

definition jls_client_config :: "tls_library \<Rightarrow> client_options \<Rightarrow> quic_client_config result" where
  "jls_client_config lib options =
     (if co_server_name options = [] then Inl (InvalidServerName (co_server_name options))
      else
        let tls = \<lparr>tls_roots = [WebPkiRoots], tls_client_alpn = [ALPN_H3], tls_early_data = co_zero_rtt options,
                   tls_jls_client = Some (co_password options, co_username options)\<rparr>
        in bindR (quic_client_crypto lib tls) (\<lambda>crypto.
             Inr \<lparr>qc_tls = crypto, qc_transport = shadowquic_transport_config (lib_transport_defaults lib)\<rparr>))"

text \<open>SunnyQUIC trusts the given certificates, or the web's roots when none is given.\<close>

definition sunny_client_config :: "tls_library \<Rightarrow> sunny_client_options \<Rightarrow> quic_client_config result" where
  "sunny_client_config lib options =
     (if sco_server_name options = [] then Inl (InvalidServerName (sco_server_name options))
      else bindR (add_roots lib (if sco_ca_certificates options = [] then [WebPkiRoots] else []) (sco_ca_certificates options)) (\<lambda>roots.
        let tls = \<lparr>tls_roots = roots, tls_client_alpn = [ALPN_H3], tls_early_data = sco_zero_rtt options,
                   tls_jls_client = None\<rparr>
        in bindR (quic_client_crypto lib tls) (\<lambda>crypto.
             Inr \<lparr>qc_tls = crypto, qc_transport = shadowquic_transport_config (lib_transport_defaults lib)\<rparr>)))"

section \<open>Servers\<close>

definition U32_MAX :: u32 where
  "U32_MAX = 4294967295"

text \<open>ShadowQUIC: a certificate made on the spot, JLS with the users of the options.\<close>

definition jls_calls :: "server_options \<Rightarrow> jls_call list" where
  "jls_calls options =
     [JlsEnable True, JlsRateLimit (options_jls_rate_limit options)] @
     (case options_jls_upstream_addr options of Some a \<Rightarrow> [JlsUpstreamAddr a] | None \<Rightarrow> []) @
     (case options_server_name options of Some n \<Rightarrow> [JlsServerName n] | None \<Rightarrow> []) @
     map (\<lambda>u. JlsAddUser (user_password u) (user_name u)) (options_users options)"

definition build_server_config :: "tls_library \<Rightarrow> server_options \<Rightarrow> quic_server_config result" where
  "build_server_config lib options =
     bindR (map_errR (\<lambda>e. QuicTls (''generate ephemeral certificate: '' @ e)) (lib_self_signed lib [''localhost''])) (\<lambda>(certificate, key).
     bindR (single_cert lib [certificate] (Pkcs8 key)) (\<lambda>tls.
       let tls = tls\<lparr>tls_server_alpn := [ALPN_H3], tls_max_early_data := (if options_zero_rtt options then U32_MAX else 0),
                     tls_jls_server := Some (jls_calls options)\<rparr>
       in bindR (quic_server_crypto lib tls) (\<lambda>crypto.
            Inr \<lparr>qs_tls = crypto, qs_transport = shadowquic_transport_config (lib_transport_defaults lib),
                 qs_disable_path_manager = None\<rparr>)))"

definition build_sunny_server_config :: "tls_library \<Rightarrow> bytes list \<Rightarrow> bytes \<Rightarrow> bool \<Rightarrow> quic_server_config result" where
  "build_sunny_server_config lib certificate_chain private_key zero_rtt =
     bindR (detect_private_key (lib_unsupported lib) private_key) (\<lambda>key.
     bindR (single_cert lib certificate_chain key) (\<lambda>tls.
       let tls = tls\<lparr>tls_server_alpn := [ALPN_H3], tls_max_early_data := (if zero_rtt then U32_MAX else 0)\<rparr>
       in bindR (quic_server_crypto lib tls) (\<lambda>crypto.
            Inr \<lparr>qs_tls = crypto, qs_transport = shadowquic_transport_config (lib_transport_defaults lib),
                 qs_disable_path_manager = None\<rparr>)))"

end
