(* ===== verification/Squic_Server.thy ===== *)
theory Squic_Server
  imports Squic_Plane Squic_Setup Varint
begin

text \<open>
  The server side of \<open>src/src/shadowquic/mod.rs\<close>: configuration and its updates, SunnyQUIC credentials,
  the authentication gate, and the handlers of streams and datagrams of one connection. The hash and
  the float formatting of the statistics are parameters, beside the TLS library and the system calls.
\<close>


section \<open>Configuration\<close>

datatype server_authentication = JlsAuth | SunnyAuth "bytes \<rightharpoonup> string"

text \<open>\<open>sunny_credential\<close>: the 32 bytes of the digest in front of the 64-byte array, zeros behind.\<close>

definition sunny_credential :: "(bytes \<Rightarrow> bytes) \<Rightarrow> string \<Rightarrow> string \<Rightarrow> bytes" where
  "sunny_credential sha256 name password =
     (let digest = sha256 (as_bytes (name @ '':'' @ password))
      in digest @ replicate (64 - length digest) 0)"

definition sunny_users :: "(bytes \<Rightarrow> bytes) \<Rightarrow> user list \<Rightarrow> bytes \<rightharpoonup> string" where
  "sunny_users sha256 users =
     foldl (\<lambda>m u. m(sunny_credential sha256 (user_name u) (user_password u) \<mapsto> user_name u)) Map.empty users"

record squic_server =
  server_endpoint :: endpoint
  server_congestion :: congestion_config
  server_authentication :: server_authentication

text \<open>\<open>bind_inner\<close>: the endpoint and what the accept task reads for every new connection.\<close>

definition bind_inner ::
  "os_calls \<Rightarrow> socket_addr \<Rightarrow> quic_server_config \<Rightarrow> congestion_config \<Rightarrow> server_authentication \<Rightarrow>
   squic_server result \<times> socket_trace" where
  "bind_inner os listen config congestion auth = (case bind_endpoint os listen (Some config) of
       (Inl e, trace) \<Rightarrow> (Inl (Io e), trace)
     | (Inr ep, trace) \<Rightarrow>
         (Inr \<lparr>server_endpoint = ep, server_congestion = congestion, server_authentication = auth\<rparr>, trace))"

definition bind_server :: "tls_library \<Rightarrow> os_calls \<Rightarrow> server_options \<Rightarrow> squic_server result \<times> socket_trace" where
  "bind_server lib os options = (case build_server_config lib options of
       Inl e \<Rightarrow> (Inl e, [], [])
     | Inr config \<Rightarrow> bind_inner os (options_listen options) config (options_congestion options) JlsAuth)"

definition bind_sunny ::
  "(bytes \<Rightarrow> bytes) \<Rightarrow> tls_library \<Rightarrow> os_calls \<Rightarrow> sunny_server_options \<Rightarrow> squic_server result \<times> socket_trace" where
  "bind_sunny sha256 lib os options =
     (case build_sunny_server_config lib (sunny_certificate_chain options) (sunny_private_key options) (sunny_zero_rtt options) of
        Inl e \<Rightarrow> (Inl e, [], [])
      | Inr config \<Rightarrow> bind_inner os (sunny_listen options) config (sunny_congestion options)
                       (SunnyAuth (sunny_users sha256 (sunny_user_list options))))"

definition set_server_config :: "quic_server_config \<Rightarrow> squic_server \<Rightarrow> squic_server" where
  "set_server_config config s = s\<lparr>server_endpoint := (server_endpoint s)\<lparr>endpoint_server := Some config\<rparr>\<rparr>"

text \<open>\<open>update_config\<close> stores the congestion setting before it builds the TLS configuration.\<close>

definition update_config :: "tls_library \<Rightarrow> server_options \<Rightarrow> squic_server \<Rightarrow> unit result \<times> squic_server" where
  "update_config lib options s =
     (let s = s\<lparr>server_congestion := options_congestion options\<rparr>
      in case build_server_config lib options of
           Inl e \<Rightarrow> (Inl e, s)
         | Inr config \<Rightarrow> (Inr (), set_server_config config s))"

definition update_sunny_config ::
  "(bytes \<Rightarrow> bytes) \<Rightarrow> tls_library \<Rightarrow> sunny_server_options \<Rightarrow> squic_server \<Rightarrow> unit result \<times> squic_server" where
  "update_sunny_config sha256 lib options s =
     (case build_sunny_server_config lib (sunny_certificate_chain options) (sunny_private_key options) (sunny_zero_rtt options) of
        Inl e \<Rightarrow> (Inl e, s)
      | Inr config \<Rightarrow>
          (Inr (), set_server_config config
             (s\<lparr>server_congestion := sunny_congestion options,
                server_authentication := SunnyAuth (sunny_users sha256 (sunny_user_list options))\<rparr>)))"

definition server_local_addr :: "os_calls \<Rightarrow> squic_server \<Rightarrow> socket_addr result" where
  "server_local_addr os s = endpoint_local_addr os (server_endpoint s)"

definition apply_congestion ::
  "('c, 'r, 'p, 'm) controller_ops \<Rightarrow> nat \<Rightarrow> 'c cc_connection \<Rightarrow> congestion_config \<Rightarrow> 'c cc_heap \<Rightarrow> unit result \<times> 'c cc_heap" where
  "apply_congestion ops now conn config h =
     (let (configured, h) = (case config of
            BbrConfig \<Rightarrow> configure_connection_bbr ops now conn h
          | BrutalConfig r dis \<Rightarrow> configure_connection_brutal_with_options ops now conn r dis h)
      in (if configured then Inr () else Inl CongestionControl, h))"


section \<open>Authentication of a connection\<close>

record handshake =
  jls_authenticated :: "bool option"
  jls_user :: "string option"

text \<open>\<open>handshake_data\<close> is missing (\<open>None\<close>), of another type (\<open>Some None\<close>) or the expected one.\<close>

definition connection_user ::
  "server_authentication \<Rightarrow> handshake option option \<Rightarrow> string result" where
  "connection_user auth hs = (case auth of
       JlsAuth \<Rightarrow>
         (case hs of
            Some (Some d) \<Rightarrow>
              if jls_authenticated d = Some True
              then Inr (case jls_user d of None \<Rightarrow> [] | Some u \<Rightarrow> u)
              else Inl JlsAuthenticationFailed
          | _ \<Rightarrow> Inl JlsAuthenticationFailed)
     | SunnyAuth _ \<Rightarrow> Inr [])"

text \<open>
  The gate every SunnyQUIC request waits at: the verdict of the authentication stream, if there is one
  yet. While there is none the task sleeps; it may be woken by the timeout or by the verdict's
  sender going away.
\<close>

datatype auth_wake = NoWake | AuthTimeout | SenderGone

definition wait_for_sunny_auth ::
  "server_authentication \<Rightarrow> (string + string) option \<Rightarrow> auth_wake \<Rightarrow> string result option" where
  "wait_for_sunny_auth auth verdict woken = (case auth of
       JlsAuth \<Rightarrow> Some (Inr [])
     | SunnyAuth _ \<Rightarrow>
         (case verdict of
            Some (Inr u) \<Rightarrow> Some (Inr u)
          | Some (Inl m) \<Rightarrow> Some (Inl (Protocol m))
          | None \<Rightarrow>
              (case woken of
                 NoWake \<Rightarrow> None
               | AuthTimeout \<Rightarrow> Some (Inl (Protocol ''SunnyQUIC authentication timed out''))
               | SenderGone \<Rightarrow> Some (Inl Closed))))"


section \<open>Requests\<close>

text \<open>
  What the application gets: a stream with its two halves, or the number of a packet connection.
\<close>

datatype accepted =
    AcceptedStream (accepted_destination: address) (accepted_user: string) (accepted_source: socket_addr) reader writer
  | AcceptedPacket (accepted_destination: address) (accepted_user: string) (accepted_source: socket_addr) nat

text \<open>
  The state of a connection: \<open>sc_accepted\<close> is what its handlers have sent towards the application,
  \<open>sc_app_gone\<close> tells that the receiving end of that channel has been dropped.
\<close>

record server_connection =
  sc_source :: socket_addr
  sc_auth :: server_authentication
  sc_user :: string
  sc_verdict :: "(string + string) option"
  sc_accepted :: "accepted list"
  sc_app_gone :: bool
  sc_plane :: udp_plane
  sc_close :: "u32 option"

definition STREAM_ERROR_CODE :: u32 where
  "STREAM_ERROR_CODE = 0x100"

definition SUNNY_AUTH_ERROR_CODE :: u32 where
  "SUNNY_AUTH_ERROR_CODE = 263"

text \<open>
  How a handler leaves its stream: waiting at the gate, going on as a task of the connection's UDP
  state, ended, ended with an answer on its finished sending half, or reset with a code.
\<close>

datatype stream_end = Waiting | Running | Ended "unit result" | Answered bytes | ResetWith u32

text \<open>
  What the handlers ask the QUIC library for: the statistics of the connection (and how it renders
  the round-trip time as a float), whether finishing an answered stream fails, and how it takes
  datagrams and opens streams.
\<close>

record sq_stats =
  lost_packets :: u64
  sent_packets :: u64
  rtt_ns :: nat
  stats_mtu :: u16

record sq_env =
  env_rtt_ms :: "nat \<Rightarrow> bytes"
  env_stats :: sq_stats
  env_finish :: "string option"
  env_link :: squic_link

definition stats_reply :: "(nat \<Rightarrow> bytes) \<Rightarrow> sq_stats \<Rightarrow> bytes" where
  "stats_reply rtt_ms st =
     [0] @ to_be_bytes (26 :: u32) @ to_be_bytes (lost_packets st) @ to_be_bytes (sent_packets st) @
     rtt_ms (rtt_ns st) @ to_be_bytes (stats_mtu st)"

definition SQ_EXTENSION_CONNECTION :: u64 where
  "SQ_EXTENSION_CONNECTION = 1"

definition SQ_EXTENSION_GET_STATS :: u8 where
  "SQ_EXTENSION_GET_STATS = 0"

definition handle_extension :: "sq_env \<Rightarrow> writer \<Rightarrow> reader \<Rightarrow> stream_end" where
  "handle_extension env w r = (case quic_read_exact 8 r of
       Inl e \<Rightarrow> Ended (Inl e)
     | Inr (extension, r) \<Rightarrow>
         (case quic_read_exact 1 r of
            Inl e \<Rightarrow> Ended (Inl e)
          | Inr (opcode, r) \<Rightarrow>
              if (from_be_bytes extension :: u64) \<noteq> SQ_EXTENSION_CONNECTION \<or> hd opcode \<noteq> SQ_EXTENSION_GET_STATS
              then ResetWith STREAM_ERROR_CODE
              else case quic_write_all (stats_reply (env_rtt_ms env) (env_stats env)) w of
                Inl e \<Rightarrow> Ended (Inl e)
              | Inr w \<Rightarrow>
                  (case env_finish env of
                     Some m \<Rightarrow> Ended (Inl (Protocol m))
                   | None \<Rightarrow> Answered (written w))))"

definition request_user :: "server_connection \<Rightarrow> string \<Rightarrow> string" where
  "request_user c authenticated_user = (if authenticated_user = [] then sc_user c else authenticated_user)"

definition handle_authenticate :: "server_connection \<Rightarrow> reader \<Rightarrow> stream_end \<times> server_connection" where
  "handle_authenticate c r = (case sc_auth c of
       JlsAuth \<Rightarrow> (ResetWith STREAM_ERROR_CODE, c)
     | SunnyAuth users \<Rightarrow>
         (case quic_read_exact 64 r of
            Inl e \<Rightarrow> (Ended (Inl e), c)
          | Inr (credential, r) \<Rightarrow>
              (case users credential of
                 Some username \<Rightarrow> (Ended (Inr ()), c\<lparr>sc_verdict := Some (Inr username)\<rparr>)
               | None \<Rightarrow>
                   (Ended (Inl (Protocol ''SunnyQUIC authentication failed'')),
                    c\<lparr>sc_verdict := Some (Inl ''invalid SunnyQUIC credentials''),
                      sc_close := Some SUNNY_AUTH_ERROR_CODE\<rparr>))))"

text \<open>Handing an item to the application fails when nobody can receive it any more.\<close>

definition send_accepted :: "accepted \<Rightarrow> server_connection \<Rightarrow> server_connection result" where
  "send_accepted a c = (if sc_app_gone c then Inl Closed else Inr (c\<lparr>sc_accepted := sc_accepted c @ [a]\<rparr>))"

definition handle_connect :: "auth_wake \<Rightarrow> server_connection \<Rightarrow> writer \<Rightarrow> reader \<Rightarrow> stream_end \<times> server_connection" where
  "handle_connect woken c w r = (case wait_for_sunny_auth (sc_auth c) (sc_verdict c) woken of
       None \<Rightarrow> (Waiting, c)
     | Some (Inl e) \<Rightarrow> (Ended (Inl e), c)
     | Some (Inr u) \<Rightarrow>
         (case decode_address r of
            Inl e \<Rightarrow> (Ended (Inl e), c)
          | Inr (dest, r) \<Rightarrow>
              (case send_accepted (AcceptedStream dest (request_user c u) (sc_source c) r w) c of
                 Inl e \<Rightarrow> (Ended (Inl e), c)
               | Inr c \<Rightarrow> (Ended (Inr ()), c))))"

text \<open>
  An association gets a packet connection with its own channel, the connection's id counter and the
  sending half of the request stream as its control stream; the handler goes on reading the
  receiving half.
\<close>

definition handle_associate ::
  "udp_mode \<Rightarrow> auth_wake \<Rightarrow> server_connection \<Rightarrow> writer \<Rightarrow> reader \<Rightarrow> stream_end \<times> server_connection" where
  "handle_associate mode woken c w r = (case wait_for_sunny_auth (sc_auth c) (sc_verdict c) woken of
       None \<Rightarrow> (Waiting, c)
     | Some (Inl e) \<Rightarrow> (Ended (Inl e), c)
     | Some (Inr u) \<Rightarrow>
         (case decode_address r of
            Inl e \<Rightarrow> (Ended (Inl e), c)
          | Inr (dest, r) \<Rightarrow>
              (case send_accepted (AcceptedPacket dest (request_user c u) (sc_source c)
                      (length (uc_senders (up_out (sc_plane c))))) c of
                 Inl e \<Rightarrow> (Ended (Inl e), c)
               | Inr c \<Rightarrow> (Running, c\<lparr>sc_plane := plane_associate mode w r (sc_plane c)\<rparr>))))"

definition handle_bi_stream ::
  "sq_env \<Rightarrow> auth_wake \<Rightarrow> server_connection \<Rightarrow> writer \<Rightarrow> reader \<Rightarrow> stream_end \<times> server_connection" where
  "handle_bi_stream env woken c w r = (case quic_read_exact 1 r of
       Inl e \<Rightarrow> (Ended (Inl e), c)
     | Inr (opcode, r) \<Rightarrow>
         (let k = hd opcode
          in if k = SQ_AUTHENTICATE then handle_authenticate c r
             else if k = SQ_CONNECT then handle_connect woken c w r
             else if k = SQ_ASSOCIATE_OVER_DATAGRAM then handle_associate DatagramMode woken c w r
             else if k = SQ_ASSOCIATE_OVER_STREAM then handle_associate StreamMode woken c w r
             else if k = SQ_EXTENSION then
               (case wait_for_sunny_auth (sc_auth c) (sc_verdict c) woken of
                  None \<Rightarrow> (Waiting, c)
                | Some (Inl e) \<Rightarrow> (Ended (Inl e), c)
                | Some (Inr u) \<Rightarrow> (handle_extension env w r, c))
             else (ResetWith STREAM_ERROR_CODE, c)))"

definition handle_datagram :: "auth_wake \<Rightarrow> server_connection \<Rightarrow> bytes \<Rightarrow> stream_end \<times> server_connection" where
  "handle_datagram woken c datagram = (case wait_for_sunny_auth (sc_auth c) (sc_verdict c) woken of
       None \<Rightarrow> (Waiting, c)
     | Some (Inl e) \<Rightarrow> (Ended (Inl e), c)
     | Some (Inr u) \<Rightarrow> (Running, c\<lparr>sc_plane := plane_spawn (datagram_task datagram) (sc_plane c)\<rparr>))"

definition handle_uni_stream :: "auth_wake \<Rightarrow> server_connection \<Rightarrow> reader \<Rightarrow> stream_end \<times> server_connection" where
  "handle_uni_stream woken c r = (case wait_for_sunny_auth (sc_auth c) (sc_verdict c) woken of
       None \<Rightarrow> (Waiting, c)
     | Some (Inl e) \<Rightarrow> (Ended (Inl e), c)
     | Some (Inr u) \<Rightarrow> (Running, c\<lparr>sc_plane := plane_spawn (StreamOpened r) (sc_plane c)\<rparr>))"

text \<open>
  \<open>serve_connection\<close>: the user from the handshake, then one handler per stream or datagram until the
  connection fails, when the registry is closed. An event is a handler getting to run, a step of the
  connection's UDP state, or the application going away; a handler that waits has not changed
  anything and gets to run again later.
\<close>

definition serve_start ::
  "socket_addr \<Rightarrow> server_authentication \<Rightarrow> handshake option option \<Rightarrow> congestion_kind option \<Rightarrow> (server_connection \<times> u64) result" where
  "serve_start source auth hs cc =
     bindR (connection_user auth hs) (\<lambda>u.
     bindR (ok_or CongestionControl cc) (\<lambda>k.
       Inr (\<lparr>sc_source = source, sc_auth = auth, sc_user = u, sc_verdict = None, sc_accepted = [], sc_app_gone = False,
             sc_plane = plane_new, sc_close = None\<rparr>,
            case k of Brutal r \<Rightarrow> r | Bbr \<Rightarrow> 0)))"

datatype sq_event =
    BiStream auth_wake writer reader
  | UniStream auth_wake reader
  | Datagram auth_wake bytes
  | PlaneStep plane_event
  | ReceiverDropped
  | ConnectionLost

fun serve_event :: "sq_env \<Rightarrow> sq_event \<Rightarrow> server_connection \<Rightarrow> server_connection" where
  "serve_event env (BiStream woken w r) c = snd (handle_bi_stream env woken c w r)"
| "serve_event env (UniStream woken r) c = snd (handle_uni_stream woken c r)"
| "serve_event env (Datagram woken d) c = snd (handle_datagram woken c d)"
| "serve_event env (PlaneStep ev) c = c\<lparr>sc_plane := plane_step (env_link env) ev (sc_plane c)\<rparr>"
| "serve_event env ReceiverDropped c = c\<lparr>sc_app_gone := True\<rparr>"
| "serve_event env ConnectionLost c = c\<lparr>sc_plane := plane_close (sc_plane c)\<rparr>"


section \<open>What happens behind the gate\<close>

definition serve_run :: "sq_env \<Rightarrow> sq_event list \<Rightarrow> server_connection \<Rightarrow> server_connection" where
  "serve_run env evs c = fold (serve_event env) evs c"

text \<open>An event that presents a credential of the user table: an authentication stream with it.\<close>

definition authenticates :: "(bytes \<rightharpoonup> string) \<Rightarrow> sq_event \<Rightarrow> string \<Rightarrow> bool" where
  "authenticates users ev u \<longleftrightarrow> (\<exists>woken w r credential rest. ev = BiStream woken w r \<and>
     pending r = SQ_AUTHENTICATE # credential @ rest \<and> length credential = 64 \<and> users credential = Some u)"

definition untouched :: "server_connection \<Rightarrow> bool" where
  "untouched c \<longleftrightarrow> sc_accepted c = [] \<and> sc_plane c \<in> {plane_new, plane_close plane_new}"

definition gate_inv :: "(bytes \<rightharpoonup> string) \<Rightarrow> string set \<Rightarrow> server_connection \<Rightarrow> bool" where
  "gate_inv users A c \<longleftrightarrow>
     sc_auth c = SunnyAuth users \<and> sc_user c = [] \<and>
     (\<forall>u. sc_verdict c = Some (Inr u) \<longrightarrow> u \<in> A) \<and>
     (\<forall>a \<in> set (sc_accepted c). accepted_user a \<in> A) \<and>
     (A = {} \<longrightarrow> untouched c)"

lemma gate_inv_mono: "gate_inv users A c \<Longrightarrow> A \<subseteq> B \<Longrightarrow> gate_inv users B c"
  by (auto simp: gate_inv_def)

lemma gate_passed:
  assumes "gate_inv users A c" "wait_for_sunny_auth (sc_auth c) (sc_verdict c) w = Some (Inr u)"
  shows "u \<in> A" "request_user c u = u"
  using assms by (auto simp: gate_inv_def wait_for_sunny_auth_def request_user_def
      split: option.splits sum.splits auth_wake.splits)

lemma handle_authenticate_gate:
  assumes "gate_inv users A c" "\<And>credential rest u. pending r = credential @ rest \<Longrightarrow> length credential = 64 \<Longrightarrow>
    users credential = Some u \<Longrightarrow> u \<in> A"
  shows "gate_inv users A (snd (handle_authenticate c r))"
  using assms(1) assms(2) [of "take 64 (pending r)" "drop 64 (pending r)"]
  by (auto simp: handle_authenticate_def gate_inv_def untouched_def quic_read_exact_def split: option.splits)

text \<open>Past the gate a handler may do anything but change the verdict or accept for another user.\<close>

lemma gate_inv_behind:
  assumes "gate_inv users A c" "u \<in> A" "sc_auth d = sc_auth c" "sc_user d = sc_user c" "sc_verdict d = sc_verdict c"
    "\<forall>a \<in> set (sc_accepted d). a \<in> set (sc_accepted c) \<or> accepted_user a = u"
  shows "gate_inv users A d"
  using assms by (auto simp: gate_inv_def)

lemma gated_handler:
  assumes "gate_inv users A c"
    "h = (case wait_for_sunny_auth (sc_auth c) (sc_verdict c) w of
        None \<Rightarrow> (Waiting, c) | Some (Inl e) \<Rightarrow> (Ended (Inl e), c) | Some (Inr u) \<Rightarrow> f u)"
    "\<And>u. u \<in> A \<Longrightarrow> request_user c u = u \<Longrightarrow> gate_inv users A (snd (f u))"
  shows "gate_inv users A (snd h)"
  using assms(1,3) gate_passed [OF assms(1), of w] unfolding assms(2) by (auto split: option.splits sum.splits)

lemma send_accepted_behind:
  assumes "send_accepted a c = Inr d" "gate_inv users A c" "accepted_user a \<in> A"
  shows "gate_inv users A d" "gate_inv users A (d\<lparr>sc_plane := pl\<rparr>)"
  using assms(1) by (auto simp: send_accepted_def split: if_splits intro: gate_inv_behind [OF assms(2,3)])

lemma handle_connect_gate:
  assumes "gate_inv users A c"
  shows "gate_inv users A (snd (handle_connect woken c w r))"
  unfolding handle_connect_def
  by (rule gated_handler [OF assms refl])
    (use assms in \<open>auto intro: send_accepted_behind(1) [OF _ assms] split: sum.splits prod.splits\<close>)

lemma handle_associate_gate:
  assumes "gate_inv users A c"
  shows "gate_inv users A (snd (handle_associate mode woken c w r))"
  unfolding handle_associate_def
  by (rule gated_handler [OF assms refl])
    (use assms in \<open>auto intro: send_accepted_behind(2) [OF _ assms] split: sum.splits prod.splits\<close>)

lemma handle_datagram_gate:
  assumes "gate_inv users A c"
  shows "gate_inv users A (snd (handle_datagram woken c d))"
  unfolding handle_datagram_def
  by (rule gated_handler [OF assms refl]) (auto intro: gate_inv_behind [OF assms])

lemma handle_uni_stream_gate:
  assumes "gate_inv users A c"
  shows "gate_inv users A (snd (handle_uni_stream woken c r))"
  unfolding handle_uni_stream_def
  by (rule gated_handler [OF assms refl]) (auto intro: gate_inv_behind [OF assms])

lemma handle_bi_stream_gate:
  assumes "gate_inv users A c"
  shows "gate_inv users (A \<union> {u. authenticates users (BiStream woken w r) u}) (snd (handle_bi_stream env woken c w r))"
proof (cases "quic_read_exact 1 r")
  case (Inl e)
  then show ?thesis
    using gate_inv_mono [OF assms] by (simp add: handle_bi_stream_def)
next
  case (Inr p)
  obtain ks r1 where p: "p = (ks, r1)" by (cases p)
  then have r: "pending r = hd ks # pending r1"
    using quic_read_exact_pending [of 1 r ks r1] Inr by (cases ks) auto
  let ?A = "A \<union> {u. authenticates users (BiStream woken w r) u}"
  have A: "gate_inv users ?A c"
    using gate_inv_mono [OF assms] by simp
  have "gate_inv users ?A (snd (handle_authenticate c r1))" if "hd ks = SQ_AUTHENTICATE"
    using that by (intro handle_authenticate_gate [OF A]) (auto simp: authenticates_def r)
  then show ?thesis
    using A Inr p by (auto simp: handle_bi_stream_def Let_def handle_connect_gate handle_associate_gate
        split: option.splits sum.splits)
qed

text \<open>Before anything is set up the tasks and the application have nothing to act on.\<close>

lemma plane_step_nothing: "p \<in> {plane_new, plane_close plane_new} \<Longrightarrow> plane_step link ev p = p"
  by (cases ev) (auto simp: plane_new_def plane_close_def plane_recv_def)

lemma serve_event_gate:
  assumes "gate_inv users A c"
  shows "gate_inv users (A \<union> {u. authenticates users ev u}) (serve_event env ev c)"
proof -
  have A: "gate_inv users (A \<union> X) c" for X
    using gate_inv_mono [OF assms] by simp
  show ?thesis
  proof (cases ev)
    case (BiStream woken w r)
    then show ?thesis using handle_bi_stream_gate [OF assms] by simp
  next
    case (UniStream woken r)
    then show ?thesis using handle_uni_stream_gate [OF A] by simp
  next
    case (Datagram woken d)
    then show ?thesis using handle_datagram_gate [OF A] by simp
  next
    case (PlaneStep pe)
    then show ?thesis
      using A [of "{u. authenticates users ev u}"] plane_step_nothing by (auto simp: gate_inv_def untouched_def)
  next
    case ReceiverDropped
    then show ?thesis
      using A [of "{u. authenticates users ev u}"] by (auto simp: gate_inv_def untouched_def)
  next
    case ConnectionLost
    then show ?thesis
      using A [of "{u. authenticates users ev u}"]
      by (auto simp: gate_inv_def untouched_def plane_close_def registry_close_def)
  qed
qed

lemma serve_run_gate:
  "gate_inv users A c \<Longrightarrow>
   gate_inv users (A \<union> {u. \<exists>ev \<in> set evs. authenticates users ev u}) (serve_run env evs c)"
proof (induction evs arbitrary: A c)
  case Nil
  then show ?case by (simp add: serve_run_def)
next
  case (Cons ev evs)
  have "gate_inv users ((A \<union> {u. authenticates users ev u}) \<union> {u. \<exists>ev \<in> set evs. authenticates users ev u})
      (serve_run env evs (serve_event env ev c))"
    by (rule Cons.IH [OF serve_event_gate [OF Cons.prems]])
  moreover have "(A \<union> {u. authenticates users ev u}) \<union> {u. \<exists>ev \<in> set evs. authenticates users ev u} =
      A \<union> {u. \<exists>e \<in> set (ev # evs). authenticates users e u}"
    by auto
  ultimately show ?case
    by (simp add: serve_run_def)
qed


section \<open>Credentials\<close>

text \<open>The user table, for pairwise different credentials, is the table one expects.\<close>

definition credential_of :: "(bytes \<Rightarrow> bytes) \<Rightarrow> user \<Rightarrow> bytes" where
  "credential_of sha256 u = sunny_credential sha256 (user_name u) (user_password u)"

lemma length_sunny_credential: "length (sha256 (as_bytes (n @ '':'' @ p))) = 32 \<Longrightarrow> length (sunny_credential sha256 n p) = 64"
  by (simp add: sunny_credential_def Let_def)

lemma sunny_users_step:
  "sunny_users sha256 (us @ [u]) = (sunny_users sha256 us)(credential_of sha256 u \<mapsto> user_name u)"
  by (simp add: sunny_users_def credential_of_def)

lemma sunny_users_sound: "sunny_users sha256 us c = Some n \<Longrightarrow> \<exists>u \<in> set us. credential_of sha256 u = c \<and> user_name u = n"
proof (induction us rule: rev_induct)
  case Nil
  then show ?case by (simp add: sunny_users_def)
next
  case (snoc u us)
  then show ?case by (auto simp: sunny_users_step split: if_splits)
qed

lemma sunny_users_complete:
  "distinct (map (credential_of sha256) us) \<Longrightarrow> u \<in> set us \<Longrightarrow>
   sunny_users sha256 us (credential_of sha256 u) = Some (user_name u)"
proof (induction us rule: rev_induct)
  case (snoc v us)
  then show ?case by (auto simp: sunny_users_step rev_image_eqI)
qed simp


lemma jls_accepts:
  assumes "sc_auth c = JlsAuth" "\<forall>a \<in> set (sc_accepted c). accepted_user a = sc_user c"
  shows "sc_auth (serve_event env ev c) = JlsAuth \<and> sc_user (serve_event env ev c) = sc_user c \<and>
    (\<forall>a \<in> set (sc_accepted (serve_event env ev c)). accepted_user a = sc_user c)"
  using assms
  by (cases ev) (auto simp: handle_bi_stream_def handle_authenticate_def handle_connect_def handle_associate_def
      handle_datagram_def handle_uni_stream_def send_accepted_def wait_for_sunny_auth_def request_user_def Let_def
      split: sum.splits option.splits prod.splits if_splits)

lemma jls_run_accepts:
  "sc_auth c = JlsAuth \<Longrightarrow> \<forall>a \<in> set (sc_accepted c). accepted_user a = sc_user c \<Longrightarrow>
   \<forall>a \<in> set (sc_accepted (serve_run env evs c)). accepted_user a = sc_user c"
proof (induction evs arbitrary: c)
  case (Cons ev evs)
  from Cons.IH [of "serve_event env ev c"] jls_accepts [OF Cons.prems] show ?case
    by (simp add: serve_run_def)
qed (simp add: serve_run_def)


section \<open>Properties\<close>

text \<open>
  (C2) Nothing behind the gate happens for an unauthenticated SunnyQUIC peer, whatever it sends in
  whatever order: every accepted stream and packet association carries the name of a user whose
  credential was presented on the connection, and as long as none was, nothing is accepted and the UDP
  state is the initial one (or its closed version): no association, route, channel or task exists.
\<close>

theorem sunny_gate:
  assumes "serve_start source (SunnyAuth users) hs cc = Inr (c0, rate)" "c = serve_run env evs c0"
  shows "(\<forall>a \<in> set (sc_accepted c). \<exists>ev \<in> set evs. authenticates users ev (accepted_user a)) \<and>
    ((\<forall>ev \<in> set evs. \<forall>u. \<not> authenticates users ev u) \<longrightarrow>
       sc_accepted c = [] \<and> sc_plane c \<in> {plane_new, plane_close plane_new})"
proof -
  have "gate_inv users {} c0"
    using assms(1) by (auto simp: serve_start_def connection_user_def gate_inv_def untouched_def result_iffs)
  from serve_run_gate [OF this, of evs env]
  have "gate_inv users {u. \<exists>ev \<in> set evs. authenticates users ev u} c"
    unfolding assms(2) by simp
  then show ?thesis
    by (auto simp: gate_inv_def untouched_def)
qed

definition demo_env :: sq_env where
  "demo_env = \<lparr>env_rtt_ms = (\<lambda>_. replicate 8 0),
     env_stats = \<lparr>lost_packets = 0, sent_packets = 0, rtt_ns = 0, stats_mtu = 1200\<rparr>, env_finish = None,
     env_link = \<lparr>link_datagram = (\<lambda>_ _. None), link_open_uni = (\<lambda>_. Inr fresh_writer)\<rparr>\<rparr>"

theorem sunny_gate_witness:
  "sc_accepted (serve_run demo_env
     [BiStream NoWake fresh_writer \<lparr>pending = [1, 1, 127, 0, 0, 1, 0, 80], ending = Finished\<rparr>]
     (fst (projr (serve_start \<lparr>ip = V4 0, sport = 1\<rparr> (SunnyAuth [replicate 64 1 \<mapsto> ''bob'']) None (Some Bbr))))) = []"
proof -
  have start: "serve_start \<lparr>ip = V4 0, sport = 1\<rparr> (SunnyAuth [replicate 64 1 \<mapsto> ''bob'']) None (Some Bbr) =
      Inr (fst (projr (serve_start \<lparr>ip = V4 0, sport = 1\<rparr> (SunnyAuth [replicate 64 1 \<mapsto> ''bob'']) None (Some Bbr))), 0)"
    by (simp add: serve_start_def connection_user_def)
  have "\<not> authenticates [replicate 64 1 \<mapsto> ''bob''] (BiStream NoWake fresh_writer \<lparr>pending = [1, 1, 127, 0, 0, 1, 0, 80], ending = Finished\<rparr>) u" for u
    by (auto simp: authenticates_def SQ_AUTHENTICATE_def)
  with sunny_gate [OF start refl, where evs = "[BiStream NoWake fresh_writer \<lparr>pending = [1, 1, 127, 0, 0, 1, 0, 80], ending = Finished\<rparr>]"]
  show ?thesis by simp
qed

text \<open>
  Logging in works: the credential stream of a listed user (credentials pairwise different, a
  32-byte hash) sets the verdict to that user's name and closes nothing, and the request that waited
  is then accepted under that name.
\<close>

lemma sunny_login_streams:
  assumes "\<forall>m. length (sha256 m) = 32" "distinct (map (credential_of sha256) us)" "u \<in> set us"
    "sc_auth c = SunnyAuth (sunny_users sha256 us)" "\<not> sc_app_gone c" "encode_connect dest = Inr bs" "user_name u \<noteq> []"
  shows "\<exists>c1. handle_bi_stream env woken c w
      \<lparr>pending = SQ_AUTHENTICATE # sunny_credential sha256 (user_name u) (user_password u), ending = e\<rparr> = (Ended (Inr ()), c1) \<and>
    sc_close c1 = sc_close c \<and>
    handle_bi_stream env woken' c1 w' \<lparr>pending = bs @ rest, ending = e'\<rparr> =
      (Ended (Inr ()), c1\<lparr>sc_accepted := sc_accepted c1 @
         [AcceptedStream (canonical dest) (user_name u) (sc_source c) \<lparr>pending = rest, ending = e'\<rparr> w']\<rparr>)"
proof -
  let ?cred = "sunny_credential sha256 (user_name u) (user_password u)"
  have len: "length ?cred = 64"
    using length_sunny_credential assms(1) by blast
  have lookup: "sunny_users sha256 us ?cred = Some (user_name u)"
    using sunny_users_complete [OF assms(2,3)] by (simp add: credential_of_def)
  let ?c1 = "c\<lparr>sc_verdict := Some (Inr (user_name u))\<rparr>"
  have read: "quic_read_exact 64 \<lparr>pending = ?cred, ending = e\<rparr> = Inr (?cred, \<lparr>pending = [], ending = e\<rparr>)"
    using quic_read_exact_append [OF len, of "[]"] by simp
  obtain as where as: "encode_address dest = Inr as" "bs = SQ_CONNECT # as"
    using assms(6) by (auto simp: encode_connect_def result_iffs)
  have "handle_bi_stream env woken c w \<lparr>pending = SQ_AUTHENTICATE # ?cred, ending = e\<rparr> = (Ended (Inr ()), ?c1)"
    using assms(4) lookup by (simp add: handle_bi_stream_def handle_authenticate_def read)
  moreover have "handle_bi_stream env woken' ?c1 w' \<lparr>pending = bs @ rest, ending = e'\<rparr> =
      (Ended (Inr ()), ?c1\<lparr>sc_accepted := sc_accepted ?c1 @
         [AcceptedStream (canonical dest) (user_name u) (sc_source c) \<lparr>pending = rest, ending = e'\<rparr> w']\<rparr>)"
    using assms(4,5,7) decode_encoded_address [OF as(1), of rest e']
    by (simp add: as(2) handle_bi_stream_def sq_codes handle_connect_def wait_for_sunny_auth_def request_user_def send_accepted_def)
  ultimately show ?thesis by (intro exI [of _ ?c1]) simp
qed

text \<open>
  A wrong credential closes the connection with code 263, and from then on every handler that needs
  the verdict fails; nothing is accepted by it.
\<close>

lemma sunny_rejects:
  assumes "sc_auth c = SunnyAuth users" "length cred = 64" "users cred = None"
  shows "\<exists>c1. handle_bi_stream env woken c w \<lparr>pending = SQ_AUTHENTICATE # cred @ rest, ending = e\<rparr> =
      (Ended (Inl (Protocol ''SunnyQUIC authentication failed'')), c1) \<and>
    sc_close c1 = Some 263 \<and> sc_accepted c1 = sc_accepted c \<and>
    (\<forall>woken w r. handle_connect woken c1 w r = (Ended (Inl (Protocol ''invalid SunnyQUIC credentials'')), c1) \<and>
       (\<forall>m. handle_associate m woken c1 w r = (Ended (Inl (Protocol ''invalid SunnyQUIC credentials'')), c1)) \<and>
       handle_uni_stream woken c1 r = (Ended (Inl (Protocol ''invalid SunnyQUIC credentials'')), c1))"
  using assms quic_read_exact_append [OF assms(2), of rest e]
  by (simp add: handle_bi_stream_def handle_authenticate_def handle_connect_def handle_associate_def
      handle_uni_stream_def wait_for_sunny_auth_def SUNNY_AUTH_ERROR_CODE_def)

text \<open>
  (C17) A ShadowQUIC connection is only served after the TLS layer reported JLS authentication, and
  everything accepted on it carries the JLS user; an authentication stream cannot change that.
\<close>

theorem jls_gate:
  assumes "serve_start source JlsAuth hs cc = Inr (c0, rate)"
  shows "\<exists>d. hs = Some (Some d) \<and> jls_authenticated d = Some True \<and>
    (\<forall>evs. \<forall>a \<in> set (sc_accepted (serve_run env evs c0)).
       accepted_user a = (case jls_user d of None \<Rightarrow> [] | Some u \<Rightarrow> u))"
proof -
  obtain d where d: "hs = Some (Some d)" "jls_authenticated d = Some True"
    "sc_user c0 = (case jls_user d of None \<Rightarrow> [] | Some u \<Rightarrow> u)" "sc_auth c0 = JlsAuth" "sc_accepted c0 = []"
    using assms by (auto simp: serve_start_def connection_user_def result_iffs split: option.splits if_splits)
  then show ?thesis
    using jls_run_accepts [of c0] by auto
qed

theorem jls_gate_witness:
  "\<exists>c0. serve_start \<lparr>ip = V4 0, sport = 1\<rparr> JlsAuth (Some (Some \<lparr>jls_authenticated = Some True, jls_user = Some ''bob''\<rparr>)) (Some Bbr) = Inr (c0, 0) \<and>
     (\<forall>evs. \<forall>a \<in> set (sc_accepted (serve_run demo_env evs c0)).
        accepted_user a = ''bob'')"
proof -
  obtain c0 where c0: "serve_start \<lparr>ip = V4 0, sport = 1\<rparr> JlsAuth (Some (Some \<lparr>jls_authenticated = Some True, jls_user = Some ''bob''\<rparr>)) (Some Bbr) = Inr (c0, 0)"
    by (simp add: serve_start_def connection_user_def)
  from jls_gate [OF c0] c0 show ?thesis by fastforce
qed

text \<open>
  A failed update of a SunnyQUIC server changes nothing. A failed update of a ShadowQUIC server does:
  the old TLS configuration stays but new connections already get the new congestion control.
\<close>

theorem update_atomicity:
  assumes "build_server_config lib options = Inl e"
    "build_sunny_server_config lib (sunny_certificate_chain sunny) (sunny_private_key sunny) (sunny_zero_rtt sunny) = Inl e'"
  shows "update_sunny_config sha256 lib sunny s = (Inl e', s) \<and>
    update_config lib options s = (Inl e, s\<lparr>server_congestion := options_congestion options\<rparr>)"
  using assms by (simp add: update_sunny_config_def update_config_def)

end
