(* ===== verification/Squic_Endpoint.thy ===== *)
theory Squic_Endpoint
  imports Squic_Server Accept_Loop
begin

text \<open>
  The whole ShadowQUIC or SunnyQUIC server of \<open>src/src/shadowquic/mod.rs\<close>: the accept task of
  \<open>bind_inner\<close> with the configuration it reads for every connection, live updates, and \<open>Server::accept\<close>.
  The connections are those of \<open>Squic_Server\<close>.
\<close>


section \<open>The accept task\<close>

text \<open>An incoming connection, as the QUIC library reports it once the handshake is over.\<close>

record 'c sq_incoming =
  inc_error :: "connection_error option"
  inc_connection :: "'c cc_connection"
  inc_heap :: "'c cc_heap"
  inc_now :: nat
  inc_source :: socket_addr
  inc_handshake :: "handshake option option"

text \<open>What the spawned task does before the connection's loop, with the settings of the moment.\<close>

definition accept_connection ::
  "('c, 'r, 'p, 'm) controller_ops \<Rightarrow> squic_server \<Rightarrow> 'c sq_incoming \<Rightarrow> server_connection option" where
  "accept_connection ops s i = (case inc_error i of
       Some e \<Rightarrow> None
     | None \<Rightarrow>
         (case apply_congestion ops (inc_now i) (inc_connection i) (server_congestion s) (inc_heap i) of
            (Inl e, h) \<Rightarrow> None
          | (Inr _, h) \<Rightarrow>
              (case serve_start (inc_source i) (server_authentication s) (inc_handshake i) (connection_congestion_kind (inc_connection i) h) of
                 Inl e \<Rightarrow> None
               | Inr (c, send_rate) \<Rightarrow> Some c)))"

datatype 'c squic_server_event =
    SqIncoming "'c sq_incoming"
  | SqConnection nat sq_event
  | SqSend nat
  | SqAccept
  | SqUpdate tls_library server_options
  | SqUpdateSunny tls_library sunny_server_options
  | SqClose

type_synonym 'c squic_state = "(squic_server, 'c sq_incoming, sq_event, server_connection, accepted) accept_state"

fun squic_event ::
  "(bytes \<Rightarrow> bytes) \<Rightarrow> squic_server \<Rightarrow> 'c squic_server_event \<Rightarrow> (squic_server, 'c sq_incoming, sq_event) server_event" where
  "squic_event sha256 s (SqIncoming i) = Incoming i"
| "squic_event sha256 s (SqConnection n ev) = OnTask n ev"
| "squic_event sha256 s (SqSend n) = SendNext n"
| "squic_event sha256 s SqAccept = TakeNext"
| "squic_event sha256 s (SqUpdate lib options) = Reconfigure (snd (update_config lib options s))"
| "squic_event sha256 s (SqUpdateSunny lib options) = Reconfigure (snd (update_sunny_config sha256 lib options s))"
| "squic_event sha256 s SqClose = CloseServer"

definition connection_step ::
  "sq_env \<Rightarrow> squic_server \<Rightarrow> 'c sq_incoming \<Rightarrow> sq_event \<Rightarrow> server_connection \<Rightarrow> server_connection" where
  "connection_step env s i ev c = serve_event env ev c"

definition squic_step ::
  "(bytes \<Rightarrow> bytes) \<Rightarrow> ('c, 'r, 'p, 'm) controller_ops \<Rightarrow> sq_env \<Rightarrow> 'c squic_server_event \<Rightarrow> 'c squic_state \<Rightarrow> 'c squic_state" where
  "squic_step sha256 ops env ev s =
     server_step (accept_connection ops) (connection_step env) sc_accepted (squic_event sha256 (ac_config s) ev) s"

definition squic_run ::
  "(bytes \<Rightarrow> bytes) \<Rightarrow> ('c, 'r, 'p, 'm) controller_ops \<Rightarrow> sq_env \<Rightarrow> 'c squic_server_event list \<Rightarrow> 'c squic_state \<Rightarrow> 'c squic_state" where
  "squic_run sha256 ops env evs s = fold (squic_step sha256 ops env) evs s"


text \<open>\<open>accept\<close> and \<open>close\<close> of the SunnyQUIC wrapper (\<open>src/src/sunnyquic/mod.rs\<close>).\<close>

definition sunny_accept where
  "sunny_accept gone (s :: 'c squic_state) = server_accept gone s"

definition sunny_server_close where
  "sunny_server_close (s :: 'c squic_state) = server_close s"


section \<open>What a connection guarantees\<close>

text \<open>
  Whose requests a connection may accept: under SunnyQUIC the users whose credential was presented on it,
  judged by the user table it started with; under JLS the user of its handshake.
\<close>

definition squic_allowed :: "squic_server \<Rightarrow> 'c sq_incoming \<Rightarrow> sq_event list \<Rightarrow> accepted \<Rightarrow> bool" where
  "squic_allowed s i evs a = (case server_authentication s of
       SunnyAuth users \<Rightarrow> (\<exists>ev \<in> set evs. authenticates users ev (accepted_user a))
     | JlsAuth \<Rightarrow> (\<exists>d. inc_handshake i = Some (Some d) \<and> jls_authenticated d = Some True \<and>
         accepted_user a = (case jls_user d of None \<Rightarrow> [] | Some u \<Rightarrow> u)))"

lemma accept_connection_start:
  assumes "accept_connection ops s i = Some c"
  shows "\<exists>cc send_rate. serve_start (inc_source i) (server_authentication s) (inc_handshake i) cc = Inr (c, send_rate)"
  using assms by (auto simp: accept_connection_def split: option.splits prod.splits sum.splits)

lemma serve_start_sunny:
  "serve_start source (SunnyAuth users) hs cc = Inr (c, send_rate) \<Longrightarrow> gate_inv users {} c"
  by (auto simp: serve_start_def connection_user_def result_iffs gate_inv_def untouched_def)

lemma serve_start_jls:
  assumes "serve_start source JlsAuth hs cc = Inr (c, send_rate)"
  shows "sc_auth c = JlsAuth" "sc_accepted c = []"
    "\<exists>d. hs = Some (Some d) \<and> jls_authenticated d = Some True \<and> sc_user c = (case jls_user d of None \<Rightarrow> [] | Some u \<Rightarrow> u)"
  using assms by (auto simp: serve_start_def connection_user_def result_iffs split: option.splits if_splits)

definition grows :: "server_connection \<Rightarrow> server_connection \<Rightarrow> bool" where
  "grows c d \<longleftrightarrow> (\<exists>more. sc_accepted d = sc_accepted c @ more)"

lemma grows_same: "sc_accepted d = sc_accepted c \<Longrightarrow> grows c d"
  by (simp add: grows_def)

lemma handlers_grow:
  "grows c (snd (handle_authenticate c r))" "grows c (snd (handle_connect woken c w r))" "grows c (snd (handle_associate m woken c w r))"
  "grows c (snd (handle_datagram woken c d))" "grows c (snd (handle_uni_stream woken c r))"
  by (simp_all add: grows_def handle_authenticate_def handle_connect_def handle_associate_def handle_datagram_def
      handle_uni_stream_def send_accepted_def Let_def split: server_authentication.splits sum.splits option.splits prod.splits)

lemma serve_event_grows: "grows c (serve_event env ev c)"
  by (cases ev) (simp_all add: handle_bi_stream_def handlers_grow grows_same Let_def split: sum.splits option.splits prod.splits)

interpretation squic_service: connection_service "accept_connection ops" "connection_step env" sc_accepted squic_allowed
  for ops env
proof
  fix s i c a evs
  assume start: "accept_connection ops s i = Some c"
    and a: "a \<in> set (sc_accepted (fold (connection_step env s i) evs c))"
  have run: "fold (connection_step env s i) evs c = serve_run env evs c"
    by (simp add: serve_run_def connection_step_def [abs_def])
  obtain cc send_rate where c: "serve_start (inc_source i) (server_authentication s) (inc_handshake i) cc = Inr (c, send_rate)"
    using accept_connection_start [OF start] by blast
  show "squic_allowed s i evs a"
  proof (cases "server_authentication s")
    case JlsAuth
    then have "serve_start (inc_source i) JlsAuth (inc_handshake i) cc = Inr (c, send_rate)" using c by simp
    note jls = serve_start_jls [OF this]
    then show ?thesis
      using jls_run_accepts [OF jls(1), of env evs] a JlsAuth by (auto simp: run squic_allowed_def)
  next
    case (SunnyAuth users)
    then have "gate_inv users {} c" using c serve_start_sunny by simp
    from serve_run_gate [OF this, of evs env] show ?thesis
      using a SunnyAuth by (auto simp: run squic_allowed_def gate_inv_def)
  qed
next
  show "\<exists>more. sc_accepted (connection_step env s i ev c) = sc_accepted c @ more" for s i ev c
    using serve_event_grows by (simp add: connection_step_def grows_def)
qed

lemma squic_run_inv:
  "accept_inv (accept_connection ops) (connection_step env) sc_accepted s \<Longrightarrow>
   accept_inv (accept_connection ops) (connection_step env) sc_accepted (squic_run sha256 ops env evs s)"
  unfolding squic_run_def
  by (induction evs arbitrary: s) (simp_all add: squic_step_def squic_service.server_step_inv)

fun is_update :: "'c squic_server_event \<Rightarrow> bool" where
  "is_update (SqUpdate lib options) = True"
| "is_update (SqUpdateSunny lib options) = True"
| "is_update _ = False"

lemma squic_step_config: "\<not> is_update ev \<Longrightarrow> ac_config (squic_step sha256 ops env ev s) = ac_config s"
  by (cases ev) (simp_all add: squic_step_def server_step_config del: server_step.simps)

lemma squic_step_settings:
  "n < length (ac_tasks (squic_step sha256 ops env ev s)) \<Longrightarrow>
   task_config (ac_tasks (squic_step sha256 ops env ev s) ! n) =
     (if n < length (ac_tasks s) then task_config (ac_tasks s ! n) else ac_config s)"
  unfolding squic_step_def by (rule server_step_settings)

lemma squic_run_settings:
  assumes "\<forall>ev \<in> set evs. \<not> is_update ev"
  shows "length (ac_tasks s) \<le> length (ac_tasks (squic_run sha256 ops env evs s)) \<and>
    (\<forall>n < length (ac_tasks (squic_run sha256 ops env evs s)).
       task_config (ac_tasks (squic_run sha256 ops env evs s) ! n) =
         (if n < length (ac_tasks s) then task_config (ac_tasks s ! n) else ac_config s))"
  using assms
proof (induction evs arbitrary: s)
  case Nil
  then show ?case by (simp add: squic_run_def)
next
  case (Cons ev evs)
  let ?s = "squic_step sha256 ops env ev s"
  have run: "squic_run sha256 ops env (ev # evs) s = squic_run sha256 ops env evs ?s"
    by (simp add: squic_run_def)
  have conf: "ac_config ?s = ac_config s" using Cons.prems squic_step_config [of ev sha256 ops env s] by simp
  have "length (ac_tasks s) \<le> length (ac_tasks ?s)" unfolding squic_step_def by (rule server_step_tasks)
  moreover from Cons.IH [of ?s] Cons.prems have
    "length (ac_tasks ?s) \<le> length (ac_tasks (squic_run sha256 ops env evs ?s)) \<and>
     (\<forall>n < length (ac_tasks (squic_run sha256 ops env evs ?s)).
       task_config (ac_tasks (squic_run sha256 ops env evs ?s) ! n) =
         (if n < length (ac_tasks ?s) then task_config (ac_tasks ?s ! n) else ac_config s))"
    by (simp add: conf)
  ultimately show ?case
    unfolding run using squic_step_settings [of _ sha256 ops env ev s] by auto
qed


section \<open>Properties\<close>

text \<open>
  (C5) Server-wide gate, across live updates: whatever the history of the server, after a successful
  update of the SunnyQUIC users everything that reaches the application from a connection that came
  in later carries the name of a user of the new table whose credential was presented on that
  connection. What comes from any connection, old ones included, is judged by the settings in force
  when it came in.
\<close>

theorem squic_server_gate:
  assumes "s1 = squic_run sha256 ops env evs1 (accept_init s0)"
    "update_sunny_config sha256 lib options (ac_config s1) = (Inr (), updated)"
    "s2 = squic_run sha256 ops env (SqUpdateSunny lib options # evs2) s1" "\<forall>ev \<in> set evs2. \<not> is_update ev"
    "(n, a) \<in> set (ac_taken s2 @ ac_queue s2)"
  shows "squic_allowed (task_config (ac_tasks s2 ! n)) (task_incoming (ac_tasks s2 ! n)) (task_events (ac_tasks s2 ! n)) a \<and>
    (length (ac_tasks s1) \<le> n \<longrightarrow>
       (\<exists>ev \<in> set (task_events (ac_tasks s2 ! n)).
          authenticates (sunny_users sha256 (sunny_user_list options)) ev (accepted_user a)))"
proof -
  let ?s = "s1\<lparr>ac_config := updated\<rparr>"
  have inv: "accept_inv (accept_connection ops) (connection_step env) sc_accepted s2"
    unfolding assms(1,3) by (intro squic_run_inv accept_inv_init)
  note delivered = squic_service.delivered_allowed [OF inv assms(5)]
  have "s2 = squic_run sha256 ops env evs2 ?s"
    using assms(2,3) by (simp add: squic_run_def squic_step_def)
  then have "length (ac_tasks s1) \<le> n \<Longrightarrow> task_config (ac_tasks s2 ! n) = updated"
    using squic_run_settings [OF assms(4), of ?s sha256 ops env] delivered by simp
  moreover have "server_authentication updated = SunnyAuth (sunny_users sha256 (sunny_user_list options))"
    using assms(2) by (auto simp: update_sunny_config_def set_server_config_def split: sum.splits)
  ultimately show ?thesis
    using delivered by (auto simp: squic_allowed_def)
qed

text \<open>A small server and a client of it: the user's credential stream, then a request.\<close>

definition demo_transport :: transport_config where
  "demo_transport = \<lparr>switchable_congestion = False, stream_receive_window = 1, config_receive_window = 1, config_send_window = 1,
     datagram_receive_buffer = None, datagram_send_buffer = 1, max_idle_timeout = None, keep_alive_interval = None,
     config_initial_mtu = 1200, config_min_mtu = 1200, mtu_discovery = True, max_bidi_streams = 100, max_uni_streams = 100\<rparr>"

definition demo_server :: squic_server where
  "demo_server = \<lparr>server_endpoint = \<lparr>endpoint_bound = \<lparr>ip = V4 0, sport = 443\<rparr>, endpoint_server = None, endpoint_client = None,
     endpoint_open = True\<rparr>, server_congestion = BbrConfig, server_authentication = JlsAuth\<rparr>"

definition demo_update :: sunny_server_options where
  "demo_update = \<lparr>sunny_listen = \<lparr>ip = V4 0, sport = 443\<rparr>, sunny_user_list = [\<lparr>user_name = ''bob'', user_password = ''x''\<rparr>],
     sunny_certificate_chain = [], sunny_private_key = [], sunny_congestion = BbrConfig, sunny_zero_rtt = False\<rparr>"

definition demo_incoming :: "(congestion_kind \<times> u16) sq_incoming" where
  "demo_incoming = \<lparr>inc_error = None, inc_connection = \<lparr>cc_controller = Switchable 0, cc_rtt = 1\<rparr>,
     inc_heap = [0 \<mapsto> \<lparr>controller = (Bbr, 1200), kind = Bbr, current_mtu = 1200\<rparr>], inc_now = 0, inc_source = \<lparr>ip = V4 0, sport = 1\<rparr>, inc_handshake = None\<rparr>"

definition demo_sha :: "bytes \<Rightarrow> bytes" where
  "demo_sha m = replicate 32 7"

definition demo_events :: "(congestion_kind \<times> u16) squic_server_event list" where
  "demo_events = [SqIncoming demo_incoming,
     SqConnection 0 (BiStream NoWake fresh_writer \<lparr>pending = SQ_AUTHENTICATE # replicate 32 7 @ replicate 32 0, ending = Finished\<rparr>),
     SqConnection 0 (BiStream NoWake fresh_writer \<lparr>pending = [SQ_CONNECT, SQ_DOMAIN, 1, 97, 0, 80], ending = Finished\<rparr>), SqSend 0]"

text \<open>The state of the one connection, before and after its two streams.\<close>

definition demo_connection :: "(string + string) option \<Rightarrow> accepted list \<Rightarrow> server_connection" where
  "demo_connection verdict items =
     \<lparr>sc_source = \<lparr>ip = V4 0, sport = 1\<rparr>, sc_auth = SunnyAuth (sunny_users demo_sha (sunny_user_list demo_update)), sc_user = [], sc_verdict = verdict, sc_accepted = items,
      sc_app_gone = False, sc_plane = plane_new, sc_close = None\<rparr>"

lemma demo_accept:
  "server_congestion s = BbrConfig \<Longrightarrow> server_authentication s = SunnyAuth (sunny_users demo_sha (sunny_user_list demo_update)) \<Longrightarrow>
   accept_connection plain_ops s demo_incoming = Some (demo_connection None [])"
  by (simp add: accept_connection_def demo_incoming_def apply_congestion_def configure_connection_bbr_def congestion_state_def
      clone_box_def connection_congestion_kind_def with_state_def serve_start_def connection_user_def demo_connection_def set_bbr_def)

lemma demo_login:
  "serve_event env (BiStream NoWake fresh_writer \<lparr>pending = SQ_AUTHENTICATE # replicate 32 7 @ replicate 32 0, ending = Finished\<rparr>)
     (demo_connection None []) = demo_connection (Some (Inr ''bob'')) []"
proof -
  have "sunny_users demo_sha (sunny_user_list demo_update) (replicate 32 7 @ replicate 32 0) = Some ''bob''"
    by (simp add: sunny_users_def demo_update_def sunny_credential_def demo_sha_def Let_def)
  moreover have "quic_read_exact 64 \<lparr>pending = replicate 32 7 @ replicate 32 0, ending = Finished\<rparr> =
      Inr (replicate 32 7 @ replicate 32 0, \<lparr>pending = [], ending = Finished\<rparr>)"
    by (simp add: quic_read_exact_def)
  ultimately show ?thesis
    by (simp add: handle_bi_stream_def handle_authenticate_def demo_connection_def)
qed

lemma demo_decode: "decode_address \<lparr>pending = [SQ_DOMAIN, 1, 97, 0, 80], ending = Finished\<rparr> =
    Inr (\<lparr>host = ''a'', port = 80\<rparr>, \<lparr>pending = [], ending = Finished\<rparr>)"
  by code_simp

lemma demo_request:
  "serve_event env (BiStream NoWake fresh_writer \<lparr>pending = [SQ_CONNECT, SQ_DOMAIN, 1, 97, 0, 80], ending = Finished\<rparr>)
     (demo_connection (Some (Inr ''bob'')) []) =
   demo_connection (Some (Inr ''bob'')) [AcceptedStream \<lparr>host = ''a'', port = 80\<rparr> ''bob'' \<lparr>ip = V4 0, sport = 1\<rparr> \<lparr>pending = [], ending = Finished\<rparr> fresh_writer]"
  using demo_decode
  by (simp add: handle_bi_stream_def handle_connect_def demo_connection_def sq_codes wait_for_sunny_auth_def request_user_def send_accepted_def)

lemma demo_queue:
  assumes "server_congestion s = BbrConfig" "server_authentication s = SunnyAuth (sunny_users demo_sha (sunny_user_list demo_update))"
  shows "ac_queue (squic_run sha256 plain_ops env demo_events (accept_init s)) =
    [(0, AcceptedStream \<lparr>host = ''a'', port = 80\<rparr> ''bob'' \<lparr>ip = V4 0, sport = 1\<rparr> \<lparr>pending = [], ending = Finished\<rparr> fresh_writer)]"
  using demo_accept [OF assms] demo_login [of env] demo_request [of env]
  by (simp add: squic_run_def demo_events_def squic_step_def accept_init_def connection_step_def ACCEPT_CAPACITY_def Let_def
      demo_connection_def del: serve_event.simps)

theorem squic_server_gate_witness:
  "\<exists>ev \<in> set (task_events (ac_tasks (squic_run demo_sha plain_ops demo_env
      (SqUpdateSunny (plain_library demo_transport) demo_update # demo_events) (accept_init demo_server)) ! 0)).
     authenticates (sunny_users demo_sha (sunny_user_list demo_update)) ev ''bob''"
proof -
  let ?s0 = "accept_init demo_server :: (congestion_kind \<times> u16) squic_state"
  let ?s2 = "squic_run demo_sha plain_ops demo_env (SqUpdateSunny (plain_library demo_transport) demo_update # demo_events) ?s0"
  have s0: "?s0 = squic_run demo_sha plain_ops demo_env [] (accept_init demo_server)"
    by (simp add: squic_run_def)
  obtain updated where up: "update_sunny_config demo_sha (plain_library demo_transport) demo_update (ac_config ?s0) = (Inr (), updated)"
    "server_congestion updated = BbrConfig" "server_authentication updated = SunnyAuth (sunny_users demo_sha (sunny_user_list demo_update))"
    by (simp add: update_sunny_config_def build_sunny_server_config_def plain_library_def single_cert_def quic_server_crypto_def
        detect_private_key_def set_server_config_def demo_update_def)
  have no: "\<forall>ev \<in> set demo_events. \<not> is_update ev"
    by (simp add: demo_events_def)
  have "?s2 = squic_run demo_sha plain_ops demo_env demo_events (accept_init updated)"
    using up(1) by (simp add: squic_run_def squic_step_def accept_init_def)
  then have "ac_queue ?s2 = [(0, AcceptedStream \<lparr>host = ''a'', port = 80\<rparr> ''bob'' \<lparr>ip = V4 0, sport = 1\<rparr> \<lparr>pending = [], ending = Finished\<rparr> fresh_writer)]"
    by (simp only: demo_queue [OF up(2,3)])
  with squic_server_gate [OF s0 up(1) refl no, of 0 "AcceptedStream \<lparr>host = ''a'', port = 80\<rparr> ''bob'' \<lparr>ip = V4 0, sport = 1\<rparr> \<lparr>pending = [], ending = Finished\<rparr> fresh_writer"]
  show ?thesis by (simp add: accept_init_def)
qed

text \<open>
  (C33) The accept queue: in every state of the server at most 256 items wait; what the application has
  got and what waits from one connection is the beginning of what that connection accepted, in order,
  without loss or repetition; and a closed server takes no more connections.
\<close>

theorem squic_accept_queue:
  fixes evs :: "'c squic_server_event list"
  assumes "s = squic_run sha256 ops env evs (accept_init s0)"
  shows "length (ac_queue s) \<le> 256 \<and>
    (\<forall>n < length (ac_tasks s). \<exists>rest. items_of n (ac_taken s @ ac_queue s) @ rest = sc_accepted (task_conn (ac_tasks s ! n))) \<and>
    length (ac_tasks (squic_run sha256 ops env [SqClose, SqIncoming i] s)) = length (ac_tasks s)"
proof -
  have inv: "accept_inv (accept_connection ops) (connection_step env) sc_accepted s"
    unfolding assms(1) by (intro squic_run_inv accept_inv_init)
  have "\<exists>rest. items_of n (ac_taken s @ ac_queue s) @ rest = sc_accepted (task_conn (ac_tasks s ! n))"
    if "n < length (ac_tasks s)" for n
    using inv that append_take_drop_id unfolding accept_inv_def by metis
  with inv show ?thesis
    by (auto simp: accept_inv_def ACCEPT_CAPACITY_def squic_run_def squic_step_def server_close_def)
qed

theorem squic_accept_queue_witness:
  "length (ac_queue (squic_run demo_sha plain_ops demo_env demo_events (accept_init demo_server))) \<le> 256"
  using squic_accept_queue [OF refl, of demo_sha plain_ops demo_env demo_events demo_server demo_incoming] by blast

end
