(* ===== verification/Squic_Client.thy ===== *)
theory Squic_Client
  imports Squic_Server
begin

text \<open>
  The client side of \<open>src/src/shadowquic/mod.rs\<close> and the SunnyQUIC wrapper \<open>src/src/sunnyquic/mod.rs\<close>: the
  cached connection, its authentication, the requests, and the receiver of UDP traffic. What the QUIC
  library reports for a dialling attempt is a parameter.
\<close>


section \<open>The cached connection\<close>

datatype client_authentication = JlsClient | SunnyClient bytes

text \<open>
  One dialling attempt: the outcome of \<open>connect\<close> and of the handshake, the connection's congestion
  controller and the time of its configuration, the handshake data, the opening of the
  authentication stream and its finish.
\<close>

record 'c dial =
  dial_connect :: "string option"
  dial_handshake_error :: "connection_error option"
  dial_connection :: "'c cc_connection"
  dial_now :: nat
  dial_handshake_data :: "handshake option option"
  dial_open_bi :: "connection_error + writer"
  dial_finish :: "string option"

text \<open>
  The task of \<open>spawn_client_udp_receiver\<close>: not started, waiting for a datagram or a stream, handling a
  datagram to its end, or stopped.
\<close>

datatype udp_receiver = NoReceiver | Idle | Busy udp_task | Stopped

record client_connection =
  cc_id :: nat
  cc_auth_stream :: bytes
  cc_receiver :: udp_receiver
  cc_plane :: udp_plane

text \<open>
  A client: connections live on while packet connections use them, so they are kept by their number;
  the cache holds the number of one. \<open>client_closed\<close> lists what the client closed itself, with the reason.
\<close>

record squic_client =
  client_endpoint_of :: endpoint
  client_server :: socket_addr
  client_server_name :: string
  client_congestion :: congestion_config
  client_authentication :: client_authentication
  client_connections :: "nat \<rightharpoonup> client_connection"
  client_cached :: "nat option"
  client_dials :: nat
  client_closed :: "(nat \<times> string) list"

definition client_from_endpoint ::
  "endpoint \<Rightarrow> socket_addr \<Rightarrow> string \<Rightarrow> congestion_config \<Rightarrow> client_authentication \<Rightarrow> squic_client" where
  "client_from_endpoint ep server server_name congestion auth =
     \<lparr>client_endpoint_of = ep, client_server = server, client_server_name = server_name, client_congestion = congestion,
      client_authentication = auth, client_connections = Map.empty, client_cached = None, client_dials = 0, client_closed = []\<rparr>"

definition client_new :: "tls_library \<Rightarrow> os_calls \<Rightarrow> client_options \<Rightarrow> squic_client result \<times> socket_trace" where
  "client_new lib os options = (case client_endpoint os (co_server options) (jls_client_config lib options) of
       (Inl e, trace) \<Rightarrow> (Inl e, trace)
     | (Inr ep, trace) \<Rightarrow>
         (Inr (client_from_endpoint ep (co_server options) (co_server_name options) (co_congestion options) JlsClient), trace))"

definition client_new_sunny :: "tls_library \<Rightarrow> os_calls \<Rightarrow> sunny_client_options \<Rightarrow> squic_client result \<times> socket_trace" where
  "client_new_sunny lib os options = (case client_endpoint os (sco_server options) (sunny_client_config lib options) of
       (Inl e, trace) \<Rightarrow> (Inl e, trace)
     | (Inr ep, trace) \<Rightarrow>
         (Inr (client_from_endpoint ep (sco_server options) (sco_server_name options) (sco_congestion options)
                (SunnyClient (sco_credential options))), trace))"

text \<open>
  Authentication after the handshake: the bytes written on the authentication stream, or an error and
  the reason with which the connection was closed, if it was.
\<close>

definition client_authenticate :: "client_authentication \<Rightarrow> 'c dial \<Rightarrow> bytes result \<times> string option" where
  "client_authenticate auth d = (case auth of
       JlsClient \<Rightarrow>
         (case dial_handshake_data d of
            Some (Some hs) \<Rightarrow>
              if jls_authenticated hs \<noteq> Some True
              then (Inl JlsAuthenticationFailed, Some ''JLS authentication failed'') else (Inr [], None)
          | _ \<Rightarrow> (Inr [], None))
     | SunnyClient credential \<Rightarrow>
         (bindR (map_errR Connection (dial_open_bi d)) (\<lambda>w.
          bindR (quic_write_all [SQ_AUTHENTICATE] w) (\<lambda>w.
          bindR (quic_write_all credential w) (\<lambda>w.
            case dial_finish d of None \<Rightarrow> Inr (written w) | Some e \<Rightarrow> Inl (Protocol e)))), None))"

definition dial_server ::
  "('c, 'r, 'p, 'm) controller_ops \<Rightarrow> client_authentication \<Rightarrow> congestion_config \<Rightarrow> nat \<Rightarrow> 'c dial \<Rightarrow> 'c cc_heap \<Rightarrow>
   client_connection result \<times> string option \<times> 'c cc_heap" where
  "dial_server ops auth congestion n d h =
     (case dial_connect d of
        Some e \<Rightarrow> (Inl (Connect e), None, h)
      | None \<Rightarrow>
          (case dial_handshake_error d of
             Some e \<Rightarrow> (Inl (Connection e), None, h)
           | None \<Rightarrow>
               (case apply_congestion ops (dial_now d) (dial_connection d) congestion h of
                  (Inl e, h) \<Rightarrow> (Inl e, None, h)
                | (Inr _, h) \<Rightarrow>
                    (case client_authenticate auth d of
                       (Inl e, reason) \<Rightarrow> (Inl e, reason, h)
                     | (Inr bs, _) \<Rightarrow>
                         (Inr \<lparr>cc_id = n, cc_auth_stream = bs,
                               cc_receiver = (case auth of SunnyClient _ \<Rightarrow> Idle | JlsClient \<Rightarrow> NoReceiver),
                               cc_plane = plane_new\<rparr>, None, h)))))"

text \<open>\<open>alive\<close> tells whether a connection has no close reason. The result is the connection's number.\<close>

definition connection_state ::
  "('c, 'r, 'p, 'm) controller_ops \<Rightarrow> (nat \<Rightarrow> bool) \<Rightarrow> (nat \<Rightarrow> 'c dial) \<Rightarrow> squic_client \<Rightarrow> 'c cc_heap \<Rightarrow>
   nat result \<times> squic_client \<times> 'c cc_heap" where
  "connection_state ops alive dials c h =
     (case (case client_cached c of Some n \<Rightarrow> if alive n then Some n else None | None \<Rightarrow> None) of
        Some n \<Rightarrow> (Inr n, c, h)
      | None \<Rightarrow>
          (let n = client_dials c; c = c\<lparr>client_dials := n + 1\<rparr>
           in case dial_server ops (client_authentication c) (client_congestion c) n (dials n) h of
                (Inl e, reason, h) \<Rightarrow>
                  (Inl e, c\<lparr>client_closed := client_closed c @ (case reason of None \<Rightarrow> [] | Some m \<Rightarrow> [(n, m)])\<rparr>, h)
              | (Inr k, _, h) \<Rightarrow>
                  (Inr n, c\<lparr>client_connections := (client_connections c)(n \<mapsto> k), client_cached := Some n\<rparr>, h)))"


section \<open>Requests\<close>

text \<open>\<open>connect\<close>: the two halves of the request stream, the request written on the sending one.\<close>

definition client_connect ::
  "('c, 'r, 'p, 'm) controller_ops \<Rightarrow> (nat \<Rightarrow> bool) \<Rightarrow> (nat \<Rightarrow> 'c dial) \<Rightarrow> connection_error + (writer \<times> reader) \<Rightarrow> address \<Rightarrow>
   squic_client \<Rightarrow> 'c cc_heap \<Rightarrow> (writer \<times> reader) result \<times> squic_client \<times> 'c cc_heap" where
  "client_connect ops alive dials open_bi dest c h = (case connection_state ops alive dials c h of
       (Inl e, c, h) \<Rightarrow> (Inl e, c, h)
     | (Inr n, c, h) \<Rightarrow>
         (bindR (map_errR Connection open_bi) (\<lambda>(w, r).
          bindR (encode_connect dest) (\<lambda>request.
          bindR (quic_write_all request w) (\<lambda>w. Inr (w, r)))), c, h))"

text \<open>
  \<open>associate\<close>: the request is written, then the packet connection is made on the connection's UDP state
  and the task on the receiving half started. The result: the numbers of connection and packet
  connection.
\<close>

definition client_associate ::
  "('c, 'r, 'p, 'm) controller_ops \<Rightarrow> (nat \<Rightarrow> bool) \<Rightarrow> (nat \<Rightarrow> 'c dial) \<Rightarrow> connection_error + (writer \<times> reader) \<Rightarrow> address \<Rightarrow> bool \<Rightarrow>
   squic_client \<Rightarrow> 'c cc_heap \<Rightarrow> (nat \<times> nat) result \<times> squic_client \<times> 'c cc_heap" where
  "client_associate ops alive dials open_bi dest over_stream c h = (case connection_state ops alive dials c h of
       (Inl e, c, h) \<Rightarrow> (Inl e, c, h)
     | (Inr n, c, h) \<Rightarrow>
         (case
            bindR (map_errR Connection open_bi) (\<lambda>(w, r).
            bindR (quic_write_all [if over_stream then SQ_ASSOCIATE_OVER_STREAM else SQ_ASSOCIATE_OVER_DATAGRAM] w) (\<lambda>w.
            bindR (encode_address dest) (\<lambda>addr.
            bindR (quic_write_all addr w) (\<lambda>w. Inr (w, r))))) of
          Inl e \<Rightarrow> (Inl e, c, h)
        | Inr (w, r) \<Rightarrow>
            (case client_connections c n of
               None \<Rightarrow> (Inl Closed, c, h)
             | Some k \<Rightarrow>
                 (Inr (n, length (uc_senders (up_out (cc_plane k)))),
                  c\<lparr>client_connections := (client_connections c)(n \<mapsto>
                      k\<lparr>cc_plane := plane_associate (if over_stream then StreamMode else DatagramMode) w r (cc_plane k)\<rparr>)\<rparr>, h))))"


section \<open>Receiving UDP\<close>

text \<open>
  \<open>spawn_client_udp_receiver\<close>: a loop that takes a datagram or a stream from the connection. A datagram is
  handled to its end before the loop goes on; a stream gets its own task; an error stops the loop.
  The other events are what \<open>associate\<close> adds and the steps of the connection's UDP state.
\<close>

datatype client_event =
    ReadDatagram "connection_error + bytes"
  | AcceptUni "connection_error + reader"
  | ReceiverStep
  | Associated udp_mode writer reader
  | ClientStep plane_event

definition receiver_step :: "client_connection \<Rightarrow> client_connection" where
  "receiver_step k = (case cc_receiver k of
       Busy t \<Rightarrow>
         (case task_step (up_registry (cc_plane k)) t (up_queues (cc_plane k)) of
            (t, q) \<Rightarrow> k\<lparr>cc_receiver := (case t of TaskEnded _ \<Rightarrow> Idle | _ \<Rightarrow> Busy t), cc_plane := (cc_plane k)\<lparr>up_queues := q\<rparr>\<rparr>)
     | _ \<Rightarrow> k)"

fun client_step :: "squic_link \<Rightarrow> client_event \<Rightarrow> client_connection \<Rightarrow> client_connection" where
  "client_step link (ReadDatagram x) k =
     (if cc_receiver k \<noteq> Idle then k
      else k\<lparr>cc_receiver := (case x of Inl e \<Rightarrow> Stopped | Inr d \<Rightarrow> Busy (datagram_task d))\<rparr>)"
| "client_step link (AcceptUni x) k =
     (if cc_receiver k \<noteq> Idle then k
      else case x of Inl e \<Rightarrow> k\<lparr>cc_receiver := Stopped\<rparr> | Inr r \<Rightarrow> k\<lparr>cc_plane := plane_spawn (StreamOpened r) (cc_plane k)\<rparr>)"
| "client_step link ReceiverStep k = receiver_step k"
| "client_step link (Associated mode w r) k = k\<lparr>cc_plane := plane_associate mode w r (cc_plane k)\<rparr>"
| "client_step link (ClientStep ev) k = k\<lparr>cc_plane := plane_step link ev (cc_plane k)\<rparr>"

definition client_run :: "squic_link \<Rightarrow> client_event list \<Rightarrow> client_connection \<Rightarrow> client_connection" where
  "client_run link evs k = fold (client_step link) evs k"

definition client_on :: "squic_link \<Rightarrow> nat \<Rightarrow> client_event \<Rightarrow> squic_client \<Rightarrow> squic_client" where
  "client_on link n ev c =
     c\<lparr>client_connections := (client_connections c)(n := map_option (client_step link ev) (client_connections c n))\<rparr>"

definition client_local_addr :: "os_calls \<Rightarrow> squic_client \<Rightarrow> socket_addr result" where
  "client_local_addr os c = endpoint_local_addr os (client_endpoint_of c)"

definition client_congestion_kind :: "(nat \<Rightarrow> 'c cc_connection) \<Rightarrow> 'c cc_heap \<Rightarrow> squic_client \<Rightarrow> congestion_kind option" where
  "client_congestion_kind connections h c =
     Option.bind (client_cached c) (\<lambda>n. connection_congestion_kind (connections n) h)"

definition client_close :: "squic_client \<Rightarrow> squic_client" where
  "client_close c = c\<lparr>client_endpoint_of := endpoint_close (client_endpoint_of c)\<rparr>"


section \<open>SunnyQUIC\<close>

text \<open>Its options differ from the inner ones only in holding name and password.\<close>

record sunny_quic_client_options =
  sqc_server :: socket_addr
  sqc_server_name :: string
  sqc_username :: string
  sqc_password :: string
  sqc_ca_certificates :: "bytes list"
  sqc_congestion :: congestion_config
  sqc_zero_rtt :: bool

definition sunny_client ::
  "(bytes \<Rightarrow> bytes) \<Rightarrow> tls_library \<Rightarrow> os_calls \<Rightarrow> sunny_quic_client_options \<Rightarrow> squic_client result \<times> socket_trace" where
  "sunny_client sha256 lib os options =
     client_new_sunny lib os
       \<lparr>sco_server = sqc_server options, sco_server_name = sqc_server_name options,
        sco_credential = sunny_credential sha256 (sqc_username options) (sqc_password options),
        sco_ca_certificates = sqc_ca_certificates options, sco_congestion = sqc_congestion options,
        sco_zero_rtt = sqc_zero_rtt options\<rparr>"

text \<open>The other methods of the wrapper's client forward to the inner one.\<close>

definition sunny_connect where
  "sunny_connect ops alive dials open_bi dest c h = client_connect ops alive dials open_bi dest c h"

definition sunny_associate where
  "sunny_associate ops alive dials open_bi dest over_stream c h = client_associate ops alive dials open_bi dest over_stream c h"

definition sunny_congestion_kind where
  "sunny_congestion_kind c = client_congestion_kind c"

definition sunny_local_addr where
  "sunny_local_addr os c = client_local_addr os c"

definition sunny_close where
  "sunny_close c = client_close c"

record sunny_options =
  so_listen :: socket_addr
  so_users :: "user list"
  so_certificate_chain :: "bytes list"
  so_private_key :: bytes
  so_congestion :: congestion_config
  so_zero_rtt :: bool

definition inner_options :: "sunny_options \<Rightarrow> sunny_server_options" where
  "inner_options options =
     \<lparr>sunny_listen = so_listen options, sunny_user_list = so_users options,
      sunny_certificate_chain = so_certificate_chain options, sunny_private_key = so_private_key options,
      sunny_congestion = so_congestion options, sunny_zero_rtt = so_zero_rtt options\<rparr>"

record sunny_server =
  sunny_inner :: squic_server
  sunny_saved :: sunny_options

definition sunny_bind ::
  "(bytes \<Rightarrow> bytes) \<Rightarrow> tls_library \<Rightarrow> os_calls \<Rightarrow> sunny_options \<Rightarrow> sunny_server result \<times> socket_trace" where
  "sunny_bind sha256 lib os options = (case bind_sunny sha256 lib os (inner_options options) of
       (Inl e, trace) \<Rightarrow> (Inl e, trace)
     | (Inr inner, trace) \<Rightarrow> (Inr \<lparr>sunny_inner = inner, sunny_saved = options\<rparr>, trace))"

text \<open>\<open>update_certificate\<close> takes everything but the certificate from the options given to \<open>bind\<close>.\<close>

definition update_certificate ::
  "(bytes \<Rightarrow> bytes) \<Rightarrow> tls_library \<Rightarrow> bytes list \<Rightarrow> bytes \<Rightarrow> sunny_server \<Rightarrow> unit result \<times> sunny_server" where
  "update_certificate sha256 lib chain key s =
     (let options = (sunny_saved s)\<lparr>so_certificate_chain := chain, so_private_key := key\<rparr>;
          (res, inner) = update_sunny_config sha256 lib (inner_options options) (sunny_inner s)
      in (res, s\<lparr>sunny_inner := inner\<rparr>))"

definition sunny_server_local_addr :: "os_calls \<Rightarrow> sunny_server \<Rightarrow> socket_addr result" where
  "sunny_server_local_addr os s = server_local_addr os (sunny_inner s)"


section \<open>Properties\<close>

definition demo_endpoint :: endpoint where
  "demo_endpoint = \<lparr>endpoint_bound = \<lparr>ip = V4 0, sport = 0\<rparr>, endpoint_server = None, endpoint_client = None, endpoint_open = True\<rparr>"

lemma apply_congestion_kind:
  assumes "apply_congestion ops now conn config h = (Inr (), h')" "\<And>l. cc_controller conn = Switchable l \<Longrightarrow> h l \<noteq> None"
  shows "connection_congestion_kind conn h' = Some (case config of BbrConfig \<Rightarrow> Bbr | BrutalConfig r _ \<Rightarrow> Brutal r)"
proof (cases "cc_controller conn")
  case (Switchable l)
  then obtain st where "h l = Some st" using assms(2) by blast
  with assms(1) Switchable show ?thesis
    by (auto simp: apply_congestion_def configure_connection_bbr_def configure_connection_brutal_with_options_def
        congestion_state_def clone_box_def connection_congestion_kind_def with_state_def set_bbr_def set_brutal_def
        split: congestion_config.splits if_splits)
next
  case (Plain x)
  with assms(1) show ?thesis
    by (auto simp: apply_congestion_def configure_connection_bbr_def configure_connection_brutal_with_options_def
        congestion_state_def clone_box_def split: congestion_config.splits if_splits)
qed

lemma client_new_Inr:
  assumes "client_new lib os options = (Inr c, trace)"
  shows "\<exists>config. jls_client_config lib options = Inr config \<and>
    c = client_from_endpoint \<lparr>endpoint_bound = client_bind_address (co_server options), endpoint_server = None,
      endpoint_client = Some config, endpoint_open = True\<rparr> (co_server options) (co_server_name options) (co_congestion options) JlsClient"
  using assms by (auto simp: client_new_def dest: client_endpoint_Inr split: sum.splits prod.splits)

lemma client_new_sunny_Inr:
  assumes "client_new_sunny lib os options = (Inr c, trace)"
  shows "\<exists>config. sunny_client_config lib options = Inr config \<and>
    c = client_from_endpoint \<lparr>endpoint_bound = client_bind_address (sco_server options), endpoint_server = None,
      endpoint_client = Some config, endpoint_open = True\<rparr> (sco_server options) (sco_server_name options)
      (sco_congestion options) (SunnyClient (sco_credential options))"
  using assms by (auto simp: client_new_sunny_def dest: client_endpoint_Inr split: sum.splits prod.splits)

lemma bind_inner_Inr:
  "bind_inner os listen config congestion auth = (Inr s, trace) \<Longrightarrow>
   s = \<lparr>server_endpoint = \<lparr>endpoint_bound = listen, endpoint_server = Some config, endpoint_client = None, endpoint_open = True\<rparr>,
        server_congestion = congestion, server_authentication = auth\<rparr>"
  by (auto simp: bind_inner_def dest: bind_endpoint_Inr split: sum.splits prod.splits)

text \<open>Binding a second address set on the same socket address gives the same socket outcome.\<close>

lemma bind_inner_again:
  assumes "bind_inner os listen config congestion auth = (Inr s, trace)"
  shows "bind_inner os listen config' congestion' auth' =
    (Inr \<lparr>server_endpoint = \<lparr>endpoint_bound = listen, endpoint_server = Some config', endpoint_client = None, endpoint_open = True\<rparr>,
          server_congestion = congestion', server_authentication = auth'\<rparr>, trace)"
  using assms by (auto simp: bind_inner_def bind_endpoint_def Let_def split: sum.splits prod.splits option.splits)

lemma update_sunny_is_rebind:
  assumes "bind_sunny sha256 lib os options = (Inr s, trace)" "update_sunny_config sha256 lib' options' s = (Inr (), s')"
  shows "bind_sunny sha256 lib' os (options'\<lparr>sunny_listen := sunny_listen options\<rparr>) = (Inr s', trace)"
proof -
  obtain config where bound: "bind_inner os (sunny_listen options) config (sunny_congestion options)
      (SunnyAuth (sunny_users sha256 (sunny_user_list options))) = (Inr s, trace)"
    using assms(1) by (auto simp: bind_sunny_def split: sum.splits)
  obtain config' where config': "build_sunny_server_config lib' (sunny_certificate_chain options') (sunny_private_key options')
      (sunny_zero_rtt options') = Inr config'"
    and s': "s' = set_server_config config' (s\<lparr>server_congestion := sunny_congestion options',
      server_authentication := SunnyAuth (sunny_users sha256 (sunny_user_list options'))\<rparr>)"
    using assms(2) by (auto simp: update_sunny_config_def split: sum.splits)
  show ?thesis
    using bind_inner_again [OF bound, of config'] bind_inner_Inr [OF bound] config' s'
    by (simp add: bind_sunny_def set_server_config_def)
qed

lemma build_server_config_listen: "build_server_config lib (options\<lparr>options_listen := a\<rparr>) = build_server_config lib options"
  by (simp add: build_server_config_def jls_calls_def)

lemma update_is_rebind:
  assumes "bind_server lib os options = (Inr s, trace)" "update_config lib' options' s = (Inr (), s')"
  shows "bind_server lib' os (options'\<lparr>options_listen := options_listen options\<rparr>) = (Inr s', trace)"
proof -
  obtain config where bound: "bind_inner os (options_listen options) config (options_congestion options) JlsAuth = (Inr s, trace)"
    using assms(1) by (auto simp: bind_server_def split: sum.splits)
  obtain config' where config': "build_server_config lib' options' = Inr config'"
    and s': "s' = set_server_config config' (s\<lparr>server_congestion := options_congestion options'\<rparr>)"
    using assms(2) by (auto simp: update_config_def Let_def split: sum.splits)
  show ?thesis
    using bind_inner_again [OF bound, of config'] bind_inner_Inr [OF bound] config' s'
    by (simp add: bind_server_def build_server_config_listen set_server_config_def)
qed

lemma jls_client_config_Inr:
  assumes "jls_client_config lib options = Inr config"
  shows "co_server_name options \<noteq> []" "qc_tls config =
    \<lparr>tls_roots = [WebPkiRoots], tls_client_alpn = [''h3''], tls_early_data = co_zero_rtt options,
     tls_jls_client = Some (co_password options, co_username options)\<rparr>"
  using assms by (auto simp: jls_client_config_def ALPN_H3_def result_iffs setup_iffs split: if_splits)

lemma sunny_client_config_Inr:
  assumes "sunny_client_config lib options = Inr config"
  shows "sco_server_name options \<noteq> []" "qc_tls config =
    \<lparr>tls_roots = (if sco_ca_certificates options = [] then [WebPkiRoots] else map CaCertificate (sco_ca_certificates options)),
     tls_client_alpn = [''h3''], tls_early_data = sco_zero_rtt options, tls_jls_client = None\<rparr>"
  using assms by (auto simp: sunny_client_config_def ALPN_H3_def result_iffs setup_iffs Let_def split: if_splits)

lemma client_endpoint_Inl:
  assumes "client_endpoint os server config = (Inl e, trace)"
  shows "config = Inl e \<and> trace = ([], []) \<or> (\<exists>io. e = Io io)"
  using assms by (auto simp: client_endpoint_def split: sum.splits prod.splits)

text \<open>
  (C36) A client that was constructed has a server name and speaks \<open>h3\<close> from an unspecified address of
  the server's family, with early data exactly as asked. A JLS client trusts the web's roots and
  carries its password and name in the handshake; a SunnyQUIC client trusts exactly the given
  certificates, the web's roots only when there are none, and keeps its credential out of the
  handshake. When the configuration is refused no socket is opened.
\<close>

theorem squic_client_setup:
  "(case client_new lib os jls of
      (Inr c, _) \<Rightarrow> co_server_name jls \<noteq> [] \<and> client_authentication c = JlsClient \<and>
        domain_of (ip (endpoint_bound (client_endpoint_of c))) = domain_of (ip (co_server jls)) \<and>
        map_option qc_tls (endpoint_client (client_endpoint_of c)) = Some
          \<lparr>tls_roots = [WebPkiRoots], tls_client_alpn = [''h3''], tls_early_data = co_zero_rtt jls,
           tls_jls_client = Some (co_password jls, co_username jls)\<rparr>
    | (Inl e, trace) \<Rightarrow> jls_client_config lib jls = Inl e \<and> trace = ([], []) \<or> (\<exists>io. e = Io io)) \<and>
   (case client_new_sunny lib os sunny of
      (Inr c, _) \<Rightarrow> sco_server_name sunny \<noteq> [] \<and> client_authentication c = SunnyClient (sco_credential sunny) \<and>
        domain_of (ip (endpoint_bound (client_endpoint_of c))) = domain_of (ip (sco_server sunny)) \<and>
        map_option qc_tls (endpoint_client (client_endpoint_of c)) = Some
          \<lparr>tls_roots = (if sco_ca_certificates sunny = [] then [WebPkiRoots] else map CaCertificate (sco_ca_certificates sunny)),
           tls_client_alpn = [''h3''], tls_early_data = sco_zero_rtt sunny, tls_jls_client = None\<rparr>
    | (Inl e, trace) \<Rightarrow> sunny_client_config lib sunny = Inl e \<and> trace = ([], []) \<or> (\<exists>io. e = Io io))"
  (is "?jls \<and> ?sunny")
proof
  obtain res ops logs where "client_new lib os jls = (res, ops, logs)" by (rule prod_cases3)
  then show ?jls
    using client_endpoint_Inl [of os "co_server jls" "jls_client_config lib jls"] client_new_Inr [of lib os jls]
    by (cases res) (auto simp: client_from_endpoint_def client_bind_family jls_client_config_Inr client_new_def
        split: sum.splits prod.splits)
  obtain res ops logs where "client_new_sunny lib os sunny = (res, ops, logs)" by (rule prod_cases3)
  then show ?sunny
    using client_endpoint_Inl [of os "sco_server sunny" "sunny_client_config lib sunny"] client_new_sunny_Inr [of lib os sunny]
    by (cases res) (auto simp: client_from_endpoint_def client_bind_family sunny_client_config_Inr client_new_sunny_def
        split: sum.splits prod.splits)
qed

text \<open>
  (C21) A live update is a restart without the restart: a running ShadowQUIC or SunnyQUIC server that is
  updated successfully is exactly the server that binding with the new options would have given on
  the same address; a SunnyQUIC certificate update keeps the users, the congestion control and the
  early-data setting of the original options.
\<close>

theorem live_update_is_rebind:
  assumes "bind_server lib os options = (Inr s, trace)" "update_config lib' options' s = (Inr (), s')"
    "sunny_bind sha256 lib os sunny = (Inr t, trace')" "update_certificate sha256 lib' chain key t = (Inr (), t')"
  shows "bind_server lib' os (options'\<lparr>options_listen := options_listen options\<rparr>) = (Inr s', trace) \<and>
    bind_sunny sha256 lib' os (inner_options (sunny\<lparr>so_certificate_chain := chain, so_private_key := key\<rparr>)) = (Inr (sunny_inner t'), trace') \<and>
    sunny_saved t' = sunny"
proof (intro conjI)
  show "bind_server lib' os (options'\<lparr>options_listen := options_listen options\<rparr>) = (Inr s', trace)"
    by (rule update_is_rebind [OF assms(1,2)])
  have t: "bind_sunny sha256 lib os (inner_options sunny) = (Inr (sunny_inner t), trace')" "sunny_saved t = sunny"
    using assms(3) by (auto simp: sunny_bind_def split: sum.splits prod.splits)
  with assms(4) have t': "update_sunny_config sha256 lib' (inner_options (sunny\<lparr>so_certificate_chain := chain, so_private_key := key\<rparr>))
      (sunny_inner t) = (Inr (), sunny_inner t')" "sunny_saved t' = sunny"
    by (auto simp: update_certificate_def Let_def split: prod.splits)
  have "(inner_options (sunny\<lparr>so_certificate_chain := chain, so_private_key := key\<rparr>))\<lparr>sunny_listen := sunny_listen (inner_options sunny)\<rparr> =
      inner_options (sunny\<lparr>so_certificate_chain := chain, so_private_key := key\<rparr>)"
    by (simp add: inner_options_def)
  with update_sunny_is_rebind [OF t(1) t'(1)]
  show "bind_sunny sha256 lib' os (inner_options (sunny\<lparr>so_certificate_chain := chain, so_private_key := key\<rparr>)) = (Inr (sunny_inner t'), trace')"
    by simp
  show "sunny_saved t' = sunny" by (rule t'(2))
qed

definition demo_options :: "congestion_config \<Rightarrow> server_options" where
  "demo_options congestion =
     \<lparr>options_listen = \<lparr>ip = V4 0, sport = 443\<rparr>, options_users = [], options_server_name = None,
      options_jls_upstream_addr = None, options_jls_rate_limit = 0, options_congestion = congestion, options_zero_rtt = False\<rparr>"

definition demo_sunny_options :: sunny_options where
  "demo_sunny_options =
     \<lparr>so_listen = \<lparr>ip = V4 0, sport = 443\<rparr>, so_users = [], so_certificate_chain = [], so_private_key = [9],
      so_congestion = BbrConfig, so_zero_rtt = True\<rparr>"

theorem live_update_is_rebind_witness:
  "\<forall>defaults. \<exists>s trace s'. bind_server (plain_library defaults) plain_os (demo_options BbrConfig) = (Inr s, trace) \<and>
     update_config (plain_library defaults) (demo_options (BrutalConfig 9 True)) s = (Inr (), s') \<and>
     bind_server (plain_library defaults) plain_os (demo_options (BrutalConfig 9 True)) = (Inr s', trace)"
proof
  fix defaults
  let ?lib = "plain_library defaults"
  have configs: "\<exists>c. build_server_config ?lib opts = Inr c" "\<exists>c. build_sunny_server_config ?lib chain key z = Inr c" for opts chain key z
    by (simp_all add: build_server_config_def build_sunny_server_config_def plain_library_def single_cert_def quic_server_crypto_def
        detect_private_key_def)
  have binds: "\<exists>s tr. bind_inner plain_os listen c cg auth = (Inr s, tr)" for listen c cg auth
    by (auto simp: bind_inner_def bind_endpoint_def bind_udp_socket_def tune_udp_socket_def plain_os_def Let_def split: prod.splits)
  obtain s tr where s: "bind_server ?lib plain_os (demo_options BbrConfig) = (Inr s, tr)"
    using configs(1) [of "demo_options BbrConfig"] binds by (fastforce simp: bind_server_def)
  obtain s' where s': "update_config ?lib (demo_options (BrutalConfig 9 True)) s = (Inr (), s')"
    using configs(1) [of "demo_options (BrutalConfig 9 True)"] by (auto simp: update_config_def Let_def)
  let ?i = "inner_options demo_sunny_options"
  obtain c where c: "build_sunny_server_config ?lib (sunny_certificate_chain ?i) (sunny_private_key ?i) (sunny_zero_rtt ?i) = Inr c"
    using configs(2) by blast
  obtain u tr' where "bind_inner plain_os (sunny_listen ?i) c (sunny_congestion ?i)
      (SunnyAuth (sunny_users (\<lambda>b. b) (sunny_user_list ?i))) = (Inr u, tr')"
    using binds by blast
  with c obtain t where t: "sunny_bind (\<lambda>b. b) ?lib plain_os demo_sunny_options = (Inr t, tr')"
    by (simp add: sunny_bind_def bind_sunny_def)
  let ?o = "inner_options ((sunny_saved t)\<lparr>so_certificate_chain := [[3]], so_private_key := [4]\<rparr>)"
  obtain c' where "build_sunny_server_config ?lib (sunny_certificate_chain ?o) (sunny_private_key ?o) (sunny_zero_rtt ?o) = Inr c'"
    using configs(2) by blast
  then obtain t' where t': "update_certificate (\<lambda>b. b) ?lib [[3]] [4] t = (Inr (), t')"
    by (simp add: update_certificate_def update_sunny_config_def Let_def)
  from live_update_is_rebind [OF s s' t t'] s s' show "\<exists>s trace s'. bind_server ?lib plain_os (demo_options BbrConfig) = (Inr s, trace) \<and>
     update_config ?lib (demo_options (BrutalConfig 9 True)) s = (Inr (), s') \<and>
     bind_server ?lib plain_os (demo_options (BrutalConfig 9 True)) = (Inr s', trace)"
    by (intro exI conjI) (assumption | simp add: demo_options_def)+
qed

lemma client_authenticate_Inr:
  assumes "fst (client_authenticate auth d) = Inr bs"
  shows "case auth of
      SunnyClient cred \<Rightarrow> dial_finish d = None \<and> (\<exists>w. dial_open_bi d = Inr w \<and> bs = written w @ SQ_AUTHENTICATE # cred)
    | JlsClient \<Rightarrow> (\<forall>hs. dial_handshake_data d = Some (Some hs) \<longrightarrow> jls_authenticated hs = Some True)"
  using assms by (cases auth)
    (auto simp: client_authenticate_def quic_write_all_def result_iffs emit_def map_errR_def split: option.splits if_splits sum.splits)

text \<open>
  (C32) The connection cache: a live connection is reused without dialling; otherwise exactly one dial is
  made and its outcome decides: a failed one leaves the cache as it was, so the next request dials
  again. A connection that is handed out was established and has the configured congestion control; on a
  SunnyQUIC connection the authentication stream was opened, carries the credential and was finished,
  and on a ShadowQUIC one the handshake did not report failed JLS authentication.
\<close>

theorem connection_cache:
  fixes dials :: "nat \<Rightarrow> 'c dial"
  assumes "connection_state ops alive dials c h = (res, c', h')"
    "\<forall>n l. cc_controller (dial_connection (dials n)) = Switchable l \<longrightarrow> h l \<noteq> None"
  shows "(\<forall>n. client_cached c = Some n \<and> alive n \<longrightarrow> res = Inr n \<and> c' = c \<and> h' = h) \<and>
    ((\<forall>n. client_cached c = Some n \<longrightarrow> \<not> alive n) \<longrightarrow>
       client_dials c' = client_dials c + 1 \<and>
       (case res of
          Inl e \<Rightarrow> client_cached c' = client_cached c \<and> client_connections c' = client_connections c
        | Inr n \<Rightarrow> n = client_dials c \<and> client_cached c' = Some n \<and>
            connection_congestion_kind (dial_connection (dials n)) h' =
              Some (case client_congestion c of BbrConfig \<Rightarrow> Bbr | BrutalConfig r _ \<Rightarrow> Brutal r) \<and>
            dial_connect (dials n) = None \<and> dial_handshake_error (dials n) = None \<and>
            (\<exists>k. client_connections c' = (client_connections c)(n \<mapsto> k) \<and> cc_plane k = plane_new \<and>
               (case client_authentication c of
                  SunnyClient cred \<Rightarrow> dial_finish (dials n) = None \<and>
                    (\<exists>w. dial_open_bi (dials n) = Inr w \<and> cc_auth_stream k = written w @ SQ_AUTHENTICATE # cred)
                | JlsClient \<Rightarrow> (\<forall>hs. dial_handshake_data (dials n) = Some (Some hs) \<longrightarrow> jls_authenticated hs = Some True)))))"
proof (cases "\<exists>n. client_cached c = Some n \<and> alive n")
  case True
  then show ?thesis
    using assms by (auto simp: connection_state_def)
next
  case False
  let ?n = "client_dials c"
  let ?d = "dials ?n"
  have "(case client_cached c of Some n \<Rightarrow> if alive n then Some n else None | None \<Rightarrow> None) = None"
    using False by (auto split: option.splits)
  then have state: "(res, c', h') = (case dial_server ops (client_authentication c) (client_congestion c) ?n ?d h of
      (Inl e, reason, h) \<Rightarrow> (Inl e, c\<lparr>client_dials := ?n + 1,
         client_closed := client_closed c @ (case reason of None \<Rightarrow> [] | Some m \<Rightarrow> [(?n, m)])\<rparr>, h)
    | (Inr k, _, h) \<Rightarrow> (Inr ?n, c\<lparr>client_dials := ?n + 1, client_connections := (client_connections c)(?n \<mapsto> k), client_cached := Some ?n\<rparr>, h))"
    unfolding assms(1) [symmetric] connection_state_def Let_def by (auto split: sum.splits prod.splits)
  show ?thesis
  proof (cases "fst (dial_server ops (client_authentication c) (client_congestion c) ?n ?d h)")
    case (Inl e)
    then show ?thesis
      using False state by (auto split: sum.splits prod.splits)
  next
    case (Inr k)
    then obtain h1 where dial: "dial_server ops (client_authentication c) (client_congestion c) ?n ?d h = (Inr k, None, h1)"
      "apply_congestion ops (dial_now ?d) (dial_connection ?d) (client_congestion c) h = (Inr (), h1)"
      "fst (client_authenticate (client_authentication c) ?d) = Inr (cc_auth_stream k)" "cc_plane k = plane_new"
      "dial_connect ?d = None" "dial_handshake_error ?d = None"
      by (auto simp: dial_server_def split: option.splits prod.splits sum.splits)
    have "connection_congestion_kind (dial_connection ?d) h1 =
        Some (case client_congestion c of BbrConfig \<Rightarrow> Bbr | BrutalConfig r _ \<Rightarrow> Brutal r)"
      by (rule apply_congestion_kind [OF dial(2)]) (use assms(2) in blast)
    moreover have "case client_authentication c of
        SunnyClient cred \<Rightarrow> dial_finish ?d = None \<and> (\<exists>w. dial_open_bi ?d = Inr w \<and> cc_auth_stream k = written w @ SQ_AUTHENTICATE # cred)
      | JlsClient \<Rightarrow> (\<forall>hs. dial_handshake_data ?d = Some (Some hs) \<longrightarrow> jls_authenticated hs = Some True)"
      by (rule client_authenticate_Inr [OF dial(3)])
    ultimately show ?thesis
      using False state dial(1,4-6) by auto
  qed
qed

definition closed_dial :: "(congestion_kind \<times> u16) dial" where
  "closed_dial = \<lparr>dial_connect = None, dial_handshake_error = Some TimedOut, dial_connection = \<lparr>cc_controller = Switchable 0, cc_rtt = 1\<rparr>,
     dial_now = 0, dial_handshake_data = None, dial_open_bi = Inl TimedOut, dial_finish = None\<rparr>"

definition open_dial :: "(congestion_kind \<times> u16) dial" where
  "open_dial = closed_dial\<lparr>dial_handshake_error := None, dial_open_bi := Inr fresh_writer,
     dial_handshake_data := Some (Some \<lparr>jls_authenticated = Some True, jls_user = None\<rparr>)\<rparr>"

definition dial_heap :: "(congestion_kind \<times> u16) cc_heap" where
  "dial_heap = (\<lambda>_. Some \<lparr>controller = (Bbr, 1200), kind = Bbr, current_mtu = 1200\<rparr>)"

definition plain_client :: "client_authentication \<Rightarrow> squic_client" where
  "plain_client auth = client_from_endpoint demo_endpoint \<lparr>ip = V4 1, sport = 443\<rparr> ''example'' BbrConfig auth"

lemma plain_client_dials:
  "client_cached (plain_client auth) = None" "client_dials (plain_client auth) = 0" "client_congestion (plain_client auth) = BbrConfig"
  "client_authentication (plain_client auth) = auth" "client_connections (plain_client auth) = Map.empty"
  by (simp_all add: plain_client_def client_from_endpoint_def)

lemma open_dial_state:
  "\<exists>c' h'. connection_state plain_ops alive (\<lambda>_. open_dial) (plain_client auth) dial_heap = (Inr 0, c', h')"
  by (cases auth) (simp_all add: connection_state_def plain_client_dials dial_server_def client_authenticate_def open_dial_def
      closed_dial_def apply_congestion_def configure_connection_bbr_def congestion_state_def clone_box_def
      quic_write_all_def accepts_def emit_def fresh_writer_def)

theorem connection_cache_witness:
  "\<exists>c' h'. connection_state plain_ops (\<lambda>_. False) (\<lambda>_. open_dial) (plain_client (SunnyClient [1, 2])) dial_heap = (Inr 0, c', h') \<and>
     connection_congestion_kind (dial_connection open_dial) h' = Some Bbr \<and>
     (\<exists>k. client_connections c' 0 = Some k \<and> cc_auth_stream k = [SQ_AUTHENTICATE, 1, 2])"
proof -
  obtain c' h' where s: "connection_state plain_ops (\<lambda>_. False) (\<lambda>_. open_dial) (plain_client (SunnyClient [1, 2])) dial_heap = (Inr 0, c', h')"
    using open_dial_state by blast
  have "dial_open_bi open_dial = Inr fresh_writer" "written fresh_writer = []"
    by (simp_all add: open_dial_def fresh_writer_def)
  with connection_cache [OF s] s show ?thesis
    by (auto simp: dial_heap_def plain_client_dials)
qed

end
