(* ===== verification/Squic_Client_Udp.thy ===== *)
theory Squic_Client_Udp
  imports Squic_Client
begin

text \<open>
  What the receiver of UDP traffic on the client (\<open>spawn_client_udp_receiver\<close> of \<open>src/src/shadowquic/mod.rs\<close>)
  does to the packet connections: nothing on a ShadowQUIC client, which has none, and one datagram after
  the other on a SunnyQUIC client.
\<close>

lemma client_run_Cons: "client_run link (ev # evs) k = client_run link evs (client_step link ev k)"
  by (simp add: client_run_def)

lemma client_run_Nil: "client_run link [] k = k"
  by (simp add: client_run_def)


section \<open>Without a receiver\<close>

definition silent_plane :: "udp_plane \<Rightarrow> bool" where
  "silent_plane p \<longleftrightarrow> up_tasks p = [] \<and> (\<forall>ch. up_queues p ch \<in> {None, Some []})"

definition silent :: "client_connection \<Rightarrow> bool" where
  "silent k \<longleftrightarrow> cc_receiver k = NoReceiver \<and> silent_plane (cc_plane k)"

lemma silent_recv:
  assumes "silent_plane p"
  shows "silent_plane (snd (plane_recv n p))"
proof -
  have "up_queues p n = None \<or> up_queues p n = Some []" using assms by (simp add: silent_plane_def)
  then show ?thesis using assms by (elim disjE) (auto simp: silent_plane_def plane_recv_def squic_recv_def)
qed

lemma silent_plane_step: "silent_plane p \<Longrightarrow> silent_plane (plane_step link ev p)"
  using silent_recv by (cases ev) (auto simp: silent_plane_def split: prod.splits)

lemma silent_step: "silent k \<Longrightarrow> silent (client_step link ev k)"
  by (cases ev) (auto simp: silent_def silent_plane_step, auto simp: silent_plane_def receiver_step_def plane_associate_def Let_def)

lemma silent_run: "silent k \<Longrightarrow> silent (client_run link evs k)"
  by (induction evs arbitrary: k) (simp_all add: client_run_Nil client_run_Cons silent_step)


section \<open>With a receiver\<close>

fun is_reception :: "client_event \<Rightarrow> bool" where
  "is_reception (ReadDatagram x) = True"
| "is_reception (AcceptUni x) = True"
| "is_reception ReceiverStep = True"
| "is_reception _ = False"

text \<open>The receiver is at a datagram whose id has no route.\<close>

definition stuck_at :: "u16 \<Rightarrow> udp_payload \<Rightarrow> client_connection \<Rightarrow> bool" where
  "stuck_at i x k \<longleftrightarrow> cc_receiver k = Busy (AwaitRoute i x) \<and> \<not> reg_closed (up_registry (cc_plane k))"

lemma stuck_reception:
  assumes "stuck_at i x k" "routes (up_registry (cc_plane k)) i = None" "is_reception ev"
  shows "client_step link ev k = k"
  using assms by (cases ev) (simp_all add: stuck_at_def receiver_step_def registry_wait_def)

lemma control_turn_open: "control_turn c reg = (c', reg') \<Longrightarrow> reg_closed reg' = reg_closed reg"
  by (auto simp: control_turn_def registry_remove_routes registry_register_def split: option.splits sum.splits elim!: control_step_Inr)

lemma plane_step_open: "reg_closed (up_registry (plane_step link ev p)) = reg_closed (up_registry p)"
  by (cases ev) (auto simp: plane_recv_def control_turn_open split: prod.splits option.splits)

lemma stuck_step:
  assumes "stuck_at i x k" "routes (up_registry (cc_plane k)) i = None"
  shows "stuck_at i x (client_step link ev k)"
  using assms stuck_reception [OF assms, of ev link] plane_step_open
  by (cases ev) (auto simp: stuck_at_def plane_associate_def Let_def)

lemma stuck_run:
  assumes "stuck_at i x k" "\<forall>j \<le> length evs. routes (up_registry (cc_plane (client_run link (take j evs) k))) i = None"
  shows "client_run link evs k = client_run link (filter (\<lambda>ev. \<not> is_reception ev) evs) k \<and> stuck_at i x (client_run link evs k)"
  using assms
proof (induction evs arbitrary: k)
  case Nil
  then show ?case by (simp add: client_run_Nil)
next
  case (Cons ev evs)
  have route: "routes (up_registry (cc_plane k)) i = None"
    using Cons.prems(2) [rule_format, of 0] by (simp add: client_run_Nil)
  have "\<forall>j \<le> length evs. routes (up_registry (cc_plane (client_run link (take j evs) (client_step link ev k)))) i = None"
  proof (intro allI impI)
    fix j assume "j \<le> length evs"
    then show "routes (up_registry (cc_plane (client_run link (take j evs) (client_step link ev k)))) i = None"
      using Cons.prems(2) [rule_format, of "Suc j"] by (simp add: client_run_Cons)
  qed
  from Cons.IH [OF stuck_step [OF Cons.prems(1) route] this] show ?case
    using stuck_reception [OF Cons.prems(1) route, of ev link] by (auto simp: client_run_Cons)
qed


section \<open>Properties\<close>

text \<open>
  (C38) A ShadowQUIC (JLS) client never receives UDP: whatever associations are opened on a connection it
  hands out and whatever the server sends, no packet connection ever has a packet to hand out. On a
  SunnyQUIC client's connection a datagram that can be delivered is, and the receiver goes on.
\<close>

theorem jls_client_no_udp:
  fixes dials :: "nat \<Rightarrow> 'c dial"
  assumes "connection_state ops alive dials (client_from_endpoint ep server server_name congestion auth) h = (Inr n, c', h')"
    "client_connections c' n = Some k"
  shows "(auth = JlsClient \<longrightarrow> (\<forall>link evs ch. up_queues (cc_plane (client_run link evs k)) ch \<in> {None, Some []})) \<and>
    (auth \<noteq> JlsClient \<longrightarrow> cc_receiver k = Idle \<and>
       (\<forall>link evs d q. cc_receiver (client_run link evs k) = Idle \<and>
          handle_incoming_udp_datagram d (up_registry (cc_plane (client_run link evs k))) (up_queues (cc_plane (client_run link evs k))) = Some (Inr q) \<longrightarrow>
          (let k' = client_run link (evs @ [ReadDatagram (Inr d), ReceiverStep, ReceiverStep]) k
           in up_queues (cc_plane k') = q \<and> cc_receiver k' = Idle)))"
proof -
  have k: "cc_plane k = plane_new" "cc_receiver k = (case auth of SunnyClient _ \<Rightarrow> Idle | JlsClient \<Rightarrow> NoReceiver)"
    using assms by (auto simp: connection_state_def client_from_endpoint_def dial_server_def Let_def
        split: sum.splits option.splits prod.splits if_splits)
  have "up_queues (cc_plane (client_run link evs k)) ch \<in> {None, Some []}" if "auth = JlsClient" for link evs ch
  proof -
    have "silent k" using k that by (simp add: silent_def silent_plane_def plane_new_def)
    then show ?thesis using silent_run [of k link evs] by (simp add: silent_def silent_plane_def)
  qed
  moreover have "up_queues (cc_plane (client_run link [ReadDatagram (Inr d), ReceiverStep, ReceiverStep] k1)) = q \<and>
      cc_receiver (client_run link [ReadDatagram (Inr d), ReceiverStep, ReceiverStep] k1) = Idle"
    if "cc_receiver k1 = Idle" "handle_incoming_udp_datagram d (up_registry (cc_plane k1)) (up_queues (cc_plane k1)) = Some (Inr q)"
    for link d q k1
    using that by (auto simp: client_run_def receiver_step_def handle_incoming_udp_datagram_def datagram_task_def
        split: if_splits option.splits sum.splits)
  ultimately show ?thesis
    using k by (auto simp: Let_def client_run_def split: client_authentication.splits)
qed

theorem jls_client_no_udp_witness:
  "\<exists>c' h' k. connection_state plain_ops (\<lambda>_. False) (\<lambda>_. open_dial) (plain_client JlsClient) dial_heap = (Inr 0, c', h') \<and>
     client_connections c' 0 = Some k \<and>
     up_queues (cc_plane (client_run (env_link demo_env)
       [Associated DatagramMode fresh_writer \<lparr>pending = [], ending = Finished\<rparr>, ReadDatagram (Inr [0, 0, 5]), ReceiverStep] k)) 0 \<in> {None, Some []}"
proof -
  obtain c' h' where s: "connection_state plain_ops (\<lambda>_. False) (\<lambda>_. open_dial) (plain_client JlsClient) dial_heap = (Inr 0, c', h')"
    using open_dial_state by blast
  then obtain k where k: "client_connections c' 0 = Some k"
    by (auto simp: connection_state_def plain_client_dials Let_def split: prod.splits sum.splits)
  from jls_client_no_udp [OF s [unfolded plain_client_def] k] s k show ?thesis by blast
qed

lemma resumes:
  assumes "cc_receiver k = Busy (AwaitRoute i (OneDatagram bs))" "routes (up_registry (cc_plane k)) i = Some route"
    "up_queues (cc_plane k) (route_sender route) = Some ps" "length ps < UDP_CAPACITY"
  shows "client_run link [ReceiverStep, ReceiverStep] k = k\<lparr>cc_receiver := Idle, cc_plane := (cc_plane k)\<lparr>up_queues := (up_queues (cc_plane k))
    (route_sender route \<mapsto> ps @ [\<lparr>sq_data = bs, sq_destination = route_destination route\<rparr>])\<rparr>\<rparr>"
  using assms by (simp add: client_run_def receiver_step_def registry_wait_def chan_send_def)

text \<open>
  (C39) Head-of-line blocking of the client's receiver. Once it has taken a datagram for an id that has no
  route (an association that has ended, or one not announced yet), it takes in nothing while the id
  has none: datagrams and streams that arrive have no effect, whatever their association, and neither
  has the end of the connection; what the tasks and the application do besides, packet streams
  accepted before included, goes on. Should the id be announced after all, the datagram is delivered
  (if its channel has room) and the receiver goes on.
\<close>

theorem client_receiver_blocks:
  assumes "cc_receiver k = Busy (AwaitRoute i (OneDatagram bs))" "\<not> reg_closed (up_registry (cc_plane k))"
    "\<forall>j \<le> length evs. routes (up_registry (cc_plane (client_run link (take j evs) k))) i = None"
  shows "client_run link evs k = client_run link (filter (\<lambda>ev. \<not> is_reception ev) evs) k \<and>
    cc_receiver (client_run link evs k) = Busy (AwaitRoute i (OneDatagram bs)) \<and>
    (\<forall>ev k' route ps. k' = client_step link ev (client_run link evs k) \<and> routes (up_registry (cc_plane k')) i = Some route \<and>
       up_queues (cc_plane k') (route_sender route) = Some ps \<and> length ps < UDP_CAPACITY \<longrightarrow>
       client_run link [ReceiverStep, ReceiverStep] k' = k'\<lparr>cc_receiver := Idle, cc_plane := (cc_plane k')\<lparr>up_queues := (up_queues (cc_plane k'))
         (route_sender route \<mapsto> ps @ [\<lparr>sq_data = bs, sq_destination = route_destination route\<rparr>])\<rparr>\<rparr>)"
proof -
  have stuck: "stuck_at i (OneDatagram bs) k" using assms(1,2) by (simp add: stuck_at_def)
  note run = stuck_run [OF stuck assms(3)]
  have "cc_receiver (client_step link ev (client_run link evs k)) = Busy (AwaitRoute i (OneDatagram bs))" for ev
    using stuck_step [OF conjunct2 [OF run], of link ev] assms(3) [rule_format, OF le_refl] by (simp add: stuck_at_def)
  then show ?thesis
    by (intro conjI conjunct1 [OF run] allI impI) (use run in \<open>auto simp: stuck_at_def intro!: resumes\<close>)
qed

definition blocked_connection :: client_connection where
  "blocked_connection = \<lparr>cc_id = 0, cc_auth_stream = [], cc_receiver = Busy (AwaitRoute 9 (OneDatagram [5])),
     cc_plane = plane_new\<lparr>up_registry := registry_register 1 \<lparr>host = ''a'', port = 1\<rparr> 0 registry_default, up_queues := [0 \<mapsto> []]\<rparr>\<rparr>"

theorem client_receiver_blocks_witness:
  "cc_receiver (client_run (env_link demo_env) [ReceiverStep, ReadDatagram (Inr [0, 1, 7]), ReadDatagram (Inl TimedOut)] blocked_connection) =
     Busy (AwaitRoute 9 (OneDatagram [5]))"
proof (rule client_receiver_blocks [THEN conjunct2, THEN conjunct1])
  let ?run = "client_run (env_link demo_env)"
  have same: "?run (take j [ReceiverStep, ReadDatagram (Inr [0, 1, 7]), ReadDatagram (Inl TimedOut)]) blocked_connection = blocked_connection"
    if "j \<le> 3" for j
    using that by (cases j rule: nat.exhaust; cases "j - 1"; cases "j - 2"; cases "j - 3")
      (auto simp: client_run_def blocked_connection_def receiver_step_def registry_wait_def registry_register_def registry_default_def plane_new_def)
  show "\<forall>j \<le> length [ReceiverStep, ReadDatagram (Inr [0, 1, 7]), ReadDatagram (Inl TimedOut)].
      routes (up_registry (cc_plane (?run (take j [ReceiverStep, ReadDatagram (Inr [0, 1, 7]), ReadDatagram (Inl TimedOut)]) blocked_connection))) 9 = None"
    using same by (simp add: blocked_connection_def registry_register_def registry_default_def)
qed (simp_all add: blocked_connection_def registry_register_def registry_default_def)

end
