(* ===== verification/Squic_Session.thy ===== *)
theory Squic_Session
  imports Squic_Client_Udp Squic_Delivery
begin

text \<open>
  Runs of a client's and a server's connection that belong together: what a client sends on an association
  in terms of its sender, and schedules under which the server takes in announcements and datagrams.
\<close>


section \<open>Sending on an association\<close>

lemma association_send_all:
  assumes "send_all link ps ((uc_senders out ! m)\<lparr>sender_next_id := uc_next_id out\<rparr>) = (Inr (), s)" "m < length (uc_senders out)"
  shows "fold (association_send link m) ps out = (if ps = [] then out else out\<lparr>uc_next_id := sender_next_id s, uc_senders := (uc_senders out)[m := s]\<rparr>)"
  using assms
proof (induction ps arbitrary: out)
  case (Cons p ps)
  obtain r1 s1 where s1: "squic_send link p ((uc_senders out ! m)\<lparr>sender_next_id := uc_next_id out\<rparr>) = (r1, s1)" by fastforce
  then have r1: "r1 = Inr ()" "send_all link ps s1 = (Inr (), s)"
    using Cons.prems(1) by (auto split: sum.splits)
  let ?out = "association_send link m p out"
  have out: "?out = out\<lparr>uc_next_id := sender_next_id s1, uc_senders := (uc_senders out)[m := s1]\<rparr>"
    using s1 Cons.prems(2) by (simp add: association_send_def)
  then have "send_all link ps ((uc_senders ?out ! m)\<lparr>sender_next_id := uc_next_id ?out\<rparr>) = (Inr (), s)"
    using r1(2) Cons.prems(2) by simp
  from Cons.IH [OF this] show ?case
    using out r1(2) Cons.prems(2) by auto
qed simp

lemma client_sends:
  assumes "up_queues (cc_plane k) m \<noteq> None"
  shows "client_run link (map (\<lambda>p. ClientStep (AppSend m p)) ps) k =
    k\<lparr>cc_plane := (cc_plane k)\<lparr>up_out := fold (association_send link m) ps (up_out (cc_plane k))\<rparr>\<rparr>"
  using assms
proof (induction ps arbitrary: k)
  case (Cons p ps)
  then show ?case by (auto simp: client_run_Cons)
qed (simp add: client_run_Nil)


section \<open>Taking in announcements\<close>

lemma control_turn_frame:
  assumes "encodable a" "ctl_end c = None" "ctl_recv c = \<lparr>pending = control_frame a i @ rest, ending = e\<rparr>"
  shows "control_turn c reg = (c\<lparr>ctl_recv := \<lparr>pending = rest, ending = e\<rparr>, ctl_ids := ctl_ids c @ [i]\<rparr>, registry_register i (canonical a) (ctl_chan c) reg)"
proof -
  obtain bs where bs: "encode_address a = Inr bs"
    using assms(1) by (auto simp: encodable_def)
  show ?thesis
    using assms(2,3) by (simp add: control_turn_def control_step_def control_frame_def bs decode_encoded_address [OF bs] Let_def)
qed

definition plane_controlled :: "nat \<Rightarrow> udp_plane \<Rightarrow> udp_control \<Rightarrow> udp_registry \<Rightarrow> udp_plane" where
  "plane_controlled n p c reg = p\<lparr>up_controls := (up_controls p)[n := c], up_registry := reg\<rparr>"

lemma serve_control_steps:
  assumes "n < length (up_controls (sc_plane c))" "\<forall>a \<in> set as. encodable a" "ctl_end (up_controls (sc_plane c) ! n) = None"
    "ctl_recv (up_controls (sc_plane c) ! n) = \<lparr>pending = announcements i as @ rest, ending = e\<rparr>"
  shows "\<exists>ctl. serve_run env (replicate (length as) (PlaneStep (ControlStep n))) c =
      c\<lparr>sc_plane := plane_controlled n (sc_plane c) ctl
         (announced_routes (ctl_chan (up_controls (sc_plane c) ! n)) i as (up_registry (sc_plane c)))\<rparr> \<and>
    ctl_end ctl = None \<and> ctl_recv ctl = \<lparr>pending = rest, ending = e\<rparr> \<and> ctl_chan ctl = ctl_chan (up_controls (sc_plane c) ! n)"
  using assms(2,4)
proof (induction as arbitrary: rest rule: rev_induct)
  case Nil
  then show ?case
    using assms(1,3) by (intro exI [of _ "up_controls (sc_plane c) ! n"])
      (simp add: serve_run_def plane_controlled_def announced_routes_def announcements_def)
next
  case (snoc a as)
  let ?ch = "ctl_chan (up_controls (sc_plane c) ! n)"
  let ?reg = "announced_routes ?ch i as (up_registry (sc_plane c))"
  have "ctl_recv (up_controls (sc_plane c) ! n) = \<lparr>pending = announcements i as @ control_frame a (numbered i (length as)) @ rest, ending = e\<rparr>"
    using snoc.prems(2) by (simp add: announcements_snoc)
  with snoc.IH snoc.prems(1) obtain ctl where ctl: "serve_run env (replicate (length as) (PlaneStep (ControlStep n))) c =
      c\<lparr>sc_plane := plane_controlled n (sc_plane c) ctl ?reg\<rparr>" "ctl_end ctl = None"
      "ctl_recv ctl = \<lparr>pending = control_frame a (numbered i (length as)) @ rest, ending = e\<rparr>" "ctl_chan ctl = ?ch"
    by auto
  have "control_turn ctl ?reg = (ctl\<lparr>ctl_recv := \<lparr>pending = rest, ending = e\<rparr>, ctl_ids := ctl_ids ctl @ [numbered i (length as)]\<rparr>,
      announced_routes ?ch i (as @ [a]) (up_registry (sc_plane c)))"
    using control_turn_frame [OF _ ctl(2,3)] snoc.prems(1) ctl(4) by (simp add: announced_routes_snoc)
  moreover have "serve_run env (replicate (length (as @ [a])) (PlaneStep (ControlStep n))) c =
      serve_event env (PlaneStep (ControlStep n)) (serve_run env (replicate (length as) (PlaneStep (ControlStep n))) c)"
    by (simp add: serve_run_def fold_append [symmetric] replicate_append_same [symmetric] del: fold_append replicate.simps)
  ultimately show ?case
    using ctl assms(1)
    by (intro exI [of _ "ctl\<lparr>ctl_recv := \<lparr>pending = rest, ending = e\<rparr>, ctl_ids := ctl_ids ctl @ [numbered i (length as)]\<rparr>"])
      (simp add: plane_controlled_def)
qed


section \<open>Taking in datagrams\<close>

text \<open>A schedule that handles datagrams one after the other; the first gets task number \<open>t\<close>.\<close>

fun datagram_schedule :: "auth_wake \<Rightarrow> nat \<Rightarrow> bytes list \<Rightarrow> sq_event list" where
  "datagram_schedule woken t [] = []"
| "datagram_schedule woken t (d # ds) =
     Datagram woken d # PlaneStep (TaskStep t) # PlaneStep (TaskStep t) # datagram_schedule woken (Suc t) ds"

lemma serve_datagrams:
  assumes "deliver_all (up_registry (sc_plane c)) ds (up_queues (sc_plane c)) = Some (Inr q)"
    "wait_for_sunny_auth (sc_auth c) (sc_verdict c) woken = Some (Inr u)"
  shows "up_queues (sc_plane (serve_run env (datagram_schedule woken (length (up_tasks (sc_plane c))) ds) c)) = q"
  using assms
proof (induction ds arbitrary: c)
  case Nil
  then show ?case by (simp add: serve_run_def)
next
  case (Cons d ds)
  obtain q1 where q1: "handle_incoming_udp_datagram d (up_registry (sc_plane c)) (up_queues (sc_plane c)) = Some (Inr q1)"
      "deliver_all (up_registry (sc_plane c)) ds q1 = Some (Inr q)"
    using Cons.prems(1) by (auto split: option.splits sum.splits)
  let ?t = "length (up_tasks (sc_plane c))"
  let ?c = "c\<lparr>sc_plane := (sc_plane c)\<lparr>up_tasks := up_tasks (sc_plane c) @ [TaskEnded (Inr ())], up_queues := q1\<rparr>\<rparr>"
  have steps: "task_steps (Suc (Suc 0)) (up_registry (sc_plane c)) (datagram_task d, up_queues (sc_plane c)) = (TaskEnded (Inr ()), q1)"
    using datagram_task_handler(1) [of "up_registry (sc_plane c)" d "up_queues (sc_plane c)"] q1(1) by simp
  obtain t1 q0 where t1: "task_step (up_registry (sc_plane c)) (datagram_task d) (up_queues (sc_plane c)) = (t1, q0)" by fastforce
  with steps have t2: "task_step (up_registry (sc_plane c)) t1 q0 = (TaskEnded (Inr ()), q1)" by simp
  have "fold (serve_event env) [Datagram woken d, PlaneStep (TaskStep ?t), PlaneStep (TaskStep ?t)] c = ?c"
    using Cons.prems(2) t1 t2 by (simp add: handle_datagram_def plane_spawn_def)
  then have "serve_run env (datagram_schedule woken ?t (d # ds)) c =
      serve_run env (datagram_schedule woken (length (up_tasks (sc_plane ?c))) ds) ?c"
    by (simp add: serve_run_def)
  moreover have "up_queues (sc_plane (serve_run env (datagram_schedule woken (length (up_tasks (sc_plane ?c))) ds) ?c)) = q"
    by (rule Cons.IH) (use q1(2) Cons.prems(2) in simp_all)
  ultimately show ?case by simp
qed


section \<open>An association on both sides\<close>

lemma client_associate_Inr:
  assumes "client_associate ops alive dials (Inr (fresh_writer, r)) dest over_stream cl h = (Inr (n, m), cl', h')"
  obtains k0 :: client_connection and addr where "encode_address dest = Inr addr" "m = length (uc_senders (up_out (cc_plane k0)))"
    "client_connections cl' n = Some (k0\<lparr>cc_plane := plane_associate (if over_stream then StreamMode else DatagramMode)
       \<lparr>written = (if over_stream then SQ_ASSOCIATE_OVER_STREAM else SQ_ASSOCIATE_OVER_DATAGRAM) # addr, room = None\<rparr> r (cc_plane k0)\<rparr>)"
proof -
  obtain c1 h1 where state: "connection_state ops alive dials cl h = (Inr n, c1, h1)"
    using assms by (auto simp: client_associate_def result_iffs split: prod.splits sum.splits option.splits)
  obtain addr where addr: "encode_address dest = Inr addr"
    using assms state by (cases "encode_address dest") (auto simp: client_associate_def quic_write_all_def result_iffs split: if_splits)
  obtain k0 where "client_connections c1 n = Some k0"
    using assms state by (auto simp: client_associate_def result_iffs split: prod.splits sum.splits option.splits)
  with assms state addr show ?thesis
    by (intro that [of addr k0])
      (auto simp: client_associate_def quic_write_all_def accepts_def fresh_writer_def emit_def split: option.splits)
qed

lemma client_association_sends:
  assumes "client_associate ops alive dials (Inr (fresh_writer, r)) dest False cl h = (Inr (n, m), cl', h')"
    "client_connections cl' n = Some k" "link_open link" "\<forall>p \<in> set ps. encodable (sq_destination p)"
  obtains addr i as s where "encode_address dest = Inr addr"
    "uc_senders (up_out (cc_plane (client_run link (map (\<lambda>p. ClientStep (AppSend m p)) ps) k))) ! m = s"
    "sender_inv (SQ_ASSOCIATE_OVER_DATAGRAM # addr) i as ps s" "set as = sq_destination ` set ps"
proof -
  obtain k0 :: client_connection and addr where k: "encode_address dest = Inr addr" "m = length (uc_senders (up_out (cc_plane k0)))"
      "cc_plane k = plane_associate DatagramMode \<lparr>written = SQ_ASSOCIATE_OVER_DATAGRAM # addr, room = None\<rparr> r (cc_plane k0)"
  proof (rule client_associate_Inr [OF assms(1)])
    fix k0 :: client_connection and addr
    assume "encode_address dest = Inr addr" "m = length (uc_senders (up_out (cc_plane k0)))"
      "client_connections cl' n = Some (k0\<lparr>cc_plane := plane_associate (if False then StreamMode else DatagramMode)
       \<lparr>written = (if False then SQ_ASSOCIATE_OVER_STREAM else SQ_ASSOCIATE_OVER_DATAGRAM) # addr, room = None\<rparr> r (cc_plane k0)\<rparr>)"
    then show thesis using assms(2) by (intro that [of addr k0]) auto
  qed
  let ?pre = "SQ_ASSOCIATE_OVER_DATAGRAM # addr" and ?out = "up_out (cc_plane k)" and ?i = "uc_next_id (up_out (cc_plane k0))"
  have m: "m < length (uc_senders ?out)" "up_queues (cc_plane k) m \<noteq> None" "uc_senders ?out ! m = sender_after ?pre ?i" "uc_next_id ?out = ?i"
    using k by (simp_all add: plane_associate_def add_association_def Let_def sender_after_def fresh_sender_def)
  then have same: "(uc_senders ?out ! m)\<lparr>sender_next_id := uc_next_id ?out\<rparr> = sender_after ?pre ?i"
    by (simp add: sender_after_def fresh_sender_def)
  obtain s as where s: "send_all link ps (sender_after ?pre ?i) = (Inr (), s)" "sender_inv ?pre ?i as ps s" "set as = sq_destination ` set ps"
    using send_all_inv [OF sender_inv_after assms(3,4), of ?pre ?i] by auto
  have "uc_senders (fold (association_send link m) ps ?out) ! m = s"
    using association_send_all [OF s(1) [folded same] m(1)] m(1,3) s(1) by auto
  then show ?thesis
    using client_sends [OF m(2), of link ps] s(2,3) k(1) by (intro that [of addr s ?i as]) simp_all
qed

lemma server_association_receives:
  assumes "encode_address dest = Inr addr" "sender_inv (SQ_ASSOCIATE_OVER_DATAGRAM # addr) i as ps s" "length as \<le> 65536"
    "set js \<subseteq> {..<length ps}" "length js \<le> UDP_CAPACITY"
    "wait_for_sunny_auth (sc_auth c) (sc_verdict c) woken = Some (Inr u)" "\<not> sc_app_gone c" "plane_inv (sc_plane c)"
  defines "ch \<equiv> length (up_controls (sc_plane c))"
  defines "evs \<equiv> replicate (length as) (PlaneStep (ControlStep ch)) @
      datagram_schedule woken (length (up_tasks (sc_plane c))) (map (\<lambda>j. datagrams s ! j) js)"
  obtains c1 where "handle_bi_stream env woken c w \<lparr>pending = written (control s), ending = e\<rparr> = (Running, c1)"
    "sc_accepted c1 = sc_accepted c @ [AcceptedPacket (canonical dest) (request_user c u) (sc_source c) ch]"
    "up_queues (sc_plane (serve_run env evs c1)) ch = Some (map (\<lambda>j. received_as (ps ! j)) js)"
proof -
  let ?p = "sc_plane c"
  let ?c1 = "c\<lparr>sc_accepted := sc_accepted c @ [AcceptedPacket (canonical dest) (request_user c u) (sc_source c) ch],
      sc_plane := plane_associate DatagramMode w \<lparr>pending = announcements i as, ending = e\<rparr> ?p\<rparr>"
  have inv: "control s = \<lparr>written = SQ_ASSOCIATE_OVER_DATAGRAM # addr @ announcements i as, room = None\<rparr>" "\<forall>a \<in> set as. encodable a"
      "list_all2 (sent_as i as) ps (datagrams s)"
    using assms(2) by (simp_all add: sender_inv_def)
  have len: "length (uc_senders (up_out ?p)) = ch"
    using assms(8) by (simp add: plane_inv_def ch_def)
  have c1: "handle_bi_stream env woken c w \<lparr>pending = written (control s), ending = e\<rparr> = (Running, ?c1)"
    using assms(6,7) decode_encoded_address [OF assms(1), of "announcements i as" e] len
    by (simp add: inv(1) handle_bi_stream_def handle_associate_def sq_codes send_accepted_def)
  have p1: "ch < length (up_controls (sc_plane ?c1))" "ctl_end (up_controls (sc_plane ?c1) ! ch) = None"
      "ctl_recv (up_controls (sc_plane ?c1) ! ch) = \<lparr>pending = announcements i as @ [], ending = e\<rparr>"
      "ctl_chan (up_controls (sc_plane ?c1) ! ch) = ch" "up_queues (sc_plane ?c1) ch = Some []"
      "up_tasks (sc_plane ?c1) = up_tasks ?p" "up_registry (sc_plane ?c1) = up_registry ?p"
    using len by (simp_all add: plane_associate_def Let_def ch_def)
  let ?c2 = "serve_run env (replicate (length as) (PlaneStep (ControlStep ch))) ?c1"
  obtain ctl where c2: "?c2 = ?c1\<lparr>sc_plane := plane_controlled ch (sc_plane ?c1) ctl (announced_routes ch i as (up_registry ?p))\<rparr>"
    using serve_control_steps [OF p1(1) inv(2) p1(2,3), of env] p1(4,7) by auto
  have "list_all2 (sent_as i as) (map (\<lambda>j. ps ! j) js) (map (\<lambda>j. datagrams s ! j) js)"
    using inv(3) assms(4) by (auto simp: list_all2_conv_all_nth dest: nth_mem)
  from deliver_all_sent [where ch = ch and reg = "up_registry ?p" and q = "up_queues (sc_plane ?c1)", OF assms(3) this p1(5)] assms(5)
  have "deliver_all (up_registry (sc_plane ?c2)) (map (\<lambda>j. datagrams s ! j) js) (up_queues (sc_plane ?c2)) =
      Some (Inr ((up_queues (sc_plane ?c1))(ch \<mapsto> map (\<lambda>j. received_as (ps ! j)) js)))"
    by (simp add: c2 plane_controlled_def comp_def)
  from serve_datagrams [OF this, of woken u env] assms(6)
  have "up_queues (sc_plane (serve_run env (datagram_schedule woken (length (up_tasks ?p)) (map (\<lambda>j. datagrams s ! j) js)) ?c2)) ch =
      Some (map (\<lambda>j. received_as (ps ! j)) js)"
    using p1(6) by (simp add: c2 plane_controlled_def)
  then show ?thesis
    using c1 by (intro that [of ?c1]) (simp_all add: evs_def serve_run_def)
qed


section \<open>The UDP state of a served connection\<close>

lemma serve_event_plane:
  "sc_plane (serve_event env ev c) = sc_plane c \<or> (\<exists>a. sc_plane (serve_event env ev c) = plane_act (env_link env) a (sc_plane c))"
proof -
  let ?P = "\<lambda>d. sc_plane d = sc_plane c \<or> (\<exists>a. sc_plane d = plane_act (env_link env) a (sc_plane c))"
  have act: "?P (c\<lparr>sc_plane := plane_act (env_link env) a (sc_plane c)\<rparr>)" for a by auto
  have keep: "sc_plane d = sc_plane c" if "send_accepted x c = Inr d" for x d
    using that by (auto simp: send_accepted_def split: if_splits)
  have auth: "?P (snd (handle_authenticate c r))" for r
    by (simp add: handle_authenticate_def split: server_authentication.splits sum.splits prod.splits option.splits)
  have conn: "?P (snd (handle_connect woken c w r))" for woken w r
    using keep by (auto simp: handle_connect_def split: sum.splits prod.splits option.splits)
  have assoc: "?P (snd (handle_associate mode woken c w r))" for mode woken w r
  proof (cases "\<exists>d r'. snd (handle_associate mode woken c w r) = d\<lparr>sc_plane := plane_associate mode w r' (sc_plane c)\<rparr>")
    case True
    then obtain d r' where "snd (handle_associate mode woken c w r) = d\<lparr>sc_plane := plane_associate mode w r' (sc_plane c)\<rparr>" by blast
    then show ?thesis by (intro disjI2 exI [of _ "OpenAssociation mode w r'"]) simp
  next
    case False
    then show ?thesis using keep by (auto simp: handle_associate_def split: sum.splits prod.splits option.splits)
  qed
  show ?thesis
  proof (cases ev)
    case (BiStream woken w r)
    then show ?thesis
      using auth conn assoc by (auto simp: handle_bi_stream_def Let_def split: sum.splits prod.splits option.splits)
  next
    case (UniStream woken r)
    then show ?thesis using act [of "ReceiveStream r"] by (auto simp: handle_uni_stream_def split: sum.splits option.splits)
  next
    case (Datagram woken d)
    then show ?thesis using act [of "ReceiveDatagram d"] by (auto simp: handle_datagram_def split: sum.splits option.splits)
  next
    case (PlaneStep pe)
    then show ?thesis using act [of "Step pe"] by auto
  next
    case ConnectionLost
    then show ?thesis using act [of CloseRegistry] by auto
  qed simp
qed

lemma serve_run_plane_inv: "plane_inv (sc_plane c) \<Longrightarrow> plane_inv (sc_plane (serve_run env evs c))"
proof (induction evs arbitrary: c)
  case (Cons ev evs)
  then show ?case
    using serve_event_plane [of env ev c] plane_inv_act [OF Cons.prems, of "env_link env"] by (auto simp: serve_run_def)
qed (simp add: serve_run_def)

text \<open>
  (C20) The end of an association, in every state a server's connection can reach: once its control
  stream has ended no route leads to it any more; \<open>recv\<close> hands out what is waiting (at most 256 packets),
  oldest first, and after that reports \<open>Closed\<close> exactly when the control stream has ended and no task
  that had got its route is still delivering; otherwise it waits.
\<close>

theorem association_end:
  assumes "serve_start source auth hs cc = Inr (c0, rate)" "p = sc_plane (serve_run env evs c0)" "up_queues p n = Some ps"
  shows "n < length (up_controls p) \<and> length ps \<le> 256 \<and>
    (ctl_end (up_controls p ! n) \<noteq> None \<longrightarrow> (\<forall>i route. routes (up_registry p) i = Some route \<longrightarrow> route_sender route \<noteq> n)) \<and>
    fst (plane_recv n p) = (case ps of
        x # _ \<Rightarrow> Some (Inr x)
      | [] \<Rightarrow> if ctl_end (up_controls p ! n) \<noteq> None \<and> (\<forall>route x. Routed route x \<in> set (up_tasks p) \<longrightarrow> route_sender route \<noteq> n)
               then Some (Inl Closed) else None)"
proof -
  have "plane_inv (sc_plane c0)"
    using assms(1) plane_inv_new by (auto simp: serve_start_def result_iffs)
  then have inv: "plane_inv p"
    unfolding assms(2) by (rule serve_run_plane_inv)
  have n: "n < length (up_controls p)" "length ps \<le> 256"
    using inv assms(3) by (auto simp: plane_inv_def queues_ok_def UDP_CAPACITY_def)
  have routes: "route_sender route \<noteq> n" if "ctl_end (up_controls p ! n) \<noteq> None" "routes (up_registry p) i = Some route" for i route
    using inv that unfolding plane_inv_def routes_live_def by metis
  have "(\<forall>c \<in> set (up_controls p). ctl_chan c = n \<longrightarrow> ctl_end c \<noteq> None) \<longleftrightarrow> ctl_end (up_controls p ! n) \<noteq> None"
    using inv n(1) unfolding plane_inv_def by (metis in_set_conv_nth)
  then have "senders_gone n p \<longleftrightarrow> ctl_end (up_controls p ! n) \<noteq> None \<and> (\<forall>route x. Routed route x \<in> set (up_tasks p) \<longrightarrow> route_sender route \<noteq> n)"
    using routes unfolding senders_gone_def by metis
  then show ?thesis
    using n routes assms(3) by (auto simp: plane_recv_def squic_recv_def split: list.splits)
qed

definition ended_association :: "sq_event list" where
  "ended_association = [BiStream NoWake fresh_writer \<lparr>pending = [SQ_ASSOCIATE_OVER_DATAGRAM, SQ_DOMAIN, 1, 97, 0, 80], ending = Finished\<rparr>,
     PlaneStep (ControlStep 0)]"

theorem association_end_witness:
  "\<exists>c0. serve_start \<lparr>ip = V4 0, sport = 1\<rparr> JlsAuth (Some (Some \<lparr>jls_authenticated = Some True, jls_user = None\<rparr>)) (Some Bbr) = Inr (c0, 0) \<and>
     fst (plane_recv 0 (sc_plane (serve_run demo_env ended_association c0))) = Some (Inl Closed)"
proof -
  let ?c0 = "\<lparr>sc_source = \<lparr>ip = V4 0, sport = 1\<rparr>, sc_auth = JlsAuth, sc_user = [], sc_verdict = None, sc_accepted = [],
      sc_app_gone = False, sc_plane = plane_new, sc_close = None\<rparr>"
  have c0: "serve_start \<lparr>ip = V4 0, sport = 1\<rparr> JlsAuth (Some (Some \<lparr>jls_authenticated = Some True, jls_user = None\<rparr>)) (Some Bbr) = Inr (?c0, 0)"
    by (simp add: serve_start_def connection_user_def)
  have dec: "decode_address \<lparr>pending = [SQ_DOMAIN, 1, 97, 0, 80], ending = Finished\<rparr> =
      Inr (\<lparr>host = ''a'', port = 80\<rparr>, \<lparr>pending = [], ending = Finished\<rparr>)"
    by code_simp
  let ?p = "sc_plane (serve_run demo_env ended_association ?c0)"
  have p: "up_queues ?p 0 = Some []" "up_tasks ?p = []" "ctl_end (up_controls ?p ! 0) \<noteq> None"
    using dec
    by (simp_all add: serve_run_def ended_association_def handle_bi_stream_def sq_codes handle_associate_def wait_for_sunny_auth_def
        send_accepted_def plane_new_def plane_associate_def udp_connection_new_def add_association_def control_turn_def control_step_def
        decode_address_def [of "\<lparr>pending = [], ending = Finished\<rparr>"] quic_read_exact_def [of _ "\<lparr>pending = [], ending = Finished\<rparr>"] Let_def)
  from association_end [OF c0 refl p(1)] c0 p(2,3) show ?thesis by simp
qed

end
