(* ===== verification/Unit_Tests.thy ===== *)
theory Unit_Tests
  imports Hy2_Client Hy2_Session Hy2_Endpoint Squic_Session
begin

text \<open>
  The crate's unit tests, replayed on the model: one definition per test function, with the inputs and
  the assertions of the test, and a lemma that the model passes it. They tie the definitions of this
  development to the expectations the authors wrote down. A failing \<open>unwrap\<close> fails the test.
\<close>

definition unwrap_then :: "'e + 'a \<Rightarrow> ('a \<Rightarrow> bool) \<Rightarrow> bool" where
  "unwrap_then r f = (case r of Inl _ \<Rightarrow> False | Inr x \<Rightarrow> f x)"

lemma unwrap_then_simps [simp]: "unwrap_then (Inr x) f = f x" "unwrap_then (Inl e) f = False"
  by (simp_all add: unwrap_then_def)


section \<open>Integers, addresses, windows and controllers\<close>

definition round_trip_boundaries :: bool where
  "round_trip_boundaries \<longleftrightarrow>
     list_all (\<lambda>value. unwrap_then (varint_encode value) (\<lambda>encoded.
         unwrap_then (varint_read \<lparr>pending = encoded, ending = Finished\<rparr>) (\<lambda>(v, _). v = value)))
       [0, 63, 64, 16383, 16384, 1073741823, VARINT_MAX] \<and>
     unwrap_then (varint_encode 0x401) (\<lambda>encoded. encoded = [0x44, 0x01])"

lemma round_trip_boundaries_passes: round_trip_boundaries
  by code_simp

definition authority_round_trip :: bool where
  "authority_round_trip \<longleftrightarrow>
     list_all (\<lambda>address. unwrap_then address (\<lambda>a. unwrap_then (address_from_str (address_to_string a)) (\<lambda>b. b = a)))
       [address_new ''example.com'' 443, address_new ''2001:db8::1'' 8443]"

lemma show_test_ipv6: "show_ip (V6 (from_be_bytes [0x20, 0x01, 0x0d, 0xb8, 0, 0, 0, 0, 0, 0, 0, 0, 0, 0, 0, 1])) = ''2001:db8::1''"
proof -
  let ?bs = "[0x20, 0x01, 0x0d, 0xb8, 0, 0, 0, 0, 0, 0, 0, 0, 0, 0, 0, 1] :: bytes"
  have bytes: "to_be_bytes (from_be_bytes ?bs :: 128 word) = ?bs"
    by (rule to_from_be_bytes) simp
  have "seg_pairs ?bs = [0x2001, 0xdb8, 0, 0, 0, 0, 0, 1]" by code_simp
  moreover have "map (show_radix 16) [0x2001, 0xdb8, 1] = [''2001'', ''db8'', ''1'']" by (simp add: show_radix.simps digit_char_def char_of_def bit_0)
  ultimately show ?thesis
    by (simp add: show_ipv6_def to_ipv4_mapped_def segments_def bytes fmt_subslice_def Let_def)
qed

lemma authority_round_trip_passes: authority_round_trip
proof -
  have "normal_host ''2001:db8::1''"
    using normal_host_show_ip show_test_ipv6 by metis
  moreover have "normal_host ''example.com''" by (simp add: normal_host_def bracketed_def)
  ultimately show ?thesis
    by (simp add: authority_round_trip_def address_new_def address_from_to_string)
qed

definition flow_control_window_tracks_bandwidth_delay_product :: bool where
  "flow_control_window_tracks_bandwidth_delay_product \<longleftrightarrow>
     adaptive_window 125000000 (100 * 1000000) 1 = 25000000 \<and>
     adaptive_window 12500000 (100 * 1000000) 20971520 = 20971520"

lemma flow_control_window_tracks_bandwidth_delay_product_passes: flow_control_window_tracks_bandwidth_delay_product
  by (simp add: flow_control_window_tracks_bandwidth_delay_product_def adaptive_window_def saturating_mul_def WINDOW_HEADROOM_def Let_def)

definition bbr_is_the_default_controller :: "('c, 'r, 'p, 'm) controller_ops \<Rightarrow> nat \<Rightarrow> bool" where
  "bbr_is_the_default_controller ops now = (case factory_build ops now 1200 0 Map.empty of
       (Switchable l, h) \<Rightarrow>
         (case h l of
            None \<Rightarrow> False
          | Some st \<Rightarrow>
              (let brutal = set_brutal ops now 1000000 (100 * 1000000) False st; bbr = set_bbr ops now brutal
               in kind st = Bbr \<and> kind brutal = Brutal 1000000 \<and> kind bbr = Bbr))
     | _ \<Rightarrow> False)"

lemma bbr_is_the_default_controller_passes: "bbr_is_the_default_controller ops now"
  by (simp add: bbr_is_the_default_controller_def factory_build_def set_brutal_def set_bbr_def Let_def)

definition uses_official_hysteria2_flow_control_windows :: "transport_config \<Rightarrow> bool" where
  "uses_official_hysteria2_flow_control_windows defaults \<longleftrightarrow>
     STREAM_RECEIVE_WINDOW = 8388608 \<and> CONNECTION_RECEIVE_WINDOW = 20971520 \<and> unat SEND_WINDOW \<ge> unat CONNECTION_RECEIVE_WINDOW \<and>
     (let _ = base_transport_config defaults quic_transport_options_default;
          _ = base_transport_config defaults \<lparr>initial_packet_size = 1200, disable_path_mtu_discovery = True\<rparr>
      in True)"

lemma uses_official_hysteria2_flow_control_windows_passes: "uses_official_hysteria2_flow_control_windows defaults"
  by (simp add: uses_official_hysteria2_flow_control_windows_def STREAM_RECEIVE_WINDOW_def CONNECTION_RECEIVE_WINDOW_def SEND_WINDOW_def)

text \<open>
  Two tests need what Linux does: it gives a socket bound to port 0 a free port, and lets an IPv6 socket
  be made dual-stack.
\<close>

definition binds_tuned_udp_endpoint :: "os_calls \<Rightarrow> bool" where
  "binds_tuned_udp_endpoint os = (case fst (bind_endpoint os \<lparr>ip = V4 0x7f000001, sport = 0\<rparr> None) of
       Inl e \<Rightarrow> False
     | Inr ep \<Rightarrow> unwrap_then (endpoint_local_addr os ep) (\<lambda>a. sport a \<noteq> 0) \<and> \<not> endpoint_open (endpoint_close ep))"

definition ipv6_unspecified_socket_is_explicitly_dual_stack :: "os_calls \<Rightarrow> bool" where
  "ipv6_unspecified_socket_is_explicitly_dual_stack os = (case bind_udp_socket os \<lparr>ip = V6 0, sport = 0\<rparr> of
       (Inl e, _) \<Rightarrow> False
     | (Inr _, ops, logs) \<Rightarrow> SetOnlyV6 False \<in> set ops \<and> logs = [])"

definition linux_os :: "u16 \<Rightarrow> os_calls" where
  "linux_os free_port = plain_os\<lparr>os_only_v6 := \<lambda>_. None,
     os_local_addr := \<lambda>a. Inr (if sport a = 0 then a\<lparr>sport := free_port\<rparr> else a)\<rparr>"

lemma binds_tuned_udp_endpoint_passes: "p \<noteq> 0 \<Longrightarrow> binds_tuned_udp_endpoint (linux_os p)"
  by (simp add: binds_tuned_udp_endpoint_def linux_os_def plain_os_def bind_endpoint_def bind_udp_socket_def
      tune_udp_socket_def endpoint_local_addr_def endpoint_close_def Let_def split: prod.splits)

lemma ipv6_unspecified_socket_is_explicitly_dual_stack_passes: "ipv6_unspecified_socket_is_explicitly_dual_stack (linux_os p)"
  by (simp add: ipv6_unspecified_socket_is_explicitly_dual_stack_def linux_os_def plain_os_def bind_udp_socket_def Let_def)


section \<open>Wire formats\<close>

definition official_udp_message_round_trip :: bool where
  "official_udp_message_round_trip \<longleftrightarrow>
     (let addr = ''1.1.1.1:53''
      in unwrap_then (varint_encode (word_of_nat (length addr))) (\<lambda>address_length.
         unwrap_then (decode_message (encode_message 9 7 0 1 addr address_length (as_bytes ''query''))) (\<lambda>message.
           session_id message = 9 \<and> packet_id message = 7 \<and>
           Inr (msg_destination message) = address_new ''1.1.1.1'' 53 \<and> msg_data message = as_bytes ''query'')))"

lemma official_udp_message_round_trip_passes: official_udp_message_round_trip
proof -
  let ?a = "\<lparr>host = ''1.1.1.1'', port = 53\<rparr>"
  have addr: "address_to_string ?a = ''1.1.1.1:53''" by code_simp
  have "address_from_str (address_to_string ?a) = Inr ?a"
    by (rule address_from_to_string) (simp add: normal_host_def bracketed_def)
  moreover have "utf8_string ''1.1.1.1:53''"
    by (rule ascii_utf8_string) (simp add: is_ascii_def byte_of_char_def)
  moreover have "varint_encode 10 = Inr (qv_encode (length ''1.1.1.1:53''))"
    using varint_encode_small [of "length ''1.1.1.1:53''"] by simp
  ultimately show ?thesis
    using decode_encode_message [of "''1.1.1.1:53''" 9 7 0 1 "as_bytes ''query''"] addr
    by (simp add: official_udp_message_round_trip_def address_new_def MAX_ADDRESS_LENGTH_def)
qed

definition official_udp_fragments_reassemble_in_order :: "nat \<Rightarrow> nat \<Rightarrow> bool" where
  "official_udp_fragments_reassemble_in_order now now' =
     unwrap_then (address_new ''dns.example'' 53) (\<lambda>dest.
       let (first, d) = feed now Map.empty \<lparr>session_id = 1, packet_id = 2, fragment_id = 1, fragment_total = 2,
             msg_destination = dest, msg_data = as_bytes ''two''\<rparr>;
           (second, d) = feed now' d \<lparr>session_id = 1, packet_id = 2, fragment_id = 0, fragment_total = 2,
             msg_destination = dest, msg_data = as_bytes ''one''\<rparr>
       in first = Inr None \<and>
          (case second of
             Inr (Some packet) \<Rightarrow> destination packet = dest \<and> data packet = as_bytes ''onetwo''
           | _ \<Rightarrow> False))"

lemma official_udp_fragments_reassemble_in_order_passes:
  assumes "now \<le> now'" "now' \<le> now + FRAGMENT_LIFETIME"
  shows "official_udp_fragments_reassemble_in_order now now'"
proof -
  let ?a = "\<lparr>host = ''dns.example'', port = 53\<rparr>"
  let ?half = "\<lparr>updated_at = now, set_destination = ?a, parts = [None, Some (as_bytes ''two'')], received = 1\<rparr>"
  have "feed now Map.empty \<lparr>session_id = 1, packet_id = 2, fragment_id = 1, fragment_total = 2,
      msg_destination = ?a, msg_data = as_bytes ''two''\<rparr> = (Inr None, [2 \<mapsto> ?half])"
    by (auto simp: feed_def entry_set_def retain_fresh_def new_fragment_set_def place_fragment_def upt_rec word_le_nat_alt Let_def)
  moreover have "retain_fresh now' [2 \<mapsto> ?half] = [2 \<mapsto> ?half]"
    using assms by (auto simp: retain_fresh_def fun_eq_iff)
  then have "fst (feed now' [2 \<mapsto> ?half] \<lparr>session_id = 1, packet_id = 2, fragment_id = 0, fragment_total = 2,
      msg_destination = ?a, msg_data = as_bytes ''one''\<rparr>) = Inr (Some \<lparr>data = as_bytes ''onetwo'', destination = ?a\<rparr>)"
    by (simp add: feed_def entry_set_def place_fragment_def assemble_def MAX_UDP_SIZE_def as_bytes_def word_le_nat_alt Let_def)
  ultimately show ?thesis
    by (auto simp: official_udp_fragments_reassemble_in_order_def address_new_def split: prod.splits)
qed

definition congestion_receive_header_round_trip :: "(string \<Rightarrow> string option) \<Rightarrow> bool" where
  "congestion_receive_header_round_trip to_str \<longleftrightarrow>
     list_all (\<lambda>value. parse_congestion_receive to_str (Some (congestion_receive_value value)) = value)
       [Auto, Rate 0, Rate 12500000] \<and>
     parse_congestion_receive to_str (Some ''invalid'') = Rate 0"

lemma congestion_receive_header_round_trip_passes:
  assumes "\<forall>s. to_str s = Some s"
  shows "congestion_receive_header_round_trip to_str"
proof -
  have "parse_congestion_receive to_str (Some ''invalid'') = Rate 0"
    using assms by (simp add: parse_congestion_receive_def parse_uint_def to_digit_def)
  moreover have "parse_congestion_receive to_str (Some (congestion_receive_value v)) = v" for v
    by (rule parse_congestion_receive_value) (simp add: assms)
  ultimately show ?thesis
    by (simp add: congestion_receive_header_round_trip_def)
qed

definition matches_official_server_send_rate_negotiation :: bool where
  "matches_official_server_send_rate_negotiation \<longleftrightarrow>
     (let normal = server_bandwidth_default\<lparr>server_send_bps := 125000000, server_receive_bps := 125000000\<rparr>;
          automatic = server_bandwidth_default\<lparr>server_send_bps := 125000000, server_receive_bps := 0, ignore_client_bandwidth := True\<rparr>
      in server_send_rate normal (Rate 12500000) = Some 12500000 \<and> server_send_rate normal (Rate 250000000) = Some 125000000 \<and>
         server_send_rate normal (Rate 0) = None \<and> server_send_rate automatic (Rate 12500000) = None)"

lemma matches_official_server_send_rate_negotiation_passes: matches_official_server_send_rate_negotiation
  by (simp add: matches_official_server_send_rate_negotiation_def server_send_rate_def server_bandwidth_default_def Let_def)

definition shadowquic_address_frames_match_socks5_encoding :: bool where
  "shadowquic_address_frames_match_socks5_encoding \<longleftrightarrow>
     unwrap_then (address_new ''example.com'' 443) (\<lambda>dest.
     unwrap_then (encode_connect dest) (\<lambda>frame.
       take 4 frame = [SQ_CONNECT, SQ_DOMAIN, 11, byte_of_char CHR ''e''] \<and> drop 14 frame = to_be_bytes (443 :: u16)))"

text \<open>\<open>example.com\<close> is not an IP address: it starts with a hexadecimal digit, but no group follows.\<close>

lemma example_com_domain: "parse_ip ''example.com'' = None"
proof -
  have v4: "read_ipv4 ''example.com'' = None"
    by (simp_all add: read_ipv4_def numeral_eq_Suc read_sep_def read_number_def is_digit_def to_digit_def)
  have group: "read_number 16 (Some 4) True 65536 ''example.com'' = Some (14, ''xample.com'')"
    by (simp add: read_number_def is_digit_def to_digit_def digits_val_def)
  have "read_groups (Suc (Suc 6)) 0 ''example.com'' = ([14], False, ''xample.com'')"
    unfolding read_groups.simps by (simp add: read_sep_def v4 group read_given_def)
  then have groups: "read_groups 8 0 ''example.com'' = ([14], False, ''xample.com'')" by simp
  show ?thesis
    by (simp add: parse_ip_def parse_with_def read_ip_def read_ipv6_def v4 groups read_given_def)
qed

lemma shadowquic_address_frames_match_socks5_encoding_passes: shadowquic_address_frames_match_socks5_encoding
  by (simp add: shadowquic_address_frames_match_socks5_encoding_def address_new_def encode_connect_def encode_address_def
      example_com_domain is_ascii_def as_bytes_def byte_of_char_def MAX_DOMAIN_LENGTH_def)

text \<open>SHA-256 is a parameter: the test fixes its digest of one message.\<close>

definition upstream_digest :: bytes where
  "upstream_digest = [0x3d, 0x11, 0xdc, 0x47, 0x9c, 0x08, 0xe3, 0xb3, 0x68, 0x77, 0x31, 0x03, 0xd6, 0x47,
     0x66, 0xc2, 0xe4, 0x20, 0xce, 0x39, 0x72, 0x79, 0x32, 0xfc, 0xf2, 0xd8, 0xf4, 0xd9, 0xd5, 0x99, 0xbe, 0x59]"

definition sunnyquic_uses_the_upstream_64_byte_credential_shape :: "(bytes \<Rightarrow> bytes) \<Rightarrow> bool" where
  "sunnyquic_uses_the_upstream_64_byte_credential_shape sha256 \<longleftrightarrow>
     (let credential = sunny_credential sha256 ''alice'' ''secret''
      in take 32 credential = upstream_digest \<and> list_all (\<lambda>byte. byte = 0) (drop 32 credential))"

lemma sunnyquic_uses_the_upstream_64_byte_credential_shape_passes:
  "sha256 (as_bytes ''alice:secret'') = upstream_digest \<Longrightarrow> sunnyquic_uses_the_upstream_64_byte_credential_shape sha256"
  by (simp add: sunnyquic_uses_the_upstream_64_byte_credential_shape_def sunny_credential_def upstream_digest_def list_all_iff)

end
