(* ===== verification/Hy2_Tests.thy ===== *)
theory Hy2_Tests
  imports Unit_Tests
begin

text \<open>
  The integration tests of \<open>src/src/hysteria2/server.rs\<close>: a server and a client of this crate on one machine,
  replayed on the model with the two connected through what HTTP/3, the streams and the datagrams
  carry. The certificate the tests generate, the operating system, TLS and the controllers are
  parameters; timeouts of the tests are left out.
\<close>

section \<open>The bench\<close>

record ('c, 'r, 'p, 'm) hy2_bench =
  bench_lib :: tls_library
  bench_os :: os_calls
  bench_ops :: "('c, 'r, 'p, 'm) controller_ops"
  bench_rng :: rng
  bench_certificate :: bytes
  bench_key :: bytes

definition test_options :: "('c, 'r, 'p, 'm) hy2_bench \<Rightarrow> socket_addr \<Rightarrow> hy2_server_options" where
  "test_options b listen =
     \<lparr>hso_listen = listen, hso_certificate_chain = [bench_certificate b], hso_private_key = bench_key b,
      hso_users = [\<lparr>hy2_name = ''alice'', hy2_password = ''secret''\<rparr>]\<rparr>"

definition test_client_options :: "('c, 'r, 'p, 'm) hy2_bench \<Rightarrow> socket_addr \<Rightarrow> string \<Rightarrow> hy2_client_options" where
  "test_client_options b server password =
     \<lparr>hco_server = server, hco_server_name = ''localhost'', hco_password = password, hco_ca_certificates = [bench_certificate b]\<rparr>"

definition localhost :: socket_addr where
  "localhost = \<lparr>ip = V4 0x7f000001, sport = 0\<rparr>"

text \<open>Each end of the QUIC connection has a controller from the crate's factory.\<close>

definition bench_connection :: "'c cc_connection" where
  "bench_connection = \<lparr>cc_controller = Switchable 0, cc_rtt = 1\<rparr>"

definition bench_heap :: "('c, 'r, 'p, 'm) hy2_bench \<Rightarrow> 'c cc_heap" where
  "bench_heap b = snd (factory_build (bench_ops b) 0 1200 0 Map.empty)"

definition bench_incoming :: "('c, 'r, 'p, 'm) hy2_bench \<Rightarrow> socket_addr \<Rightarrow> 'c hy2_incoming" where
  "bench_incoming b source =
     \<lparr>hinc_error = None, hinc_connection = bench_connection, hinc_heap = bench_heap b, hinc_source = source,
      hinc_rng = bench_rng b, hinc_respond = (\<lambda>_. None)\<rparr>"

definition bench_step :: "('c, 'r, 'p, 'm) hy2_bench \<Rightarrow> hy2_server \<Rightarrow> socket_addr \<Rightarrow> hy2_event \<Rightarrow> 'c hy2_connection \<Rightarrow> 'c hy2_connection" where
  "bench_step b s source = hy2_connection_step (bench_ops b) Some s (bench_incoming b source)"

text \<open>The server's connection after the client's authentication request, and what the client sees of it.\<close>

definition bench_login :: "('c, 'r, 'p, 'm) hy2_bench \<Rightarrow> hy2_server \<Rightarrow> socket_addr \<Rightarrow> hy2_client \<Rightarrow> 'c hy2_connection" where
  "bench_login b s source cl =
     bench_step b s source (Request 0 (auth_request (bench_rng b) (hco_password (hy2c_options cl)) (hy2c_bandwidth cl)) (open_h3 []))
       (hy2_init (bench_heap b))"

definition bench_dial :: "('c, 'r, 'p, 'm) hy2_bench \<Rightarrow> 'c hy2_connection \<Rightarrow> 'c hy2_dial" where
  "bench_dial b c =
     \<lparr>hd_connect = None, hd_handshake = None, hd_connection = bench_connection, hd_h3 = None,
      hd_exchange = (\<lambda>_. case h3_answer c of Some r \<Rightarrow> Inr r | None \<Rightarrow> Inl ''no response''), hd_now = 0\<rparr>"

definition bench_connection_of ::
  "('c, 'r, 'p, 'm) hy2_bench \<Rightarrow> 'c hy2_connection \<Rightarrow> hy2_client \<Rightarrow> hy2_client_connection result \<times> hy2_client \<times> 'c cc_heap" where
  "bench_connection_of b c cl =
     hy2_connection_of (bench_ops b) Some (\<lambda>_. None) (bench_rng b) (\<lambda>_. True) (\<lambda>_. bench_dial b c) cl (bench_heap b)"

text \<open>
  A stream: the server reads the client's request and what the application sends behind it; the
  test's server copies everything back.
\<close>

definition bench_stream :: "writer \<Rightarrow> bytes \<Rightarrow> reader" where
  "bench_stream w payload = \<lparr>pending = written w @ payload, ending = Finished\<rparr>"

definition echo_answer :: "('c, 'r, 'p, 'm) hy2_bench \<Rightarrow> 'c hy2_connection \<Rightarrow> socket_addr \<Rightarrow> bytes \<Rightarrow> writer \<Rightarrow> reader" where
  "echo_answer b c source payload w = (case hy2_phase c of
       Serving u k \<Rightarrow>
         (case handle_stream (hy2_app_gone c) (bench_rng b) source u k (bench_stream w payload) fresh_writer of
            Inr (a, w') \<Rightarrow> \<lparr>pending = written w' @ hy2_rest a, ending = Finished\<rparr>
          | Inl e \<Rightarrow> \<lparr>pending = [], ending = Finished\<rparr>)
     | _ \<Rightarrow> \<lparr>pending = [], ending = Finished\<rparr>)"

definition echo_connect ::
  "('c, 'r, 'p, 'm) hy2_bench \<Rightarrow> 'c hy2_connection \<Rightarrow> socket_addr \<Rightarrow> bytes \<Rightarrow> address \<Rightarrow> hy2_client \<Rightarrow>
   (writer \<times> reader) result \<times> hy2_client \<times> 'c cc_heap" where
  "echo_connect b c source payload dest cl =
     hy2_client_connect (bench_ops b) Some (\<lambda>_. None) (bench_rng b) (\<lambda>_. True) (\<lambda>_. bench_dial b c)
       (Inr fresh_writer) (echo_answer b c source payload) dest cl (bench_heap b)"

definition echo_accepted :: "('c, 'r, 'p, 'm) hy2_bench \<Rightarrow> hy2_server \<Rightarrow> socket_addr \<Rightarrow> bytes \<Rightarrow> writer \<Rightarrow> 'c hy2_connection \<Rightarrow> 'c hy2_connection" where
  "echo_accepted b s source payload w = bench_step b s source (StreamAccepted source (bench_stream w payload) fresh_writer)"

definition reads_back :: "bytes \<Rightarrow> reader \<Rightarrow> bool" where
  "reads_back payload r = unwrap_then (quic_read_exact (length payload) r) (\<lambda>(response, _). response = payload)"


section \<open>What the bench does\<close>

definition bench_ok :: "('c, 'r, 'p, 'm) hy2_bench \<Rightarrow> bool" where
  "bench_ok b \<longleftrightarrow> (\<exists>defaults p. p \<noteq> 0 \<and> config_min_mtu defaults \<le> 1200 \<and> bench_lib b = plain_library defaults \<and> bench_os b = linux_os p) \<and> rng_ok (bench_rng b)"

lemma bench_binds:
  assumes "bench_ok b"
  shows "\<exists>s p. p \<noteq> 0 \<and> fst (hy2_bind_with_bandwidth_and_transport_and_masquerade (bench_lib b) (bench_os b) (test_options b listen) bw topts masq) = Inr s \<and>
    hy2s_users s = [''secret'' \<mapsto> ''alice''] \<and> hy2s_bandwidth s = bw \<and> hy2s_masquerade s = masq \<and>
    hy2_server_local_addr (bench_os b) s = Inr (if sport listen = 0 then listen\<lparr>sport := p\<rparr> else listen)"
proof -
  obtain defaults p where p: "p \<noteq> 0" and b: "bench_lib b = plain_library defaults" "bench_os b = linux_os p"
    using assms by (auto simp: bench_ok_def)
  show ?thesis
    by (intro exI [of _ "projr (fst (hy2_bind_with_bandwidth_and_transport_and_masquerade (bench_lib b) (bench_os b) (test_options b listen) bw topts masq))"] exI [of _ p])
      (use p in \<open>simp add: b hy2_bind_with_bandwidth_and_transport_and_masquerade_def hy2_build_server_config_def plain_library_def linux_os_def plain_os_def
        single_cert_def quic_server_crypto_def detect_private_key_def bind_endpoint_def bind_udp_socket_def tune_udp_socket_def
        test_options_def hy2_users_def hy2_server_local_addr_def endpoint_local_addr_def Let_def split: prod.splits\<close>)
qed

lemma bench_client:
  assumes "bench_ok b"
  shows "\<exists>cl. fst (hy2_client_new_with_bandwidth_and_transport (bench_lib b) (bench_os b) (test_client_options b server password) bw topts) = Inr cl \<and>
    hco_password (hy2c_options cl) = password \<and> hy2c_bandwidth cl = bw \<and> hy2c_cached cl = None \<and> hy2c_dials cl = 0 \<and>
    (\<exists>config. endpoint_client (hy2c_endpoint cl) = Some config \<and> qc_transport config = base_transport_config (lib_transport_defaults (bench_lib b)) topts)"
proof -
  obtain defaults p where "bench_lib b = plain_library defaults" "bench_os b = linux_os p"
    using assms by (auto simp: bench_ok_def)
  then show ?thesis
    by (simp add: hy2_client_new_with_bandwidth_and_transport_def client_endpoint_def hy2_client_config_def plain_library_def linux_os_def plain_os_def
        quic_client_crypto_def bind_endpoint_def bind_udp_socket_def tune_udp_socket_def
        test_client_options_def Let_def split: prod.splits)
qed

lemma first_request_gone: "hy2_app_gone (first_request cfg now request stream c) = hy2_app_gone c"
  by (cases rule: first_request_cases [where cfg = cfg and now = now and request = request and stream = stream and c = c])
    (simp_all add: to_masquerade_def spawn_masquerade_request_def)

lemma bench_login_step:
  "bench_login b s source cl = first_request (hy2_connection_config (bench_ops b) Some s (bench_incoming b source)) 0
     (auth_request (bench_rng b) (hco_password (hy2c_options cl)) (hy2c_bandwidth cl)) (open_h3 []) (hy2_init (bench_heap b))"
  by (simp add: bench_login_def bench_step_def hy2_connection_step_def hy2_init_def)

lemma bench_login_fields: "\<not> hy2_app_gone (bench_login b s source cl)" "hy2_accepted (bench_login b s source cl) = []"
  by (simp_all add: bench_login_step first_request_gone first_request_accepted) (simp_all add: hy2_init_def)

lemma bench_config [simp]:
  "cfg_to_str (hy2_connection_config ops Some s (bench_incoming b source)) = Some"
  "cfg_users (hy2_connection_config ops Some s (bench_incoming b source)) = hy2s_users s"
  "cfg_bandwidth (hy2_connection_config ops Some s (bench_incoming b source)) = hy2s_bandwidth s"
  "cfg_masquerade (hy2_connection_config ops Some s (bench_incoming b source)) = hy2s_masquerade s"
  "cfg_connection (hy2_connection_config ops Some s (bench_incoming b source)) = bench_connection"
  "cfg_source (hy2_connection_config ops Some s (bench_incoming b source)) = source"
  "cfg_rng (hy2_connection_config ops Some s (bench_incoming b source)) = bench_rng b"
  "cfg_respond (hy2_connection_config ops Some s (bench_incoming b source)) r = None"
  by (simp_all add: hy2_connection_config_def bench_incoming_def)

lemma bench_heap_state: "bench_heap b 0 = Some \<lparr>controller = build_bbr (bench_ops b) 0 1200, kind = Bbr, current_mtu = 1200\<rparr>"
  by (simp add: bench_heap_def factory_build_def)

lemma bench_login_outcome:
  fixes b s source cl
  defines "cfg \<equiv> hy2_connection_config (bench_ops b) Some s (bench_incoming b source)"
    and "c \<equiv> bench_login b s source cl" and "bw \<equiv> hy2c_bandwidth cl" and "password \<equiv> hco_password (hy2c_options cl)"
  shows "(case admits cfg password bw of
      None \<Rightarrow>
        (let status = word_of_nat (masquerade_status cfg (auth_request (bench_rng b) password bw))
         in hy2_phase c = Masquerading \<and> hy2_responses c = [] \<and>
            (status \<noteq> 233 \<longrightarrow> authenticate (bench_ops b) Some (\<lambda>_. None) (bench_rng b) n password bw (bench_dial b c) (bench_heap b) =
               (Inl (AuthenticationFailed status), Some ''authentication failed'', bench_heap b)))
    | Some u \<Rightarrow>
        (let rate = server_send_rate (hy2s_bandwidth s) (Rate (client_receive_bps bw));
             client_rate = client_send_rate (client_send_bps bw) (advertised_receive (hy2s_bandwidth s) rate)
         in hy2_phase c = Serving u (case rate of Some r \<Rightarrow> Brutal r | None \<Rightarrow> Bbr) \<and>
            (\<exists>k h''. authenticate (bench_ops b) Some (\<lambda>_. None) (bench_rng b) n password bw (bench_dial b c) (bench_heap b) = (Inr k, None, h'') \<and>
               hy2c_congestion k = (case client_rate of Some r \<Rightarrow> Brutal r | None \<Rightarrow> Bbr) \<and>
               connection_congestion_kind (hd_connection (bench_dial b c)) h'' = Some (hy2c_congestion k))))"
proof -
  have c: "c = hy2_step cfg (Request 0 (auth_request (bench_rng b) password bw) (open_h3 [])) (hy2_init (bench_heap b))"
    by (simp only: c_def bench_login_def bench_step_def hy2_connection_step_def cfg_def password_def bw_def)
  have pre: "reads_rates (cfg_to_str cfg)" "cc_controller (cfg_connection cfg) = Switchable 0" "\<forall>r. cfg_respond cfg r = None"
    "hd_h3 (bench_dial b c) = None" "reads_rates Some" "(\<lambda>_. None :: string option) (show_nat (unat (client_receive_bps bw))) = None"
    "(\<lambda>_. None :: string option) (padding (bench_rng b) 256 2048) = None" "(\<lambda>_. None :: string option) password = None" "cc_controller (hd_connection (bench_dial b c)) = Switchable 0"
    "\<forall>response. h3_answer c = Some response \<longrightarrow> hd_exchange (bench_dial b c) (auth_request (bench_rng b) password bw) = Inr response"
    by (simp_all add: cfg_def bench_dial_def bench_connection_def reads_rates_def)
  from login_outcome [where h = "bench_heap b" and h' = "bench_heap b" and header_error = "\<lambda>_. None", OF pre(1,2) bench_heap_state pre(3-7) pre(9) bench_heap_state c pre(10) pre(8), of "bench_ops b" n]
  moreover have "cfg_bandwidth cfg = hy2s_bandwidth s"
    by (simp add: cfg_def)
  ultimately show ?thesis
    by (simp only: switch_state.simps)
qed

text \<open>A refused client reports the masquerade's 404; an admitted one connects and gets its bytes back.\<close>

lemma bench_refused:
  assumes "admits (hy2_connection_config (bench_ops b) Some s (bench_incoming b source)) (hco_password (hy2c_options cl)) (hy2c_bandwidth cl) = None"
    "hy2s_masquerade s = None" "hy2c_cached cl = None"
  shows "fst (echo_connect b (bench_login b s source cl) source' payload dest cl) = Inl (AuthenticationFailed 404)"
proof -
  have "authenticate (bench_ops b) Some (\<lambda>_. None) (bench_rng b) (hy2c_dials cl) (hco_password (hy2c_options cl)) (hy2c_bandwidth cl)
      (bench_dial b (bench_login b s source cl)) (bench_heap b) = (Inl (AuthenticationFailed 404), Some ''authentication failed'', bench_heap b)"
    using bench_login_outcome [of b s source cl "hy2c_dials cl"] assms(1,2) by (simp add: masquerade_status_def Let_def)
  then show ?thesis
    using assms(3) by (simp add: echo_connect_def hy2_client_connect_def hy2_connection_of_def hy2_dial_server_def Let_def bench_dial_def)
qed

definition test_address :: "address \<Rightarrow> bool" where
  "test_address a \<longleftrightarrow> normal_host (host a) \<and> utf8_string (host a) \<and> length (address_to_string a) \<le> MAX_ADDRESS_LENGTH"

lemma echo_answers:
  assumes "bench_ok b" "hy2_phase c = Serving u k" "\<not> hy2_app_gone c" "test_address dest"
  shows "\<exists>w. hy2_connect (bench_rng b) dest fresh_writer (echo_answer b c source payload) = Inr (w, \<lparr>pending = payload, ending = Finished\<rparr>) \<and>
    hy2_accepted (echo_accepted b s source payload w c) = hy2_accepted c @ [Hy2Stream dest u source k payload]"
proof -
  have rng: "rng_ok (bench_rng b)" and dest: "normal_host (host dest)" "utf8_string (host dest)" "length (address_to_string dest) \<le> MAX_ADDRESS_LENGTH"
    using assms(1,4) by (simp_all add: bench_ok_def test_address_def)
  let ?request = "tcp_request_frame (address_to_string dest) (padding (bench_rng b) 64 512)"
    and ?reply = "tcp_response_frame 0 [] (padding (bench_rng b) 128 1024)"
  have w: "written (emit bs fresh_writer) = bs" for bs
    by (simp add: emit_def fresh_writer_def)
  note ends = server_answers [OF rng rng dest]
  have "length (padding (bench_rng b) 128 1024) \<le> MAX_PADDING_LENGTH"
    using padding_bounds [OF rng, of 128 1024] by (simp add: MAX_PADDING_LENGTH_def)
  then have "read_tcp_response (echo_answer b c source payload (emit ?request fresh_writer)) = Inr \<lparr>pending = payload, ending = Finished\<rparr>"
    using assms(2,3) ends(2) [of source u k payload Finished] by (simp add: echo_answer_def bench_stream_def w read_tcp_response_frame)
  with ends(1) have "hy2_connect (bench_rng b) dest fresh_writer (echo_answer b c source payload) =
      Inr (emit ?request fresh_writer, \<lparr>pending = payload, ending = Finished\<rparr>)"
    by (simp add: hy2_connect_def)
  then show ?thesis
    using assms(2,3) ends(2) [of source u k payload Finished]
    by (intro exI [of _ "emit ?request fresh_writer"])
      (simp add: echo_accepted_def bench_step_def hy2_connection_step_def bench_stream_def w)
qed

lemma bench_served:
  fixes b s source cl
  assumes "bench_ok b" "hy2s_users s = [''secret'' \<mapsto> ''alice'']" "hco_password (hy2c_options cl) = ''secret''"
    "\<not> (server_receive_bps (hy2s_bandwidth s) > 0 \<and> ignore_client_bandwidth (hy2s_bandwidth s) \<and> client_receive_bps (hy2c_bandwidth cl) = 0)"
    "hy2c_cached cl = None"
  defines "rate \<equiv> server_send_rate (hy2s_bandwidth s) (Rate (client_receive_bps (hy2c_bandwidth cl)))"
  defines "client_rate \<equiv> client_send_rate (client_send_bps (hy2c_bandwidth cl)) (advertised_receive (hy2s_bandwidth s) rate)"
    and "c \<equiv> bench_login b s source cl"
  shows "hy2_phase c = Serving ''alice'' (case rate of Some r \<Rightarrow> Brutal r | None \<Rightarrow> Bbr)"
    "\<exists>k cl' h'. bench_connection_of b c cl = (Inr k, cl', h') \<and> hy2c_cached cl' = Some k \<and> hy2c_dials cl' = hy2c_dials cl + 1 \<and>
       hy2c_congestion k = (case client_rate of Some r \<Rightarrow> Brutal r | None \<Rightarrow> Bbr)"
proof -
  have "admits (hy2_connection_config (bench_ops b) Some s (bench_incoming b source)) ''secret'' (hy2c_bandwidth cl) = Some ''alice''"
    using assms(2,4) by (simp add: admits_def)
  with bench_login_outcome [of b s source cl "hy2c_dials cl"] assms(3)
  have phase: "hy2_phase c = Serving ''alice'' (case rate of Some r \<Rightarrow> Brutal r | None \<Rightarrow> Bbr)"
    and auth: "\<exists>k h''. authenticate (bench_ops b) Some (\<lambda>_. None) (bench_rng b) (hy2c_dials cl) ''secret'' (hy2c_bandwidth cl) (bench_dial b c) (bench_heap b) = (Inr k, None, h'') \<and>
        hy2c_congestion k = (case client_rate of Some r \<Rightarrow> Brutal r | None \<Rightarrow> Bbr)"
    by (auto simp: rate_def client_rate_def c_def Let_def)
  show "hy2_phase c = Serving ''alice'' (case rate of Some r \<Rightarrow> Brutal r | None \<Rightarrow> Bbr)" by (rule phase)
  have "hd_connect (bench_dial b c) = None" "hd_handshake (bench_dial b c) = None"
    by (simp_all add: bench_dial_def)
  with auth assms(3,5) show "\<exists>k cl' h'. bench_connection_of b c cl = (Inr k, cl', h') \<and> hy2c_cached cl' = Some k \<and> hy2c_dials cl' = hy2c_dials cl + 1 \<and>
       hy2c_congestion k = (case client_rate of Some r \<Rightarrow> Brutal r | None \<Rightarrow> Bbr)"
    by (auto simp: bench_connection_of_def hy2_connection_of_def hy2_dial_server_def Let_def)
qed

lemma echo_connect_split:
  "echo_connect b c source payload dest cl = (case bench_connection_of b c cl of
     (Inl e, cl, h) \<Rightarrow> (Inl e, cl, h)
   | (Inr k, cl, h) \<Rightarrow> (hy2_connect (bench_rng b) dest fresh_writer (echo_answer b c source payload), cl, h))"
  by (simp add: echo_connect_def hy2_client_connect_def bench_connection_of_def split: prod.splits sum.splits)

lemma reads_back_all: "reads_back payload \<lparr>pending = payload, ending = e\<rparr>"
  using quic_read_exact_append [of payload "length payload" "[]" e] by (simp add: reads_back_def)


section \<open>The tests\<close>

definition rejects_invalid_password :: "('c, 'r, 'p, 'm) hy2_bench \<Rightarrow> socket_addr \<Rightarrow> bool" where
  "rejects_invalid_password b source =
     unwrap_then (fst (hy2_bind (bench_lib b) (bench_os b) (test_options b localhost))) (\<lambda>server.
     unwrap_then (hy2_server_local_addr (bench_os b) server) (\<lambda>addr.
     unwrap_then (fst (hy2_client_new (bench_lib b) (bench_os b) (test_client_options b addr ''wrong-password''))) (\<lambda>client.
     unwrap_then (address_new ''example.com'' 443) (\<lambda>dest.
       fst (echo_connect b (bench_login b server source client) source [] dest client) = Inl (AuthenticationFailed 404)))))"

definition ignore_client_bandwidth_rejects_auto_with_fixed_receive_rate :: "('c, 'r, 'p, 'm) hy2_bench \<Rightarrow> socket_addr \<Rightarrow> bool" where
  "ignore_client_bandwidth_rejects_auto_with_fixed_receive_rate b source =
     unwrap_then (fst (hy2_bind_with_bandwidth (bench_lib b) (bench_os b) (test_options b localhost)
       (server_bandwidth_default\<lparr>server_send_bps := 1000000, server_receive_bps := 1000000, ignore_client_bandwidth := True\<rparr>))) (\<lambda>server.
     unwrap_then (hy2_server_local_addr (bench_os b) server) (\<lambda>addr.
     unwrap_then (fst (hy2_client_new (bench_lib b) (bench_os b) (test_client_options b addr ''secret''))) (\<lambda>client.
     unwrap_then (address_new ''example.com'' 443) (\<lambda>dest.
       fst (echo_connect b (bench_login b server source client) source [] dest client) = Inl (AuthenticationFailed 404)))))"

definition authenticated_tcp_stream_round_trip :: "('c, 'r, 'p, 'm) hy2_bench \<Rightarrow> socket_addr \<Rightarrow> bool" where
  "authenticated_tcp_stream_round_trip b source =
     unwrap_then (fst (hy2_bind_with_bandwidth (bench_lib b) (bench_os b) (test_options b localhost)
       (server_bandwidth_default\<lparr>server_send_bps := 3000000, server_receive_bps := 0, ignore_client_bandwidth := True\<rparr>))) (\<lambda>server.
     unwrap_then (hy2_server_local_addr (bench_os b) server) (\<lambda>addr.
     unwrap_then (fst (hy2_client_new_with_bandwidth (bench_lib b) (bench_os b) (test_client_options b addr ''secret'')
       (client_bandwidth_default\<lparr>client_send_bps := 1000000, client_receive_bps := 2000000\<rparr>))) (\<lambda>client.
     unwrap_then (address_new ''example.com'' 443) (\<lambda>dest.
       let c = bench_login b server source client; payload = as_bytes ''hello over Hysteria2''
       in case echo_connect b c source payload dest client of
            (Inr (w, r), client, _) \<Rightarrow>
              (case hy2_accepted (echo_accepted b server source payload w c) of
                 [Hy2Stream d u _ k _] \<Rightarrow> u = ''alice'' \<and> k = Bbr \<and> d = dest
               | _ \<Rightarrow> False) \<and>
              hy2_congestion_kind client = Some Bbr \<and> reads_back payload r
          | _ \<Rightarrow> False))))"

text \<open>The packet size of the QUIC path is what the transport configuration starts with when discovery is off.\<close>

definition configured_mtu :: "hy2_client \<Rightarrow> u16 option" where
  "configured_mtu cl = Option.bind (endpoint_client (hy2c_endpoint cl)) (\<lambda>config.
     if mtu_discovery (qc_transport config) then None else Some (get_initial_mtu (qc_transport config)))"

definition negotiates_asymmetric_brutal_rates_in_both_directions :: "('c, 'r, 'p, 'm) hy2_bench \<Rightarrow> socket_addr \<Rightarrow> bool" where
  "negotiates_asymmetric_brutal_rates_in_both_directions b source =
     (let transport = \<lparr>initial_packet_size = 1200, disable_path_mtu_discovery = True\<rparr>
      in unwrap_then (fst (hy2_bind_with_bandwidth_and_transport_and_masquerade (bench_lib b) (bench_os b) (test_options b localhost)
           (server_bandwidth_default\<lparr>server_send_bps := 125000000, server_receive_bps := 125000000, ignore_client_bandwidth := False\<rparr>)
           transport None)) (\<lambda>server.
         unwrap_then (hy2_server_local_addr (bench_os b) server) (\<lambda>addr.
         unwrap_then (fst (hy2_client_new_with_bandwidth_and_transport (bench_lib b) (bench_os b) (test_client_options b addr ''secret'')
           (client_bandwidth_default\<lparr>client_send_bps := 3750000, client_receive_bps := 12500000\<rparr>) transport)) (\<lambda>client.
         unwrap_then (address_new ''example.com'' 443) (\<lambda>dest.
           let c = bench_login b server source client; payload = replicate (4 * 1024 * 1024) 0x5a
           in case echo_connect b c source payload dest client of
                (Inr (w, r), client, _) \<Rightarrow>
                  (case hy2_accepted (echo_accepted b server source payload w c) of
                     [Hy2Stream _ _ _ k _] \<Rightarrow> k = Brutal 12500000
                   | _ \<Rightarrow> False) \<and>
                  hy2_congestion_kind client = Some (Brutal 3750000) \<and> configured_mtu client = Some 1200 \<and> reads_back payload r
              | _ \<Rightarrow> False)))))"

lemma test_dest: "address_new ''example.com'' 443 = Inr \<lparr>host = ''example.com'', port = 443\<rparr>" "test_address \<lparr>host = ''example.com'', port = 443\<rparr>"
proof -
  have "utf8_string ''example.com''"
    by (rule ascii_utf8_string) (simp add: is_ascii_def byte_of_char_def)
  moreover have "length (address_to_string \<lparr>host = ''example.com'', port = 443\<rparr>) \<le> MAX_ADDRESS_LENGTH"
    by code_simp
  ultimately show "test_address \<lparr>host = ''example.com'', port = 443\<rparr>"
    by (simp add: test_address_def normal_host_def bracketed_def)
qed (simp add: address_new_def)

lemmas bind_defs = hy2_bind_def hy2_bind_with_bandwidth_def hy2_bind_with_bandwidth_and_masquerade_def
  hy2_client_new_def hy2_client_new_with_bandwidth_def

lemma rejects_invalid_password_passes:
  assumes "bench_ok b"
  shows "rejects_invalid_password b source"
proof -
  obtain s p where s: "fst (hy2_bind_with_bandwidth_and_transport_and_masquerade (bench_lib b) (bench_os b) (test_options b localhost)
      server_bandwidth_default quic_transport_options_default None) = Inr s"
    "hy2s_users s = [''secret'' \<mapsto> ''alice'']" "hy2s_masquerade s = None" "hy2_server_local_addr (bench_os b) s = Inr (localhost\<lparr>sport := p\<rparr>)"
    using bench_binds [OF assms, of localhost server_bandwidth_default quic_transport_options_default None] by (auto simp: localhost_def)
  obtain cl where cl: "fst (hy2_client_new_with_bandwidth_and_transport (bench_lib b) (bench_os b)
      (test_client_options b (localhost\<lparr>sport := p\<rparr>) ''wrong-password'') client_bandwidth_default quic_transport_options_default) = Inr cl"
    "hco_password (hy2c_options cl) = ''wrong-password''" "hy2c_cached cl = None"
    using bench_client [OF assms] by blast
  have "admits (hy2_connection_config (bench_ops b) Some s (bench_incoming b source)) (hco_password (hy2c_options cl)) (hy2c_bandwidth cl) = None"
    by (simp add: admits_def s(2) cl(2))
  from bench_refused [OF this s(3) cl(3)] show ?thesis
    by (simp add: rejects_invalid_password_def bind_defs s cl test_dest)
qed

lemma ignore_client_bandwidth_rejects_auto_with_fixed_receive_rate_passes:
  assumes "bench_ok b"
  shows "ignore_client_bandwidth_rejects_auto_with_fixed_receive_rate b source"
proof -
  let ?bw = "server_bandwidth_default\<lparr>server_send_bps := 1000000, server_receive_bps := 1000000, ignore_client_bandwidth := True\<rparr>"
  obtain s p where s: "fst (hy2_bind_with_bandwidth_and_transport_and_masquerade (bench_lib b) (bench_os b) (test_options b localhost)
      ?bw quic_transport_options_default None) = Inr s"
    "hy2s_bandwidth s = ?bw" "hy2s_masquerade s = None" "hy2_server_local_addr (bench_os b) s = Inr (localhost\<lparr>sport := p\<rparr>)"
    using bench_binds [OF assms, of localhost ?bw quic_transport_options_default None] by (auto simp: localhost_def)
  obtain cl where cl: "fst (hy2_client_new_with_bandwidth_and_transport (bench_lib b) (bench_os b)
      (test_client_options b (localhost\<lparr>sport := p\<rparr>) ''secret'') client_bandwidth_default quic_transport_options_default) = Inr cl"
    "hy2c_bandwidth cl = client_bandwidth_default" "hy2c_cached cl = None"
    using bench_client [OF assms] by blast
  have "admits (hy2_connection_config (bench_ops b) Some s (bench_incoming b source)) (hco_password (hy2c_options cl)) (hy2c_bandwidth cl) = None"
    by (simp add: admits_def s(2) cl(2) client_bandwidth_default_def word_gt_0)
  from bench_refused [OF this s(3) cl(3)] show ?thesis
    by (simp add: ignore_client_bandwidth_rejects_auto_with_fixed_receive_rate_def bind_defs s cl test_dest)
qed

lemma hy2_connection_of_endpoint:
  "hy2_connection_of ops to_str header_error rng alive dials c h = (res, c', h') \<Longrightarrow> hy2c_endpoint c' = hy2c_endpoint c"
  by (auto simp: hy2_connection_of_def client_connection_drop_def Let_def split: option.splits if_splits prod.splits sum.splits)

lemma bench_echo:
  fixes b s source cl dest
  assumes "bench_ok b" "hy2s_users s = [''secret'' \<mapsto> ''alice'']" "hco_password (hy2c_options cl) = ''secret''"
    "\<not> (server_receive_bps (hy2s_bandwidth s) > 0 \<and> ignore_client_bandwidth (hy2s_bandwidth s) \<and> client_receive_bps (hy2c_bandwidth cl) = 0)"
    "hy2c_cached cl = None" "test_address dest"
  defines "rate \<equiv> server_send_rate (hy2s_bandwidth s) (Rate (client_receive_bps (hy2c_bandwidth cl)))"
  defines "client_rate \<equiv> client_send_rate (client_send_bps (hy2c_bandwidth cl)) (advertised_receive (hy2s_bandwidth s) rate)"
    and "c \<equiv> bench_login b s source cl"
  shows "\<exists>w r cl' h'. echo_connect b c source payload dest cl = (Inr (w, r), cl', h') \<and> reads_back payload r \<and>
    hy2_accepted (echo_accepted b s source payload w c) = [Hy2Stream dest ''alice'' source (case rate of Some r \<Rightarrow> Brutal r | None \<Rightarrow> Bbr) payload] \<and>
    hy2_congestion_kind cl' = Some (case client_rate of Some r \<Rightarrow> Brutal r | None \<Rightarrow> Bbr) \<and> hy2c_endpoint cl' = hy2c_endpoint cl \<and> hy2c_cached cl' \<noteq> None"
proof -
  note served = bench_served [OF assms(1-5), of source, folded rate_def, folded client_rate_def c_def]
  obtain k cl' h' where k: "bench_connection_of b c cl = (Inr k, cl', h')" "hy2c_cached cl' = Some k"
    "hy2c_congestion k = (case client_rate of Some r \<Rightarrow> Brutal r | None \<Rightarrow> Bbr)"
    using served(2) by blast
  obtain w where w: "hy2_connect (bench_rng b) dest fresh_writer (echo_answer b c source payload) = Inr (w, \<lparr>pending = payload, ending = Finished\<rparr>)"
    "hy2_accepted (echo_accepted b s source payload w c) =
       [Hy2Stream dest ''alice'' source (case rate of Some r \<Rightarrow> Brutal r | None \<Rightarrow> Bbr) payload]"
    using echo_answers [OF assms(1) served(1) _ assms(6), of source payload s] bench_login_fields [of b s source cl] by (auto simp: c_def)
  have "hy2c_endpoint cl' = hy2c_endpoint cl"
    using hy2_connection_of_endpoint [OF k(1) [unfolded bench_connection_of_def]] .
  with k w show ?thesis
    by (intro exI [of _ w] exI [of _ "\<lparr>pending = payload, ending = Finished\<rparr>"] exI [of _ cl'] exI [of _ h'])
      (simp add: echo_connect_split reads_back_all hy2_congestion_kind_def)
qed

lemma authenticated_tcp_stream_round_trip_passes:
  assumes "bench_ok b"
  shows "authenticated_tcp_stream_round_trip b source"
proof -
  let ?bw = "server_bandwidth_default\<lparr>server_send_bps := 3000000, server_receive_bps := 0, ignore_client_bandwidth := True\<rparr>"
  let ?cbw = "client_bandwidth_default\<lparr>client_send_bps := 1000000, client_receive_bps := 2000000\<rparr>"
  obtain s p where s: "fst (hy2_bind_with_bandwidth_and_transport_and_masquerade (bench_lib b) (bench_os b) (test_options b localhost)
      ?bw quic_transport_options_default None) = Inr s"
    "hy2s_users s = [''secret'' \<mapsto> ''alice'']" "hy2s_bandwidth s = ?bw" "hy2_server_local_addr (bench_os b) s = Inr (localhost\<lparr>sport := p\<rparr>)"
    using bench_binds [OF assms, of localhost ?bw quic_transport_options_default None] by (auto simp: localhost_def)
  obtain cl where cl: "fst (hy2_client_new_with_bandwidth_and_transport (bench_lib b) (bench_os b)
      (test_client_options b (localhost\<lparr>sport := p\<rparr>) ''secret'') ?cbw quic_transport_options_default) = Inr cl"
    "hco_password (hy2c_options cl) = ''secret''" "hy2c_bandwidth cl = ?cbw" "hy2c_cached cl = None"
    using bench_client [OF assms] by blast
  have admitted: "\<not> (server_receive_bps (hy2s_bandwidth s) > 0 \<and> ignore_client_bandwidth (hy2s_bandwidth s) \<and> client_receive_bps (hy2c_bandwidth cl) = 0)"
    by (simp add: s(3))
  have rates: "server_send_rate ?bw (Rate (client_receive_bps ?cbw)) = None"
    "client_send_rate (client_send_bps ?cbw) (advertised_receive ?bw None) = None"
    by (simp_all add: server_send_rate_def client_send_rate_def advertised_receive_def)
  from bench_echo [OF assms s(2) cl(2) admitted cl(4) test_dest(2), of source "as_bytes ''hello over Hysteria2''"]
  show ?thesis
    unfolding s(3) cl(3) rates
    by (auto simp: authenticated_tcp_stream_round_trip_def bind_defs s cl test_dest(1) Let_def)
qed

lemma negotiates_asymmetric_brutal_rates_in_both_directions_passes:
  assumes "bench_ok b"
  shows "negotiates_asymmetric_brutal_rates_in_both_directions b source"
proof -
  let ?bw = "server_bandwidth_default\<lparr>server_send_bps := 125000000, server_receive_bps := 125000000, ignore_client_bandwidth := False\<rparr>"
  let ?cbw = "client_bandwidth_default\<lparr>client_send_bps := 3750000, client_receive_bps := 12500000\<rparr>"
  let ?t = "\<lparr>initial_packet_size = 1200, disable_path_mtu_discovery = True\<rparr>"
  obtain s p where s: "fst (hy2_bind_with_bandwidth_and_transport_and_masquerade (bench_lib b) (bench_os b) (test_options b localhost) ?bw ?t None) = Inr s"
    "hy2s_users s = [''secret'' \<mapsto> ''alice'']" "hy2s_bandwidth s = ?bw" "hy2_server_local_addr (bench_os b) s = Inr (localhost\<lparr>sport := p\<rparr>)"
    using bench_binds [OF assms, of localhost ?bw ?t None] by (auto simp: localhost_def)
  obtain cl config where cl: "fst (hy2_client_new_with_bandwidth_and_transport (bench_lib b) (bench_os b)
      (test_client_options b (localhost\<lparr>sport := p\<rparr>) ''secret'') ?cbw ?t) = Inr cl"
    "hco_password (hy2c_options cl) = ''secret''" "hy2c_bandwidth cl = ?cbw" "hy2c_cached cl = None"
    "endpoint_client (hy2c_endpoint cl) = Some config" "qc_transport config = base_transport_config (lib_transport_defaults (bench_lib b)) ?t"
    using bench_client [OF assms, of "localhost\<lparr>sport := p\<rparr>" "''secret''" ?cbw ?t] by blast
  have admitted: "\<not> (server_receive_bps (hy2s_bandwidth s) > 0 \<and> ignore_client_bandwidth (hy2s_bandwidth s) \<and> client_receive_bps (hy2c_bandwidth cl) = 0)"
    by (simp add: s(3))
  have rates: "server_send_rate ?bw (Rate (client_receive_bps ?cbw)) = Some 12500000"
    "client_send_rate (client_send_bps ?cbw) (advertised_receive ?bw (Some 12500000)) = Some 3750000"
    by (simp_all add: server_send_rate_def client_send_rate_def advertised_receive_def)
  have "config_min_mtu (lib_transport_defaults (bench_lib b)) \<le> 1200"
    using assms by (auto simp: bench_ok_def plain_library_def)
  then have mtu: "\<not> mtu_discovery (qc_transport config)" "get_initial_mtu (qc_transport config) = 1200"
    by (simp_all add: cl(6) base_transport_config_def set_initial_mtu_def get_initial_mtu_def INITIAL_MTU_def max_def Let_def)
  from bench_echo [OF assms s(2) cl(2) admitted cl(4) test_dest(2), of source "replicate (4 * 1024 * 1024) 0x5a"]
  show ?thesis
    unfolding s(3) cl(3) rates negotiates_asymmetric_brutal_rates_in_both_directions_def
    by (auto simp: s cl(1-5) test_dest(1) configured_mtu_def mtu Let_def)
qed

text \<open>
  A socket bound to the unspecified IPv6 address is reached over IPv4 when it was made dual-stack
  before it was bound.
\<close>

definition reaches :: "socket_trace \<Rightarrow> socket_addr \<Rightarrow> socket_addr \<Rightarrow> bool" where
  "reaches trace listen target = (case (ip listen, ip target) of
       (V4 a, V4 _) \<Rightarrow> True
     | (V6 a, V6 _) \<Rightarrow> True
     | (V6 a, V4 _) \<Rightarrow> a = 0 \<and> takeWhile (\<lambda>op. op \<noteq> BindTo listen) (fst trace) = [NewSocket Ipv6Domain, SetOnlyV6 False] \<and>
         (\<forall>e. NotDualStack e \<notin> set (snd trace))
     | (V4 a, V6 _) \<Rightarrow> False)"

definition ipv6_unspecified_listener_accepts_ipv4_and_ipv6 :: "('c, 'r, 'p, 'm) hy2_bench \<Rightarrow> (socket_addr \<Rightarrow> socket_addr) \<Rightarrow> bool" where
  "ipv6_unspecified_listener_accepts_ipv4_and_ipv6 b client_at =
     (let listen = \<lparr>ip = V6 0, sport = 0\<rparr>
      in case hy2_bind (bench_lib b) (bench_os b) (test_options b listen) of
           (Inl e, _) \<Rightarrow> False
         | (Inr server, trace) \<Rightarrow>
             unwrap_then (hy2_server_local_addr (bench_os b) server) (\<lambda>addr.
               list_all (\<lambda>server_address.
                   reaches trace listen server_address \<and>
                   unwrap_then (fst (hy2_client_new (bench_lib b) (bench_os b) (test_client_options b server_address ''secret''))) (\<lambda>client.
                   unwrap_then (address_new ''example.com'' 443) (\<lambda>dest.
                     let source = client_at server_address; c = bench_login b server source client; payload = as_bytes ''dual stack''
                     in case echo_connect b c source payload dest client of
                          (Inr (w, r), _, _) \<Rightarrow>
                            (case hy2_accepted (echo_accepted b server source payload w c) of [Hy2Stream _ _ _ _ _] \<Rightarrow> True | _ \<Rightarrow> False) \<and>
                            reads_back payload r
                        | _ \<Rightarrow> False)))
                 [\<lparr>ip = V4 0x7f000001, sport = sport addr\<rparr>, \<lparr>ip = V6 1, sport = sport addr\<rparr>]))"

text \<open>
  \<open>Client::rebind\<close>, which only the tests have, moves the endpoint to another socket; the QUIC connection
  migrates, and the server sees the new remote address.
\<close>

definition hy2_client_rebind :: "socket_addr \<Rightarrow> hy2_client \<Rightarrow> hy2_client" where
  "hy2_client_rebind socket c = c\<lparr>hy2c_endpoint := (hy2c_endpoint c)\<lparr>endpoint_bound := socket\<rparr>\<rparr>"

definition mapped_ipv4_port_rebind_keeps_connection_usable :: "('c, 'r, 'p, 'm) hy2_bench \<Rightarrow> socket_addr \<Rightarrow> socket_addr \<Rightarrow> bool" where
  "mapped_ipv4_port_rebind_keeps_connection_usable b source source' =
     (let listen = \<lparr>ip = V6 0, sport = 0\<rparr>
      in unwrap_then (fst (hy2_bind (bench_lib b) (bench_os b) (test_options b listen))) (\<lambda>server.
         unwrap_then (hy2_server_local_addr (bench_os b) server) (\<lambda>addr.
         unwrap_then (fst (hy2_client_new (bench_lib b) (bench_os b)
           (test_client_options b \<lparr>ip = V4 0x7f000001, sport = sport addr\<rparr> ''secret''))) (\<lambda>client.
         unwrap_then (address_new ''example.com'' 443) (\<lambda>dest.
           let c = bench_login b server source client; payload = as_bytes ''before rebind''; payload' = as_bytes ''after rebind''
           in case echo_connect b c source payload dest client of
                (Inr (w, r), client, _) \<Rightarrow>
                  (let c = echo_accepted b server source payload w c; client = hy2_client_rebind \<lparr>ip = V4 0, sport = 0\<rparr> client
                   in case echo_connect b c source' payload' dest client of
                        (Inr (w', r'), client, _) \<Rightarrow>
                          (case hy2_accepted (echo_accepted b server source' payload' w' c) of
                             [Hy2Stream _ _ first _ _, Hy2Stream _ _ second _ _] \<Rightarrow> sport second \<noteq> sport first
                           | _ \<Rightarrow> False) \<and>
                          hy2c_dials client = 1 \<and> reads_back payload r \<and> reads_back payload' r'
                      | _ \<Rightarrow> False)
              | _ \<Rightarrow> False)))))"

lemma echo_accepted_fields:
  "hy2_phase c = Serving u k \<Longrightarrow> hy2_phase (echo_accepted b s source payload w c) = Serving u k"
  "hy2_phase c = Serving u k \<Longrightarrow> hy2_app_gone (echo_accepted b s source payload w c) = hy2_app_gone c"
  by (simp_all add: echo_accepted_def bench_step_def hy2_connection_step_def split: sum.splits prod.splits)

lemma echo_again:
  assumes "bench_ok b" "hy2_phase c = Serving u k" "\<not> hy2_app_gone c" "test_address dest" "hy2c_cached cl = Some conn"
  shows "\<exists>w r. echo_connect b c source payload dest cl = (Inr (w, r), cl, bench_heap b) \<and> reads_back payload r \<and>
    hy2_accepted (echo_accepted b s source payload w c) = hy2_accepted c @ [Hy2Stream dest u source k payload]"
  using echo_answers [OF assms(1-4), of source payload s] reads_back_all [of payload Finished] assms(5)
  by (auto simp: echo_connect_split bench_connection_of_def hy2_connection_of_def)

lemma default_admits: "\<not> (server_receive_bps server_bandwidth_default > 0 \<and> ignore_client_bandwidth server_bandwidth_default \<and> client_receive_bps bw = 0)"
  by (simp add: server_bandwidth_default_def)

lemma bench_dual_stack:
  assumes "bench_ok b" "hy2_bind (bench_lib b) (bench_os b) (test_options b \<lparr>ip = V6 0, sport = 0\<rparr>) = (Inr s, trace)"
  shows "reaches trace \<lparr>ip = V6 0, sport = 0\<rparr> target"
  using assms by (cases "ip target")
    (auto simp: bench_ok_def reaches_def bind_defs hy2_bind_with_bandwidth_and_transport_and_masquerade_def hy2_build_server_config_def plain_library_def
      linux_os_def plain_os_def single_cert_def quic_server_crypto_def detect_private_key_def bind_endpoint_def bind_udp_socket_def
      tune_udp_socket_def test_options_def unwrap_or_default_def Let_def split: prod.splits if_splits)

lemma default_bind:
  assumes "bench_ok b"
  obtains s trace p where "hy2_bind (bench_lib b) (bench_os b) (test_options b listen) = (Inr s, trace)"
    "hy2s_users s = [''secret'' \<mapsto> ''alice'']" "hy2s_bandwidth s = server_bandwidth_default" "p \<noteq> 0"
    "hy2_server_local_addr (bench_os b) s = Inr (if sport listen = 0 then listen\<lparr>sport := p\<rparr> else listen)"
proof -
  obtain s p where "p \<noteq> 0" "fst (hy2_bind (bench_lib b) (bench_os b) (test_options b listen)) = Inr s"
    "hy2s_users s = [''secret'' \<mapsto> ''alice'']" "hy2s_bandwidth s = server_bandwidth_default"
    "hy2_server_local_addr (bench_os b) s = Inr (if sport listen = 0 then listen\<lparr>sport := p\<rparr> else listen)"
    using bench_binds [OF assms, of listen server_bandwidth_default quic_transport_options_default None] unfolding bind_defs by blast
  then show thesis
    using that [of s "snd (hy2_bind (bench_lib b) (bench_os b) (test_options b listen))" p] by (metis prod.collapse)
qed

lemma default_client:
  assumes "bench_ok b"
  obtains cl where "fst (hy2_client_new (bench_lib b) (bench_os b) (test_client_options b server password)) = Inr cl"
    "hco_password (hy2c_options cl) = password" "hy2c_bandwidth cl = client_bandwidth_default" "hy2c_cached cl = None" "hy2c_dials cl = 0"
  using bench_client [OF assms, of server password client_bandwidth_default quic_transport_options_default] unfolding bind_defs by blast

lemma ipv6_unspecified_listener_accepts_ipv4_and_ipv6_passes:
  assumes "bench_ok b"
  shows "ipv6_unspecified_listener_accepts_ipv4_and_ipv6 b client_at"
proof -
  let ?dest = "\<lparr>host = ''example.com'', port = 443\<rparr>" and ?payload = "as_bytes ''dual stack''"
  obtain s trace p where s: "hy2_bind (bench_lib b) (bench_os b) (test_options b \<lparr>ip = V6 0, sport = 0\<rparr>) = (Inr s, trace)"
    "hy2s_users s = [''secret'' \<mapsto> ''alice'']" "hy2s_bandwidth s = server_bandwidth_default"
    "hy2_server_local_addr (bench_os b) s = Inr \<lparr>ip = V6 0, sport = p\<rparr>"
    by (rule default_bind [OF assms, of "\<lparr>ip = V6 0, sport = 0\<rparr>"]) simp
  have "\<exists>cl w r cl' h'. fst (hy2_client_new (bench_lib b) (bench_os b) (test_client_options b addr ''secret'')) = Inr cl \<and>
      echo_connect b (bench_login b s source cl) source ?payload ?dest cl = (Inr (w, r), cl', h') \<and> reads_back ?payload r \<and>
      (\<exists>k. hy2_accepted (echo_accepted b s source ?payload w (bench_login b s source cl)) = [Hy2Stream ?dest ''alice'' source k ?payload])" for addr source
  proof -
    obtain cl where cl: "fst (hy2_client_new (bench_lib b) (bench_os b) (test_client_options b addr ''secret'')) = Inr cl"
      "hco_password (hy2c_options cl) = ''secret''" "hy2c_cached cl = None"
      by (rule default_client [OF assms])
    from bench_echo [OF assms s(2) cl(2) default_admits [of "hy2c_bandwidth cl", folded s(3)] cl(3) test_dest(2), of source ?payload] cl(1)
    show ?thesis by blast
  qed
  then have one: "unwrap_then (fst (hy2_client_new (bench_lib b) (bench_os b) (test_client_options b addr ''secret''))) (\<lambda>client.
      case echo_connect b (bench_login b s source client) source ?payload ?dest client of
        (Inr (w, r), _, _) \<Rightarrow>
          (case hy2_accepted (echo_accepted b s source ?payload w (bench_login b s source client)) of [Hy2Stream _ _ _ _ _] \<Rightarrow> True | _ \<Rightarrow> False) \<and>
          reads_back ?payload r
      | _ \<Rightarrow> False)" for addr source
    by (smt (verit) hy2_accepted.simps(5) list.simps(4,5) old.prod.case old.sum.simps(6) unwrap_then_simps(1))
  show ?thesis
    by (simp add: ipv6_unspecified_listener_accepts_ipv4_and_ipv6_def s(1,4) bench_dual_stack [OF assms s(1)] test_dest(1) one Let_def)
qed

lemma mapped_ipv4_port_rebind_keeps_connection_usable_passes:
  assumes "bench_ok b" "sport source' \<noteq> sport source"
  shows "mapped_ipv4_port_rebind_keeps_connection_usable b source source'"
proof -
  let ?dest = "\<lparr>host = ''example.com'', port = 443\<rparr>" and ?p1 = "as_bytes ''before rebind''" and ?p2 = "as_bytes ''after rebind''"
  obtain s trace p where s: "hy2_bind (bench_lib b) (bench_os b) (test_options b \<lparr>ip = V6 0, sport = 0\<rparr>) = (Inr s, trace)"
    "hy2s_users s = [''secret'' \<mapsto> ''alice'']" "hy2s_bandwidth s = server_bandwidth_default"
    "hy2_server_local_addr (bench_os b) s = Inr \<lparr>ip = V6 0, sport = p\<rparr>"
    by (rule default_bind [OF assms(1), of "\<lparr>ip = V6 0, sport = 0\<rparr>"]) simp
  obtain cl where cl: "fst (hy2_client_new (bench_lib b) (bench_os b) (test_client_options b \<lparr>ip = V4 0x7f000001, sport = p\<rparr> ''secret'')) = Inr cl"
    "hco_password (hy2c_options cl) = ''secret''" "hy2c_cached cl = None" "hy2c_dials cl = 0"
    by (rule default_client [OF assms(1)])
  let ?c = "bench_login b s source cl"
  note admitted = default_admits [of "hy2c_bandwidth cl", folded s(3)]
  note served = bench_served [OF assms(1) s(2) cl(2) admitted cl(3), of source]
  obtain k cl1 h1 where conn: "bench_connection_of b ?c cl = (Inr k, cl1, h1)" "hy2c_cached cl1 = Some k" "hy2c_dials cl1 = 1"
    using served(2) cl(4) by auto
  obtain u kind where phase: "hy2_phase ?c = Serving u kind"
    using served(1) by blast
  obtain w where w: "hy2_connect (bench_rng b) ?dest fresh_writer (echo_answer b ?c source ?p1) = Inr (w, \<lparr>pending = ?p1, ending = Finished\<rparr>)"
    "hy2_accepted (echo_accepted b s source ?p1 w ?c) = [Hy2Stream ?dest u source kind ?p1]"
    using echo_answers [OF assms(1) phase _ test_dest(2), of source ?p1 s] bench_login_fields [of b s source cl] by auto
  let ?c1 = "echo_accepted b s source ?p1 w ?c" and ?cl = "hy2_client_rebind \<lparr>ip = V4 0, sport = 0\<rparr> cl1"
  have first: "echo_connect b ?c source ?p1 ?dest cl = (Inr (w, \<lparr>pending = ?p1, ending = Finished\<rparr>), cl1, h1)"
    by (simp add: echo_connect_split conn(1) w(1))
  have "hy2_phase ?c1 = Serving u kind" "\<not> hy2_app_gone ?c1" "hy2c_cached ?cl = Some k"
    using echo_accepted_fields [OF phase] bench_login_fields(1) [of b s source cl] phase conn(2) by (simp_all add: hy2_client_rebind_def)
  from echo_again [OF assms(1) this(1,2) test_dest(2) this(3), of source' ?p2 s]
  obtain w2 r2 where "echo_connect b ?c1 source' ?p2 ?dest ?cl = (Inr (w2, r2), ?cl, bench_heap b)" "reads_back ?p2 r2"
    "hy2_accepted (echo_accepted b s source' ?p2 w2 ?c1) = [Hy2Stream ?dest u source kind ?p1, Hy2Stream ?dest u source' kind ?p2]"
    using w(2) by auto
  then show ?thesis
    using assms(2) conn(3)
    by (simp add: mapped_ipv4_port_rebind_keeps_connection_usable_def s(1,4) cl(1) test_dest(1) first reads_back_all hy2_client_rebind_def [of _ cl1] Let_def)
qed

text \<open>
  UDP: \<open>connection_handle\<close> gives the test the client's QUIC connection, on which it runs a packet connection
  of its own. What the link carries: the datagrams \<open>send\<close> handed to QUIC, in order.
\<close>

definition bench_datagrams :: "('c, 'r, 'p, 'm) hy2_bench \<Rightarrow> hy2_server \<Rightarrow> socket_addr \<Rightarrow> bytes list \<Rightarrow> 'c hy2_connection \<Rightarrow> 'c hy2_connection" where
  "bench_datagrams b s source ds = fold (bench_step b s source) (map (DatagramRead 0 source) ds)"

definition test_sender :: "datagram_sender \<Rightarrow> bool" where
  "test_sender q \<longleftrightarrow> accepts_all q \<and> datagram_limit q = INITIAL_UDP_MTU"

definition official_udp_datagram_fragmentation_round_trip :: "('c, 'r, 'p, 'm) hy2_bench \<Rightarrow> socket_addr \<Rightarrow> datagram_sender \<Rightarrow> datagram_sender \<Rightarrow> bool" where
  "official_udp_datagram_fragmentation_round_trip b source q q' =
     unwrap_then (fst (hy2_bind (bench_lib b) (bench_os b) (test_options b localhost))) (\<lambda>server.
     unwrap_then (hy2_server_local_addr (bench_os b) server) (\<lambda>addr.
     unwrap_then (fst (hy2_client_new (bench_lib b) (bench_os b) (test_client_options b addr ''secret''))) (\<lambda>client.
       let c = bench_login b server source client
       in unwrap_then (fst (bench_connection_of b c client)) (\<lambda>_.
          unwrap_then (address_new ''1.1.1.1'' 53) (\<lambda>dest.
          unwrap_then (address_new ''8.8.8.8'' 53) (\<lambda>reply_dest.
            let packet = \<lparr>data = replicate 4096 0x5a, destination = dest\<rparr>;
                reply = \<lparr>data = as_bytes ''reply'', destination = reply_dest\<rparr>
            in case packet_send q 0 packet [] (packet_connection_new 0 9) of
                 (Inr _, ds, pc) \<Rightarrow>
                   (let c = bench_datagrams b server source ds c
                    in case hy2_accepted c of
                         [Hy2Packet d u _ _ n] \<Rightarrow>
                           u = ''alice'' \<and> d = dest \<and>
                           (let c = bench_step b server source (SessionRecv True 0 None n) c;
                                c' = bench_step b server source (SessionSend q' 0 reply n) c
                            in hy2_received c = [(n, packet)] \<and>
                               (case hy2_sent c' of
                                  [datagram] \<Rightarrow> unwrap_then (decode_message datagram) (\<lambda>message.
                                    case packet_input 0 message pc of
                                      (Inr _, pc) \<Rightarrow> fst (packet_recv True 0 None pc) = Some (Inr reply)
                                    | _ \<Rightarrow> False)
                                | _ \<Rightarrow> False))
                       | _ \<Rightarrow> False)
               | _ \<Rightarrow> False))))))"

definition udp_session_turn :: "('c, 'r, 'p, 'm) hy2_bench \<Rightarrow> hy2_server \<Rightarrow> socket_addr \<Rightarrow> datagram_sender \<Rightarrow> address \<Rightarrow> u8 \<Rightarrow>
    packet_connection \<times> 'c hy2_connection \<Rightarrow> (packet_connection \<times> 'c hy2_connection) option" where
  "udp_session_turn b server source q dest sequence = (\<lambda>(pc, c).
     let packet = \<lparr>data = [sequence], destination = dest\<rparr>
     in case packet_send q 0 packet [] pc of
          (Inr _, ds, pc) \<Rightarrow>
            (let c' = bench_datagrams b server source ds c
             in case drop (length (hy2_accepted c)) (hy2_accepted c') of
                  [Hy2Packet _ _ _ _ n] \<Rightarrow>
                    (let received = bench_step b server source (SessionRecv True 0 None n) c'
                     in if hy2_received received = hy2_received c @ [(n, packet)]
                        then Some (pc, bench_step b server source (SessionDropped n) received) else None)
                | _ \<Rightarrow> None)
        | _ \<Rightarrow> None)"

definition recreates_udp_session_after_router_releases_it :: "('c, 'r, 'p, 'm) hy2_bench \<Rightarrow> socket_addr \<Rightarrow> datagram_sender \<Rightarrow> bool" where
  "recreates_udp_session_after_router_releases_it b source q =
     unwrap_then (fst (hy2_bind (bench_lib b) (bench_os b) (test_options b localhost))) (\<lambda>server.
     unwrap_then (hy2_server_local_addr (bench_os b) server) (\<lambda>addr.
     unwrap_then (fst (hy2_client_new (bench_lib b) (bench_os b) (test_client_options b addr ''secret''))) (\<lambda>client.
       let c = bench_login b server source client
       in unwrap_then (fst (bench_connection_of b c client)) (\<lambda>_.
          unwrap_then (address_new ''1.1.1.1'' 53) (\<lambda>dest.
            Option.bind (udp_session_turn b server source q dest 0 (packet_connection_new 0 9, c))
              (udp_session_turn b server source q dest 1) \<noteq> None)))))"

lemma serve_datagram_phase_before:
  assumes "hy2_phase (serve_datagram now source u k d c) = Serving u' k'"
  shows "hy2_phase c = Serving u' k'"
proof (cases "decode_message d")
  case (Inl e)
  then show ?thesis using assms by (simp add: serve_datagram_def)
next
  case (Inr m)
  obtain r c1 where c1: "(case session_handle (session_id m) c of Some n \<Rightarrow> (Inr n, c) | None \<Rightarrow> open_session now source u k m c) = (r, c1)"
    by fastforce
  then have "hy2_phase c1 = hy2_phase c"
    by (auto simp: open_session_def Let_def split: option.splits if_splits)
  then show ?thesis
    using assms unfolding serve_datagram_def Inr sum.case c1 prod.case by (auto split: sum.splits option.splits prod.splits)
qed

lemma bench_datagrams_serving:
  "hy2_phase (fold (serve_datagram 0 source u k) ds c) = Serving u k \<Longrightarrow>
   bench_datagrams b s source ds c = fold (serve_datagram 0 source u k) ds c"
proof (induction ds rule: rev_induct)
  case (snoc d ds)
  have "hy2_phase (serve_datagram 0 source u k d (fold (serve_datagram 0 source u k) ds c)) = Serving u k"
    using snoc.prems by simp
  then have "hy2_phase (fold (serve_datagram 0 source u k) ds c) = Serving u k"
    by (rule serve_datagram_phase_before)
  with snoc.IH show ?case
    by (simp add: bench_datagrams_def bench_step_def hy2_connection_step_def)
qed (simp add: bench_datagrams_def)

text \<open>One turn: a packet for a session that does not live opens one, is received, and can be answered.\<close>

lemma bench_packet:
  assumes "accepts_all q" "packet_send q 0 p [] peer = (Inr (), ds, peer')"
    "normal_host (host (destination p))" "utf8_string (host (destination p))"
    "session_handle (conn_session peer) c = None" "\<not> hy2_app_gone c" "hy2_phase c = Serving u k"
  obtains d where "bench_datagrams b s source ds c = c\<lparr>next_handle := next_handle c + 1,
      handles := (handles c)(next_handle c \<mapsto> (packet_connection_new 0 (conn_session peer))\<lparr>fragments := d, incoming := [p]\<rparr>),
      hy2_accepted := hy2_accepted c @ [Hy2Packet (destination p) u source k (next_handle c)],
      udp_sessions := (udp_sessions c)(conn_session peer \<mapsto> next_handle c)\<rparr>"
proof -
  obtain d where d: "fold (serve_datagram 0 source u k) ds c = c\<lparr>next_handle := next_handle c + 1,
      handles := (handles c)(next_handle c \<mapsto> (packet_connection_new 0 (conn_session peer))\<lparr>fragments := d, incoming := [p]\<rparr>),
      hy2_accepted := hy2_accepted c @ [Hy2Packet (destination p) u source k (next_handle c)],
      udp_sessions := (udp_sessions c)(conn_session peer \<mapsto> next_handle c)\<rparr>"
    using serve_packet [OF assms(1-6), of 0 source u k] by blast
  then have "bench_datagrams b s source ds c = fold (serve_datagram 0 source u k) ds c"
    using assms(7) by (intro bench_datagrams_serving) simp
  with d show thesis by (intro that) simp
qed

lemma bench_session_calls:
  "hy2_phase c = Serving u k \<Longrightarrow> bench_step b s source (SessionRecv pick now closed n) c = session_recv pick now closed n c"
  "hy2_phase c = Serving u k \<Longrightarrow> bench_step b s source (SessionSend q now p n) c = session_send q now p n c"
  "hy2_phase c = Serving u k \<Longrightarrow> bench_step b s source (SessionDropped n) c = c\<lparr>handles := (handles c)(n := None)\<rparr>"
  by (simp_all add: bench_step_def hy2_connection_step_def)

lemma test_udp_address:
  "address_new ''1.1.1.1'' 53 = Inr \<lparr>host = ''1.1.1.1'', port = 53\<rparr>" "address_new ''8.8.8.8'' 53 = Inr \<lparr>host = ''8.8.8.8'', port = 53\<rparr>"
  "normal_host ''1.1.1.1''" "normal_host ''8.8.8.8''" "utf8_string ''1.1.1.1''" "utf8_string ''8.8.8.8''"
  "address_to_string \<lparr>host = ''1.1.1.1'', port = 53\<rparr> = ''1.1.1.1:53''" "address_to_string \<lparr>host = ''8.8.8.8'', port = 53\<rparr> = ''8.8.8.8:53''"
proof -
  show "utf8_string ''1.1.1.1''" "utf8_string ''8.8.8.8''"
    by (rule ascii_utf8_string, simp add: is_ascii_def byte_of_char_def)+
  show "address_to_string \<lparr>host = ''1.1.1.1'', port = 53\<rparr> = ''1.1.1.1:53''" "address_to_string \<lparr>host = ''8.8.8.8'', port = 53\<rparr> = ''8.8.8.8:53''"
    by code_simp+
qed (simp_all add: address_new_def normal_host_def bracketed_def)

lemma test_sendable:
  assumes "test_sender q" "length (address_to_string (destination p)) = 10" "length (data p) \<le> 4096"
  shows "sendable q p"
proof -
  have header: "header_size (destination p) = 19"
    by (simp add: header_size_def UDP_HEADER_SIZE_def assms(2)) code_simp
  have "div_ceil (length (data p)) 1178 \<le> 255"
  proof -
    have "length (data p) div 1178 \<le> 4096 div 1178"
      using assms(3) by (rule div_le_mono)
    then show ?thesis by (simp add: div_ceil_def)
  qed
  then show ?thesis
    using assms by (simp add: sendable_def test_sender_def fragment_size_def header INITIAL_UDP_MTU_def MAX_UDP_SIZE_def MAX_ADDRESS_LENGTH_def)
qed

lemma test_send:
  assumes "test_sender q" "length (address_to_string (destination p)) = 10" "length (data p) \<le> 4096"
  shows "packet_send q now p sent pc =
    (Inr (), sent @ frames_of q (conn_session pc) (next_id (next_packet_id pc)) p, pc\<lparr>next_packet_id := next_packet_id pc + 1, activity := now\<rparr>)"
  using test_sendable [OF assms] assms(1) by (simp add: packet_send_cases send_frames_ok test_sender_def)

lemma bench_fresh:
  "session_handle sid (bench_login b s source cl) = None" "hy2_received (bench_login b s source cl) = []"
  "hy2_sent (bench_login b s source cl) = []" "next_handle (bench_login b s source cl) = 0" "handles (bench_login b s source cl) = Map.empty"
proof -
  have "udp_sessions (bench_login b s source cl) = Map.empty \<and> hy2_received (bench_login b s source cl) = [] \<and>
      hy2_sent (bench_login b s source cl) = [] \<and> next_handle (bench_login b s source cl) = 0 \<and> handles (bench_login b s source cl) = Map.empty"
    unfolding bench_login_step
    by (cases rule: first_request_cases [where cfg = "hy2_connection_config (bench_ops b) Some s (bench_incoming b source)" and now = 0 and
          request = "auth_request (bench_rng b) (hco_password (hy2c_options cl)) (hy2c_bandwidth cl)" and stream = "open_h3 []" and c = "hy2_init (bench_heap b)"])
      (simp_all add: to_masquerade_def spawn_masquerade_request_def hy2_init_def)
  then show "session_handle sid (bench_login b s source cl) = None" "hy2_received (bench_login b s source cl) = []"
    "hy2_sent (bench_login b s source cl) = []" "next_handle (bench_login b s source cl) = 0" "handles (bench_login b s source cl) = Map.empty"
    by (simp_all add: session_handle_def)
qed

lemma reply_delivered:
  assumes "test_sender q" "length (address_to_string (destination p)) = 10" "length (data p) \<le> 1178" "data p \<noteq> []"
    "normal_host (host (destination p))" "utf8_string (host (destination p))" "incoming pc = []"
  shows "\<exists>datagram. packet_send q now p [] spc = (Inr (), [datagram], spc\<lparr>next_packet_id := next_packet_id spc + 1, activity := now\<rparr>) \<and>
    (\<exists>m pc'. decode_message datagram = Inr m \<and> packet_input now m pc = (Inr (), pc') \<and> fst (packet_recv True now None pc') = Some (Inr p))"
proof -
  let ?sid = "conn_session spc" and ?pid = "next_id (next_packet_id spc)" and ?cs = "packet_chunks q p"
  have send: "sendable q p"
    using test_sendable [OF assms(1,2)] assms(3) by simp
  have "header_size (destination p) = 19"
    by (simp add: header_size_def UDP_HEADER_SIZE_def assms(2)) code_simp
  then have size: "fragment_size q (destination p) = 1178"
    using assms(1) by (simp add: fragment_size_def test_sender_def INITIAL_UDP_MTU_def)
  then have cs: "?cs = [data p]"
    using assms(3,4) by (simp add: packet_chunks_def chunks_step)
  have "map decode_message (frames_of q ?sid ?pid p) = [Inr (frame_message ?sid ?pid (destination p) ?cs 0)]"
    using frames_of_decode [OF send assms(5,6), of ?sid ?pid] cs by simp
  then obtain f where f: "frames_of q ?sid ?pid p = [f]" "decode_message f = Inr (frame_message ?sid ?pid (destination p) ?cs 0)"
    by (cases "frames_of q ?sid ?pid p") auto
  have "packet_send q now p [] spc = (Inr (), [f], spc\<lparr>next_packet_id := next_packet_id spc + 1, activity := now\<rparr>)"
    using test_send [OF assms(1,2), of now "[]" spc] assms(3) f(1) by simp
  moreover have "fst (packet_recv True now None (snd (packet_input now (frame_message ?sid ?pid (destination p) ?cs 0) pc))) = Some (Inr p)"
    "fst (packet_input now (frame_message ?sid ?pid (destination p) ?cs 0) pc) = Inr ()"
    by (simp_all add: packet_input_def feed_def frame_message_def cs assms(7) packet_recv_def)
  ultimately show ?thesis
    using f(2) by (metis prod.collapse)
qed

lemma official_udp_datagram_fragmentation_round_trip_passes:
  assumes "bench_ok b" "test_sender q" "test_sender q'"
  shows "official_udp_datagram_fragmentation_round_trip b source q q'"
proof -
  let ?dest = "\<lparr>host = ''1.1.1.1'', port = 53\<rparr>" and ?rdest = "\<lparr>host = ''8.8.8.8'', port = 53\<rparr>" and ?peer = "packet_connection_new 0 9"
  define p where "p = \<lparr>data = replicate 4096 (0x5a :: u8), destination = ?dest\<rparr>"
  define reply where "reply = \<lparr>data = as_bytes ''reply'', destination = ?rdest\<rparr>"
  obtain s trace port' where s: "hy2_bind (bench_lib b) (bench_os b) (test_options b localhost) = (Inr s, trace)"
    "hy2s_users s = [''secret'' \<mapsto> ''alice'']" "hy2s_bandwidth s = server_bandwidth_default"
    "hy2_server_local_addr (bench_os b) s = Inr (localhost\<lparr>sport := port'\<rparr>)"
    by (rule default_bind [OF assms(1), of localhost]) (simp add: localhost_def)
  obtain cl where cl: "fst (hy2_client_new (bench_lib b) (bench_os b) (test_client_options b (localhost\<lparr>sport := port'\<rparr>) ''secret'')) = Inr cl"
    "hco_password (hy2c_options cl) = ''secret''" "hy2c_cached cl = None"
    by (rule default_client [OF assms(1)])
  let ?c = "bench_login b s source cl"
  note served = bench_served [OF assms(1) s(2) cl(2) default_admits [of "hy2c_bandwidth cl", folded s(3)] cl(3), of source]
  obtain k where phase: "hy2_phase ?c = Serving ''alice'' k" using served(1) by blast
  obtain conn where conn: "fst (bench_connection_of b ?c cl) = Inr conn" using served(2) by auto
  have pl: "length (address_to_string (destination p)) = 10" "length (data p) \<le> 4096"
    by (simp_all add: p_def test_udp_address)
  obtain ds where sent: "packet_send q 0 p [] ?peer = (Inr (), ds, ?peer\<lparr>next_packet_id := 1, activity := 0\<rparr>)"
    using test_send [OF assms(2) pl, of 0 "[]" ?peer] by (simp add: packet_connection_new_def)
  have q: "accepts_all q" using assms(2) by (simp add: test_sender_def)
  have peer: "conn_session ?peer = 9" by (simp add: packet_connection_new_def)
  obtain d where c1: "bench_datagrams b s source ds ?c = ?c\<lparr>next_handle := next_handle ?c + 1,
      handles := (handles ?c)(next_handle ?c \<mapsto> (packet_connection_new 0 (conn_session ?peer))\<lparr>fragments := d, incoming := [p]\<rparr>),
      hy2_accepted := hy2_accepted ?c @ [Hy2Packet (destination p) ''alice'' source k (next_handle ?c)],
      udp_sessions := (udp_sessions ?c)(conn_session ?peer \<mapsto> next_handle ?c)\<rparr>"
    by (rule bench_packet [OF q sent _ _ bench_fresh(1) bench_login_fields(1) phase, where b = b and s = s and source = source])
      (simp_all add: p_def test_udp_address)
  let ?c1 = "bench_datagrams b s source ds ?c"
  let ?spc = "(packet_connection_new 0 9)\<lparr>fragments := d, incoming := [p]\<rparr>"
  have state: "hy2_phase ?c1 = Serving ''alice'' k" "handles ?c1 0 = Some ?spc" "hy2_accepted ?c1 = [Hy2Packet ?dest ''alice'' source k 0]"
    "hy2_received ?c1 = []" "hy2_sent ?c1 = []"
    by (simp_all add: c1 phase bench_fresh bench_login_fields peer) (simp add: p_def)
  let ?c2 = "session_recv True 0 None 0 ?c1"
  have recv: "hy2_received ?c2 = [(0, p)]" "handles ?c2 0 = Some (?spc\<lparr>incoming := [], activity := 0\<rparr>)" "hy2_sent ?c2 = []" "hy2_phase ?c2 = Serving ''alice'' k"
    using state by (simp_all add: session_recv_def packet_recv_def)
  obtain datagram m pc' where answer: "packet_send q' 0 reply [] (?spc\<lparr>incoming := [], activity := 0\<rparr>) =
      (Inr (), [datagram], (?spc\<lparr>incoming := [], activity := 0\<rparr>)\<lparr>next_packet_id := next_packet_id (?spc\<lparr>incoming := [], activity := 0\<rparr>) + 1, activity := 0\<rparr>)"
    "decode_message datagram = Inr m" "packet_input 0 m (?peer\<lparr>next_packet_id := 1, activity := 0\<rparr>) = (Inr (), pc')"
    "fst (packet_recv True 0 None pc') = Some (Inr reply)"
    using reply_delivered [OF assms(3), where p = reply and pc = "?peer\<lparr>next_packet_id := 1, activity := 0\<rparr>" and now = 0 and spc = "?spc\<lparr>incoming := [], activity := 0\<rparr>"]
    by (auto simp: reply_def test_udp_address as_bytes_def packet_connection_new_def)
  have "hy2_sent (session_send q' 0 reply 0 ?c2) = [datagram]"
    using recv(2,3) answer(1) by (simp add: session_send_def)
  then show ?thesis
    using sent state(3) recv(1) answer(2-4)
    by (simp add: official_udp_datagram_fragmentation_round_trip_def s(1,4) cl(1) conn test_udp_address(1,2) bench_session_calls [OF state(1)]
        bench_session_calls [OF recv(4)] Let_def flip: p_def reply_def)
qed

lemma session_turn:
  assumes "test_sender q" "hy2_phase c = Serving u k" "\<not> hy2_app_gone c" "session_handle (conn_session pc) c = None"
  defines "dest \<equiv> \<lparr>host = ''1.1.1.1'', port = 53\<rparr>"
  shows "\<exists>pc' c'. udp_session_turn b s source q dest x (pc, c) = Some (pc', c') \<and> conn_session pc' = conn_session pc \<and>
    hy2_phase c' = Serving u k \<and> \<not> hy2_app_gone c' \<and> session_handle (conn_session pc) c' = None"
proof -
  define p where "p = \<lparr>data = [x], destination = dest\<rparr>"
  have pl: "length (address_to_string (destination p)) = 10" "length (data p) \<le> 4096"
    by (simp_all add: p_def dest_def test_udp_address)
  obtain ds where sent: "packet_send q 0 p [] pc = (Inr (), ds, pc\<lparr>next_packet_id := next_packet_id pc + 1, activity := 0\<rparr>)"
    using test_send [OF assms(1) pl, of 0 "[]" pc] by simp
  have q: "accepts_all q" using assms(1) by (simp add: test_sender_def)
  obtain d where c1: "bench_datagrams b s source ds c = c\<lparr>next_handle := next_handle c + 1,
      handles := (handles c)(next_handle c \<mapsto> (packet_connection_new 0 (conn_session pc))\<lparr>fragments := d, incoming := [p]\<rparr>),
      hy2_accepted := hy2_accepted c @ [Hy2Packet (destination p) u source k (next_handle c)],
      udp_sessions := (udp_sessions c)(conn_session pc \<mapsto> next_handle c)\<rparr>"
    by (rule bench_packet [OF q sent _ _ assms(4,3,2), where b = b and s = s and source = source])
      (simp_all add: p_def dest_def test_udp_address)
  let ?c1 = "bench_datagrams b s source ds c" and ?n = "next_handle c"
  let ?spc = "(packet_connection_new 0 (conn_session pc))\<lparr>fragments := d, incoming := [p]\<rparr>"
  have state: "hy2_phase ?c1 = Serving u k" "handles ?c1 ?n = Some ?spc" "drop (length (hy2_accepted c)) (hy2_accepted ?c1) = [Hy2Packet dest u source k ?n]"
    "hy2_received ?c1 = hy2_received c" "\<not> hy2_app_gone ?c1" "udp_sessions ?c1 (conn_session pc) = Some ?n"
    using assms(2,3) by (simp_all add: c1) (simp add: p_def)
  let ?c2 = "session_recv True 0 None ?n ?c1"
  have recv: "hy2_received ?c2 = hy2_received c @ [(?n, p)]" "hy2_phase ?c2 = Serving u k" "\<not> hy2_app_gone ?c2"
    using state by (simp_all add: session_recv_def packet_recv_def)
  let ?c3 = "?c2\<lparr>handles := (handles ?c2)(?n := None)\<rparr>"
  have "session_handle (conn_session pc) ?c3 = None"
    using state(6) by (simp add: session_handle_def)
  moreover have "udp_session_turn b s source q dest x (pc, c) = Some (pc\<lparr>next_packet_id := next_packet_id pc + 1, activity := 0\<rparr>, ?c3)"
    using sent state(3) recv(1)
    by (simp add: udp_session_turn_def bench_session_calls [OF state(1)] bench_session_calls [OF recv(2)] Let_def flip: p_def)
  ultimately show ?thesis
    using recv(2,3) by simp
qed

lemma recreates_udp_session_after_router_releases_it_passes:
  assumes "bench_ok b" "test_sender q"
  shows "recreates_udp_session_after_router_releases_it b source q"
proof -
  let ?dest = "\<lparr>host = ''1.1.1.1'', port = 53\<rparr>" and ?peer = "packet_connection_new 0 9"
  obtain s trace port' where s: "hy2_bind (bench_lib b) (bench_os b) (test_options b localhost) = (Inr s, trace)"
    "hy2s_users s = [''secret'' \<mapsto> ''alice'']" "hy2s_bandwidth s = server_bandwidth_default"
    "hy2_server_local_addr (bench_os b) s = Inr (localhost\<lparr>sport := port'\<rparr>)"
    by (rule default_bind [OF assms(1), of localhost]) (simp add: localhost_def)
  obtain cl where cl: "fst (hy2_client_new (bench_lib b) (bench_os b) (test_client_options b (localhost\<lparr>sport := port'\<rparr>) ''secret'')) = Inr cl"
    "hco_password (hy2c_options cl) = ''secret''" "hy2c_cached cl = None"
    by (rule default_client [OF assms(1)])
  let ?c = "bench_login b s source cl"
  note served = bench_served [OF assms(1) s(2) cl(2) default_admits [of "hy2c_bandwidth cl", folded s(3)] cl(3), of source]
  obtain k where phase: "hy2_phase ?c = Serving ''alice'' k" using served(1) by blast
  obtain conn where conn: "fst (bench_connection_of b ?c cl) = Inr conn" using served(2) by auto
  obtain pc1 c1 where first: "udp_session_turn b s source q ?dest 0 (?peer, ?c) = Some (pc1, c1)"
    and c1: "hy2_phase c1 = Serving ''alice'' k" "\<not> hy2_app_gone c1" "session_handle (conn_session pc1) c1 = None"
    using session_turn [OF assms(2) phase bench_login_fields(1) bench_fresh(1), where pc = ?peer and b = b and s = s and source = source and x = 0] by auto
  obtain pc2 c2 where "udp_session_turn b s source q ?dest 1 (pc1, c1) = Some (pc2, c2)"
    using session_turn [OF assms(2) c1, where b = b and s = s and source = source and x = 1] by auto
  with first show ?thesis
    by (simp add: recreates_udp_session_after_router_releases_it_def s(1,4) cl(1) conn test_udp_address(1) Let_def)
qed


text \<open>The masquerade: a site that answers every request, and a stranger that sends three.\<close>

definition test_masquerade :: masquerade_handler where
  "test_masquerade source request body =
     \<lparr>res_status = 200, res_headers = [(''content-type'', ''text/plain'')], res_body = as_bytes (''decoy '' @ req_path request)\<rparr>"

definition test_request :: "string \<Rightarrow> string \<Rightarrow> http_request" where
  "test_request meth path = \<lparr>req_method = meth, req_authority = Some ''localhost'', req_path = path, req_headers = []\<rparr>"

definition serves_multiple_masquerade_requests_on_one_connection :: "('c, 'r, 'p, 'm) hy2_bench \<Rightarrow> socket_addr \<Rightarrow> bool" where
  "serves_multiple_masquerade_requests_on_one_connection b source =
     unwrap_then (fst (hy2_bind_with_bandwidth_and_masquerade (bench_lib b) (bench_os b) (test_options b localhost)
       server_bandwidth_default (Some test_masquerade))) (\<lambda>server.
       let requests = [(''GET'', ''/''), (''HEAD'', ''/head''), (''GET'', ''/assets/app.js'')];
           c = fold (bench_step b server source) (map (\<lambda>(meth, path). Request 0 (test_request meth path) (open_h3 [])) requests) (hy2_init (bench_heap b))
       in list_all2 (\<lambda>(meth, path) (_, _, response).
              (case sent_head response of
                 None \<Rightarrow> False
               | Some (status, headers) \<Rightarrow>
                   status = 200 \<and> header_get ''content-length'' headers = Some (show_nat (length (''decoy '' @ path)))) \<and>
              (case sent_data response of None \<Rightarrow> [] | Some body \<Rightarrow> body) = (if meth = ''HEAD'' then [] else as_bytes (''decoy '' @ path)))
            requests (hy2_masked c))"

lemma masquerade_step:
  assumes "hy2s_masquerade s = Some test_masquerade" "hy2_phase c = AwaitRequest \<or> hy2_phase c = Masquerading"
  shows "bench_step b s source (Request 0 (test_request meth path) (open_h3 [])) c =
    c\<lparr>hy2_phase := Masquerading, hy2_masked := hy2_masked c @ [(test_request meth path,
       serve_masquerade_request (Some test_masquerade) source (test_request meth path) (open_h3 []))]\<rparr>"
proof -
  have "\<not> authenticated Some users (test_request meth path)" for users
    by (simp add: authenticated_def test_request_def URL_AUTHORITY_def)
  then show ?thesis
    using assms by (auto simp: bench_step_def hy2_connection_step_def first_request_def to_masquerade_def spawn_masquerade_request_def Let_def)
qed

lemma masquerade_answer:
  "\<exists>headers res. serve_masquerade_request (Some test_masquerade) source (test_request meth path) (open_h3 []) =
      (res, \<lparr>sent_head = Some (200, headers), sent_data = (if meth = ''HEAD'' then None else Some (as_bytes (''decoy '' @ path))), sent_finished = True\<rparr>) \<and>
    header_get ''content-length'' headers = Some (show_nat (length (''decoy '' @ path)))"
  by (simp add: serve_masquerade_request_def send_masquerade_response_def open_h3_def test_masquerade_def test_request_def nothing_sent_def
      body_is_allowed_def header_get_insert header_remove_def header_contains_def as_bytes_def Let_def)

lemma serves_multiple_masquerade_requests_on_one_connection_passes:
  assumes "bench_ok b"
  shows "serves_multiple_masquerade_requests_on_one_connection b source"
proof -
  obtain s where s: "fst (hy2_bind_with_bandwidth_and_transport_and_masquerade (bench_lib b) (bench_os b) (test_options b localhost)
      server_bandwidth_default quic_transport_options_default (Some test_masquerade)) = Inr s" "hy2s_masquerade s = Some test_masquerade"
    using bench_binds [OF assms, of localhost server_bandwidth_default quic_transport_options_default "Some test_masquerade"] by auto
  show ?thesis
    using masquerade_answer [of source "''GET''" "''/''"] masquerade_answer [of source "''HEAD''" "''/head''"]
      masquerade_answer [of source "''GET''" "''/assets/app.js''"]
    by (auto simp: serves_multiple_masquerade_requests_on_one_connection_def bind_defs s masquerade_step [OF s(2)] hy2_init_def Let_def)
qed


text \<open>There are such benches.\<close>

definition demo_hy2_bench :: "transport_config \<Rightarrow> (congestion_kind \<times> u16, nat, nat, nat) hy2_bench" where
  "demo_hy2_bench defaults =
     \<lparr>bench_lib = plain_library defaults, bench_os = linux_os 443, bench_ops = plain_ops, bench_rng = constant_rng,
      bench_certificate = [1], bench_key = [2]\<rparr>"

lemma demo_hy2_bench_ok: "config_min_mtu defaults \<le> 1200 \<Longrightarrow> bench_ok (demo_hy2_bench defaults)"
  by (simp add: bench_ok_def demo_hy2_bench_def rng_ok_def constant_rng_def byte_of_char_def)
    (intro exI [of _ defaults] exI [of _ 443]; simp)

end
