(* ===== verification/Squic_Tests.thy ===== *)
theory Squic_Tests
  imports Hy2_Tests Squic_Endpoint
begin

text \<open>
  The integration tests of \<open>src/src/shadowquic/mod.rs\<close> and \<open>src/src/sunnyquic/mod.rs\<close>: a server and a client of this
  crate on one machine, replayed on the model with each reading what the other wrote. The operating
  system, TLS, SHA-256 and the QUIC connection are parameters of the bench. Closing the two ends at
  the end of a test asserts nothing and is left out.
\<close>

section \<open>The bench\<close>

record ('c, 'r, 'p, 'm) squic_bench =
  sb_lib :: tls_library
  sb_os :: os_calls
  sb_ops :: "('c, 'r, 'p, 'm) controller_ops"
  sb_sha256 :: "bytes \<Rightarrow> bytes"
  sb_server :: sq_env
  sb_client :: squic_link
  sb_certificate :: bytes
  sb_key :: bytes

definition alice :: user where
  "alice = \<lparr>user_name = ''alice'', user_password = ''secret''\<rparr>"

definition brutal_100_mbit :: congestion_config where
  "brutal_100_mbit = BrutalConfig 12500000 False"

text \<open>
  What the JLS layer reports on both ends: whether password and name of the client are among those the
  server's configuration was given.
\<close>

definition jls_handshake :: "squic_server \<Rightarrow> squic_client \<Rightarrow> handshake" where
  "jls_handshake s cl =
     (case (Option.bind (endpoint_server (server_endpoint s)) (\<lambda>config. tls_jls_server (qs_tls config)),
            Option.bind (endpoint_client (client_endpoint_of cl)) (\<lambda>config. tls_jls_client (qc_tls config))) of
        (Some calls, Some (password, name)) \<Rightarrow>
          if JlsAddUser password name \<in> set calls then \<lparr>jls_authenticated = Some True, jls_user = Some name\<rparr>
          else \<lparr>jls_authenticated = Some False, jls_user = None\<rparr>
      | _ \<Rightarrow> \<lparr>jls_authenticated = None, jls_user = None\<rparr>)"

definition squic_heap :: "('c, 'r, 'p, 'm) squic_bench \<Rightarrow> 'c cc_heap" where
  "squic_heap b = snd (factory_build (sb_ops b) 0 1200 0 Map.empty)"

definition squic_dial :: "squic_server \<Rightarrow> squic_client \<Rightarrow> 'c dial" where
  "squic_dial s cl =
     \<lparr>dial_connect = None, dial_handshake_error = None, dial_connection = bench_connection, dial_now = 0,
      dial_handshake_data = Some (Some (jls_handshake s cl)), dial_open_bi = Inr fresh_writer, dial_finish = None\<rparr>"

text \<open>The server's connection with the client; a SunnyQUIC client's authentication stream comes first.\<close>

definition squic_accepts :: "('c, 'r, 'p, 'm) squic_bench \<Rightarrow> squic_server \<Rightarrow> socket_addr \<Rightarrow> squic_client \<Rightarrow> server_connection option" where
  "squic_accepts b s source cl = accept_connection (sb_ops b) s
     \<lparr>inc_error = None, inc_connection = bench_connection, inc_heap = squic_heap b, inc_now = 0, inc_source = source,
      inc_handshake = Some (Some (jls_handshake s cl))\<rparr>"

definition peer_stream :: "bytes \<Rightarrow> sq_event" where
  "peer_stream bs = BiStream NoWake fresh_writer \<lparr>pending = bs, ending = Finished\<rparr>"

text \<open>Bytes that arrive on a stream nobody has read to its end.\<close>

definition arrive :: "bytes \<Rightarrow> reader \<Rightarrow> reader" where
  "arrive bs r = r\<lparr>pending := pending r @ bs\<rparr>"

definition empty_stream :: reader where
  "empty_stream = \<lparr>pending = [], ending = Finished\<rparr>"


section \<open>The ShadowQUIC tests\<close>

text \<open>The test's server reads four bytes from what it accepted and writes them back; the client reads them.\<close>

definition echo_reply :: "accepted \<Rightarrow> bytes option" where
  "echo_reply a = (case a of
       AcceptedStream dest user source r w \<Rightarrow>
         (case bindR (quic_read_exact 4 r) (\<lambda>(request, r). quic_write_all request w) of
            Inl e \<Rightarrow> None
          | Inr w \<Rightarrow> Some (written w))
     | AcceptedPacket dest user source n \<Rightarrow> None)"

definition ping :: "sq_env \<Rightarrow> server_connection \<Rightarrow> (accepted \<Rightarrow> bool) \<Rightarrow> writer \<times> reader \<Rightarrow> bool" where
  "ping env c check = (\<lambda>(w, r). case sc_accepted (serve_event env (peer_stream (written w @ as_bytes ''ping'')) c) of
       [a] \<Rightarrow> check a \<and> (case echo_reply a of Some bs \<Rightarrow> reads_back (as_bytes ''ping'') (arrive bs r) | None \<Rightarrow> False)
     | _ \<Rightarrow> False)"

definition squic_test_options :: "congestion_config \<Rightarrow> server_options" where
  "squic_test_options congestion =
     \<lparr>options_listen = localhost, options_users = [alice], options_server_name = Some ''localhost'',
      options_jls_upstream_addr = None, options_jls_rate_limit = - 1, options_congestion = congestion, options_zero_rtt = True\<rparr>"

definition squic_client_options :: "socket_addr \<Rightarrow> congestion_config \<Rightarrow> client_options" where
  "squic_client_options server congestion =
     \<lparr>co_server = server, co_server_name = ''localhost'', co_username = ''alice'', co_password = ''secret'',
      co_congestion = congestion, co_zero_rtt = True\<rparr>"

definition squic_connect ::
  "('c, 'r, 'p, 'm) squic_bench \<Rightarrow> squic_server \<Rightarrow> address \<Rightarrow> squic_client \<Rightarrow> 'c cc_heap \<Rightarrow> (writer \<times> reader) result \<times> squic_client \<times> 'c cc_heap" where
  "squic_connect b server dest client =
     client_connect (sb_ops b) (\<lambda>_. True) (\<lambda>_. squic_dial server client) (Inr (fresh_writer, empty_stream)) dest client"

definition squic_connection ::
  "('c, 'r, 'p, 'm) squic_bench \<Rightarrow> squic_server \<Rightarrow> squic_client \<Rightarrow> 'c cc_heap \<Rightarrow> nat result \<times> squic_client \<times> 'c cc_heap" where
  "squic_connection b server client = connection_state (sb_ops b) (\<lambda>_. True) (\<lambda>_. squic_dial server client) client"

definition jls_authenticated_tcp_stream_round_trip :: "('c, 'r, 'p, 'm) squic_bench \<Rightarrow> socket_addr \<Rightarrow> bool" where
  "jls_authenticated_tcp_stream_round_trip b source =
     unwrap_then (fst (bind_server (sb_lib b) (sb_os b) (squic_test_options brutal_100_mbit))) (\<lambda>server.
     unwrap_then (server_local_addr (sb_os b) server) (\<lambda>addr.
     unwrap_then (fst (client_new (sb_lib b) (sb_os b) (squic_client_options addr brutal_100_mbit))) (\<lambda>client.
     unwrap_then (address_new ''example.com'' 443) (\<lambda>dest.
       case (squic_accepts b server source client, squic_connect b server dest client (squic_heap b)) of
         (Some c, Inr stream, client, h) \<Rightarrow>
           client_congestion_kind (\<lambda>_. bench_connection) h client = Some (Brutal 12500000) \<and>
           ping (sb_server b) c (\<lambda>a. accepted_user a = ''alice'') stream
       | _ \<Rightarrow> False))))"

definition test_server :: "('c, 'r, 'p, 'm) squic_bench \<Rightarrow> squic_server result" where
  "test_server b = fst (bind_server (sb_lib b) (sb_os b) (squic_test_options BbrConfig))"

definition test_client :: "('c, 'r, 'p, 'm) squic_bench \<Rightarrow> squic_server \<Rightarrow> squic_client result" where
  "test_client b server = bindR (server_local_addr (sb_os b) server) (\<lambda>addr.
     fst (client_new (sb_lib b) (sb_os b) (squic_client_options addr BbrConfig)))"

definition official_stats_extension_keeps_connection_alive :: "('c, 'r, 'p, 'm) squic_bench \<Rightarrow> socket_addr \<Rightarrow> bool" where
  "official_stats_extension_keeps_connection_alive b source =
     unwrap_then (test_server b) (\<lambda>server.
     unwrap_then (test_client b server) (\<lambda>client.
     unwrap_then (address_new ''example.com'' 443) (\<lambda>dest.
       case (squic_accepts b server source client, squic_connection b server client (squic_heap b)) of
         (Some c, Inr _, client, h) \<Rightarrow>
           (case handle_bi_stream (sb_server b) NoWake c fresh_writer
                   \<lparr>pending = [SQ_EXTENSION] @ to_be_bytes SQ_EXTENSION_CONNECTION @ [SQ_EXTENSION_GET_STATS], ending = Finished\<rparr> of
              (Answered answer, c) \<Rightarrow>
                unwrap_then (quic_read_exact 1 \<lparr>pending = answer, ending = Finished\<rparr>) (\<lambda>(status, r). status = [0] \<and>
                  unwrap_then (quic_read_exact 4 r) (\<lambda>(length, r). from_be_bytes length = (26 :: u32) \<and>
                  unwrap_then (quic_read_exact 26 r) (\<lambda>(stats, r). from_be_bytes [stats ! 24, stats ! 25] \<ge> (1200 :: u16)))) \<and>
                (case squic_connect b server dest client h of
                   (Inr stream, _) \<Rightarrow> ping (sb_server b) c (\<lambda>_. True) stream
                 | _ \<Rightarrow> False)
            | _ \<Rightarrow> False)
       | _ \<Rightarrow> False)))"


text \<open>
  The UDP tests drive the protocol by hand. More bytes on a control stream: \<open>control_arrives\<close>. The events of
  a packet arriving, its task running to its end.
\<close>

definition control_arrives :: "nat \<Rightarrow> bytes \<Rightarrow> udp_plane \<Rightarrow> udp_plane" where
  "control_arrives n bs p =
     p\<lparr>up_controls := (up_controls p)[n := (up_controls p ! n)\<lparr>ctl_recv := arrive bs (ctl_recv (up_controls p ! n))\<rparr>]\<rparr>"

definition packet_arrives :: "udp_mode \<Rightarrow> u16 \<Rightarrow> bytes \<Rightarrow> sq_event list" where
  "packet_arrives mode i bs = (case mode of
       DatagramMode \<Rightarrow> Datagram NoWake (to_be_bytes i @ bs) # replicate 2 (PlaneStep (TaskStep 0))
     | StreamMode \<Rightarrow>
         UniStream NoWake \<lparr>pending = to_be_bytes i @ to_be_bytes (word_of_nat (length bs) :: u16) @ bs, ending = Finished\<rparr> #
         replicate 3 (PlaneStep (TaskStep 0)))"

definition sender_of :: "nat \<Rightarrow> udp_plane \<Rightarrow> packet_sender" where
  "sender_of n p = (uc_senders (up_out p) ! n)\<lparr>sender_next_id := uc_next_id (up_out p)\<rparr>"

definition reply_arrives :: "udp_mode \<Rightarrow> u16 \<Rightarrow> address \<Rightarrow> bytes \<Rightarrow> packet_sender \<Rightarrow> bool" where
  "reply_arrives mode server_id source payload s = (case mode of
       DatagramMode \<Rightarrow>
         (case datagrams s of
            datagram # _ \<Rightarrow> take 2 datagram = to_be_bytes server_id \<and> drop 2 datagram = payload
          | [] \<Rightarrow> False)
     | StreamMode \<Rightarrow>
         (case contexts s source of
            Some (StreamContext w) \<Rightarrow>
              unwrap_then (quic_read_exact 2 \<lparr>pending = written w, ending = Finished\<rparr>) (\<lambda>(i, r). from_be_bytes i = server_id \<and>
              unwrap_then (quic_read_exact 2 r) (\<lambda>(len, r). from_be_bytes len = (word_of_nat (length payload) :: u16) \<and>
              unwrap_then (quic_read_exact (length payload) r) (\<lambda>(response, r). response = payload)))
          | _ \<Rightarrow> False))"

definition official_udp_round_trip :: "udp_mode \<Rightarrow> ('c, 'r, 'p, 'm) squic_bench \<Rightarrow> socket_addr \<Rightarrow> bool" where
  "official_udp_round_trip mode b source =
     unwrap_then (test_server b) (\<lambda>server.
     unwrap_then (test_client b server) (\<lambda>client.
     unwrap_then (bindR (address_new ''0.0.0.0'' 0) encode_address) (\<lambda>any.
     unwrap_then (address_new ''1.1.1.1'' 53) (\<lambda>destination.
     unwrap_then (encode_address destination) (\<lambda>dest.
     unwrap_then (address_new ''8.8.8.8'' 53) (\<lambda>response_source.
       case (squic_accepts b server source client, squic_connection b server client (squic_heap b)) of
         (Some c, Inr _, _) \<Rightarrow>
           (let env = sb_server b; client_id = 7 :: u16;
                opcode = (case mode of DatagramMode \<Rightarrow> SQ_ASSOCIATE_OVER_DATAGRAM | StreamMode \<Rightarrow> SQ_ASSOCIATE_OVER_STREAM);
                c = serve_event env (peer_stream (opcode # any)) c
            in case sc_accepted c of
                 [AcceptedPacket _ user _ n] \<Rightarrow> user = ''alice'' \<and>
                   (let c = c\<lparr>sc_plane := control_arrives n (dest @ to_be_bytes client_id) (sc_plane c)\<rparr>;
                        c = serve_run env (PlaneStep (ControlStep n) # packet_arrives mode client_id (as_bytes ''query'')) c
                    in case plane_recv n (sc_plane c) of
                         (Some (Inr packet), p) \<Rightarrow> sq_destination packet = destination \<and> sq_data packet = as_bytes ''query'' \<and>
                           (case squic_send (env_link env) \<lparr>sq_data = as_bytes ''reply'', sq_destination = response_source\<rparr> (sender_of n p) of
                              (Inr _, s) \<Rightarrow>
                                unwrap_then (decode_address \<lparr>pending = written (control s), ending = Finished\<rparr>) (\<lambda>(announced, r). announced = response_source \<and>
                                unwrap_then (quic_read_exact 2 r) (\<lambda>(server_id, r).
                                  reply_arrives mode (from_be_bytes server_id) response_source (as_bytes ''reply'') s))
                            | _ \<Rightarrow> False)
                       | _ \<Rightarrow> False)
               | _ \<Rightarrow> False)
       | _ \<Rightarrow> False))))))"

definition official_udp_over_datagram_round_trip :: "('c, 'r, 'p, 'm) squic_bench \<Rightarrow> socket_addr \<Rightarrow> bool" where
  "official_udp_over_datagram_round_trip = official_udp_round_trip DatagramMode"

definition official_udp_over_stream_round_trip :: "('c, 'r, 'p, 'm) squic_bench \<Rightarrow> socket_addr \<Rightarrow> bool" where
  "official_udp_over_stream_round_trip = official_udp_round_trip StreamMode"


section \<open>The SunnyQUIC tests\<close>

definition sunny_test_options :: "('c, 'r, 'p, 'm) squic_bench \<Rightarrow> congestion_config \<Rightarrow> sunny_options" where
  "sunny_test_options b congestion =
     \<lparr>so_listen = localhost, so_users = [alice], so_certificate_chain = [sb_certificate b], so_private_key = sb_key b,
      so_congestion = congestion, so_zero_rtt = True\<rparr>"

definition sunny_test_client_options :: "('c, 'r, 'p, 'm) squic_bench \<Rightarrow> socket_addr \<Rightarrow> congestion_config \<Rightarrow> sunny_quic_client_options" where
  "sunny_test_client_options b server congestion =
     \<lparr>sqc_server = server, sqc_server_name = ''localhost'', sqc_username = ''alice'', sqc_password = ''secret'',
      sqc_ca_certificates = [sb_certificate b], sqc_congestion = congestion, sqc_zero_rtt = True\<rparr>"

text \<open>The server's connection once it has read the client's authentication stream.\<close>

definition sunny_logged_in :: "('c, 'r, 'p, 'm) squic_bench \<Rightarrow> sunny_server \<Rightarrow> socket_addr \<Rightarrow> squic_client \<Rightarrow> server_connection option" where
  "sunny_logged_in b server source client = Option.bind (squic_accepts b (sunny_inner server) source client) (\<lambda>c.
     Option.bind (client_cached client) (\<lambda>n. map_option (\<lambda>k. serve_event (sb_server b) (peer_stream (cc_auth_stream k)) c)
       (client_connections client n)))"

definition sunnyquic_authenticates_and_proxies_tcp_with_bbr :: "('c, 'r, 'p, 'm) squic_bench \<Rightarrow> socket_addr \<Rightarrow> bool" where
  "sunnyquic_authenticates_and_proxies_tcp_with_bbr b source =
     unwrap_then (fst (sunny_bind (sb_sha256 b) (sb_lib b) (sb_os b) (sunny_test_options b BbrConfig))) (\<lambda>server.
     unwrap_then (sunny_server_local_addr (sb_os b) server) (\<lambda>addr.
     unwrap_then (fst (sunny_client (sb_sha256 b) (sb_lib b) (sb_os b) (sunny_test_client_options b addr BbrConfig))) (\<lambda>client.
     unwrap_then (address_new ''example.com'' 443) (\<lambda>dest.
       case sunny_connect (sb_ops b) (\<lambda>_. True) (\<lambda>_. squic_dial (sunny_inner server) client) (Inr (fresh_writer, empty_stream)) dest client (squic_heap b) of
         (Inr stream, client, h) \<Rightarrow>
           (case sunny_logged_in b server source client of
              Some c \<Rightarrow> ping (sb_server b) c (\<lambda>a. accepted_user a = ''alice'') stream
            | None \<Rightarrow> False) \<and>
           sunny_congestion_kind (\<lambda>_. bench_connection) h client = Some Bbr
       | _ \<Rightarrow> False))))"

text \<open>What the server's echo puts on the control stream and sends as datagrams is what the client's receiver takes in.\<close>

definition client_hears :: "('c, 'r, 'p, 'm) squic_bench \<Rightarrow> nat \<Rightarrow> bytes \<Rightarrow> bytes list \<Rightarrow> bytes \<Rightarrow> client_connection \<Rightarrow> bool" where
  "client_hears b m announced sent payload k = (case sent of
       [datagram] \<Rightarrow>
         (let k = k\<lparr>cc_plane := control_arrives m announced (cc_plane k)\<rparr>;
              k = client_run (sb_client b) [ClientStep (ControlStep m), ReadDatagram (Inr datagram), ReceiverStep, ReceiverStep] k
          in case plane_recv m (cc_plane k) of
               (Some (Inr response), _) \<Rightarrow> sq_data response = payload
             | _ \<Rightarrow> False)
     | _ \<Rightarrow> False)"

definition sunnyquic_supports_udp_datagrams_with_brutal :: "('c, 'r, 'p, 'm) squic_bench \<Rightarrow> socket_addr \<Rightarrow> bool" where
  "sunnyquic_supports_udp_datagrams_with_brutal b source =
     unwrap_then (fst (sunny_bind (sb_sha256 b) (sb_lib b) (sb_os b) (sunny_test_options b brutal_100_mbit))) (\<lambda>server.
     unwrap_then (sunny_server_local_addr (sb_os b) server) (\<lambda>addr.
     unwrap_then (fst (sunny_client (sb_sha256 b) (sb_lib b) (sb_os b) (sunny_test_client_options b addr brutal_100_mbit))) (\<lambda>client.
     unwrap_then (address_new ''0.0.0.0'' 0) (\<lambda>any.
     unwrap_then (address_new ''example.com'' 443) (\<lambda>dest.
       case sunny_associate (sb_ops b) (\<lambda>_. True) (\<lambda>_. squic_dial (sunny_inner server) client) (Inr (fresh_writer, empty_stream)) any False client (squic_heap b) of
         (Inr (n, m), client, h) \<Rightarrow>
           sunny_congestion_kind (\<lambda>_. bench_connection) h client = Some (Brutal 12500000) \<and>
           (case (sunny_logged_in b server source client, client_connections client n) of
              (Some c, Some k) \<Rightarrow>
                (let query = \<lparr>sq_data = as_bytes ''query'', sq_destination = dest\<rparr>
                 in case squic_send (sb_client b) query (sender_of m (cc_plane k)) of
                      (Inr _, sent) \<Rightarrow>
                        (let k = client_step (sb_client b) (ClientStep (AppSend m query)) k;
                             c = serve_event (sb_server b) (peer_stream (written (control sent))) c
                         in case (sc_accepted c, datagrams sent) of
                              ([AcceptedPacket _ _ _ i], [datagram]) \<Rightarrow>
                                (let c = serve_run (sb_server b) (PlaneStep (ControlStep i) # Datagram NoWake datagram # replicate 2 (PlaneStep (TaskStep 0))) c
                                 in case plane_recv i (sc_plane c) of
                                      (Some (Inr packet), p) \<Rightarrow> sq_data packet = as_bytes ''query'' \<and>
                                        (case squic_send (env_link (sb_server b)) packet (sender_of i p) of
                                           (Inr _, s) \<Rightarrow> client_hears b m (written (control s)) (datagrams s) (as_bytes ''query'') k
                                         | _ \<Rightarrow> False)
                                    | _ \<Rightarrow> False)
                            | _ \<Rightarrow> False)
                    | _ \<Rightarrow> False)
            | _ \<Rightarrow> False)
       | _ \<Rightarrow> False)))))"


section \<open>They pass\<close>

definition squic_bench_ok :: "('c, 'r, 'p, 'm) squic_bench \<Rightarrow> bool" where
  "squic_bench_ok b \<longleftrightarrow> (\<exists>defaults p. p \<noteq> 0 \<and> sb_lib b = plain_library defaults \<and> sb_os b = linux_os p) \<and>
     (\<forall>m. length (sb_sha256 b m) = 32) \<and> link_open (sb_client b) \<and> link_open (env_link (sb_server b)) \<and>
     (\<forall>n. link_open_uni (env_link (sb_server b)) n = Inr fresh_writer) \<and>
     env_finish (sb_server b) = None \<and> (\<forall>n. length (env_rtt_ms (sb_server b) n) = 8) \<and> stats_mtu (env_stats (sb_server b)) \<ge> 1200"

lemma squic_heap_state: "squic_heap b 0 = Some \<lparr>controller = build_bbr (sb_ops b) 0 1200, kind = Bbr, current_mtu = 1200\<rparr>"
  by (simp add: squic_heap_def factory_build_def)

fun nonzero_rate :: "congestion_config \<Rightarrow> bool" where
  "nonzero_rate BbrConfig = True"
| "nonzero_rate (BrutalConfig r dis) = (r \<noteq> 0)"

lemma bench_congestion:
  assumes "h 0 = Some st" "nonzero_rate config"
  shows "\<exists>h'. apply_congestion ops now bench_connection config h = (Inr (), h') \<and>
    connection_congestion_kind bench_connection h' = Some (case config of BbrConfig \<Rightarrow> Bbr | BrutalConfig r _ \<Rightarrow> Brutal r)"
proof -
  obtain h' where h': "apply_congestion ops now bench_connection config h = (Inr (), h')"
    using assms by (cases config) (simp_all add: apply_congestion_def configure_connection_bbr_def configure_connection_brutal_with_options_def
        congestion_state_def clone_box_def bench_connection_def)
  then show ?thesis
    using apply_congestion_kind [OF h'] assms by (auto simp: bench_connection_def)
qed

lemma jls_bench:
  assumes "squic_bench_ok b"
  obtains s cl addr where "fst (bind_server (sb_lib b) (sb_os b) (squic_test_options cg)) = Inr s"
    "server_local_addr (sb_os b) s = Inr addr" "fst (client_new (sb_lib b) (sb_os b) (squic_client_options addr cg)) = Inr cl"
    "server_congestion s = cg" "server_authentication s = JlsAuth" "client_congestion cl = cg" "client_authentication cl = JlsClient"
    "client_cached cl = None" "client_dials cl = 0" "jls_handshake s cl = \<lparr>jls_authenticated = Some True, jls_user = Some ''alice''\<rparr>"
proof -
  obtain defaults p where b: "sb_lib b = plain_library defaults" "sb_os b = linux_os p"
    using assms by (auto simp: squic_bench_ok_def)
  let ?s = "projr (fst (bind_server (sb_lib b) (sb_os b) (squic_test_options cg)))"
  let ?addr = "projr (server_local_addr (sb_os b) ?s)"
  let ?cl = "projr (fst (client_new (sb_lib b) (sb_os b) (squic_client_options ?addr cg)))"
  note defs = bind_server_def bind_inner_def build_server_config_def plain_library_def linux_os_def plain_os_def single_cert_def quic_server_crypto_def
    bind_endpoint_def bind_udp_socket_def tune_udp_socket_def squic_test_options_def server_local_addr_def endpoint_local_addr_def
    client_new_def client_endpoint_def jls_client_config_def quic_client_crypto_def squic_client_options_def client_from_endpoint_def
    jls_handshake_def jls_calls_def alice_def
  show ?thesis
    by (rule that [of ?s ?addr ?cl]) (simp_all add: b defs Let_def split: prod.splits)
qed

lemma jls_accepts_client:
  assumes "server_authentication s = JlsAuth" "jls_handshake s cl = \<lparr>jls_authenticated = Some True, jls_user = Some ''alice''\<rparr>"
    "nonzero_rate (server_congestion s)"
  shows "squic_accepts b s source cl = Some \<lparr>sc_source = source, sc_auth = JlsAuth, sc_user = ''alice'', sc_verdict = None, sc_accepted = [],
    sc_app_gone = False, sc_plane = plane_new, sc_close = None\<rparr>"
proof -
  obtain h' where "apply_congestion (sb_ops b) 0 bench_connection (server_congestion s) (squic_heap b) = (Inr (), h')"
    "connection_congestion_kind bench_connection h' = Some (case server_congestion s of BbrConfig \<Rightarrow> Bbr | BrutalConfig r _ \<Rightarrow> Brutal r)"
    using bench_congestion [where h = "squic_heap b", OF squic_heap_state] assms by blast
  then show ?thesis
    using assms by (simp add: squic_accepts_def accept_connection_def serve_start_def connection_user_def)
qed

lemma jls_connection:
  assumes "client_authentication cl = JlsClient" "client_cached cl = None" "client_dials cl = 0"
    "jls_handshake s cl = \<lparr>jls_authenticated = Some True, jls_user = Some ''alice''\<rparr>" "nonzero_rate (client_congestion cl)"
  obtains h' cl' where "squic_connection b s cl (squic_heap b) = (Inr 0, cl', h')" "client_cached cl' = Some 0"
    "connection_congestion_kind bench_connection h' = Some (case client_congestion cl of BbrConfig \<Rightarrow> Bbr | BrutalConfig r _ \<Rightarrow> Brutal r)"
proof -
  obtain h' where h': "apply_congestion (sb_ops b) 0 bench_connection (client_congestion cl) (squic_heap b) = (Inr (), h')"
    "connection_congestion_kind bench_connection h' = Some (case client_congestion cl of BbrConfig \<Rightarrow> Bbr | BrutalConfig r _ \<Rightarrow> Brutal r)"
    using bench_congestion [where h = "squic_heap b", OF squic_heap_state] assms by blast
  let ?cl = "snd (squic_connection b s cl (squic_heap b))"
  have "squic_connection b s cl (squic_heap b) = (Inr 0, fst ?cl, h') \<and> client_cached (fst ?cl) = Some 0"
    using assms h' by (simp add: squic_connection_def connection_state_def dial_server_def squic_dial_def client_authenticate_def Let_def)
  with h'(2) show ?thesis by (intro that) auto
qed

text \<open>The addresses of the tests on the wire.\<close>

lemma test_encoding:
  "\<exists>bs. encode_address \<lparr>host = ''example.com'', port = 443\<rparr> = Inr bs"
  "canonical \<lparr>host = ''example.com'', port = 443\<rparr> = \<lparr>host = ''example.com'', port = 443\<rparr>"
  by (rule encode_address_domain) (simp_all add: is_ascii_def byte_of_char_def canonical_def example_com_domain)

lemma show_ipv4_octets: "length bs = 4 \<Longrightarrow> show_ipv4 (from_be_bytes bs) = join CHR ''.'' (map (\<lambda>b. show_nat (unat b)) bs)"
  by (simp add: show_ipv4_def to_from_be_bytes)

lemma ip_literals:
  "show_ip (V4 (from_be_bytes [0, 0, 0, 0])) = ''0.0.0.0''"
  "show_ip (V4 (from_be_bytes [1, 1, 1, 1])) = ''1.1.1.1''"
  "show_ip (V4 (from_be_bytes [8, 8, 8, 8])) = ''8.8.8.8''"
proof -
  have "show_nat 0 = ''0''" "show_nat 1 = ''1''" "show_nat 8 = ''8''" by code_simp+
  then show "show_ip (V4 (from_be_bytes [0, 0, 0, 0])) = ''0.0.0.0''" "show_ip (V4 (from_be_bytes [1, 1, 1, 1])) = ''1.1.1.1''"
    "show_ip (V4 (from_be_bytes [8, 8, 8, 8])) = ''8.8.8.8''"
    by (simp_all add: show_ipv4_octets)
qed

lemma literal_encoding:
  assumes "show_ip i = a"
  shows "\<exists>bs. encode_address \<lparr>host = a, port = p\<rparr> = Inr bs" "canonical \<lparr>host = a, port = p\<rparr> = \<lparr>host = a, port = p\<rparr>"
proof -
  have "parse_ip a = Some i" using assms parse_ip_show_ip [of i] by simp
  then show "\<exists>bs. encode_address \<lparr>host = a, port = p\<rparr> = Inr bs" "canonical \<lparr>host = a, port = p\<rparr> = \<lparr>host = a, port = p\<rparr>"
    using assms by (simp_all add: encode_address_def canonical_def split: ip_addr.split)
qed

lemma ping_passes:
  assumes "wait_for_sunny_auth (sc_auth c) (sc_verdict c) NoWake = Some (Inr u)" "\<not> sc_app_gone c" "sc_accepted c = []"
    "encode_connect dest = Inr (written w)" "\<And>d s r w. check (AcceptedStream d (request_user c u) s r w)"
  shows "ping env c check (w, empty_stream)"
proof -
  obtain bs where bs: "encode_address dest = Inr bs" "written w = SQ_CONNECT # bs"
    using assms(4) by (auto simp: encode_connect_def result_iffs)
  have ping: "length (as_bytes ''ping'') = 4" by (simp add: as_bytes_def)
  have "sc_accepted (serve_event env (peer_stream (written w @ as_bytes ''ping'')) c) =
      [AcceptedStream (canonical dest) (request_user c u) (sc_source c) \<lparr>pending = as_bytes ''ping'', ending = Finished\<rparr> fresh_writer]"
    using assms(1-3) decode_encoded_address [OF bs(1), of "as_bytes ''ping''" Finished]
    by (simp add: peer_stream_def bs(2) handle_bi_stream_def sq_codes handle_connect_def send_accepted_def)
  moreover have "quic_read_exact 4 \<lparr>pending = as_bytes ''ping'', ending = Finished\<rparr> = Inr (as_bytes ''ping'', empty_stream)"
    using quic_read_exact_append [OF ping, of "[]" Finished] by (simp add: empty_stream_def)
  ultimately show ?thesis
    using assms(5) reads_back_all [of "as_bytes ''ping''" Finished]
    by (simp add: ping_def echo_reply_def arrive_def empty_stream_def)
qed

lemma squic_connects:
  assumes "squic_connection b s cl h = (Inr n, cl', h')" "encode_connect dest = Inr bs"
  shows "\<exists>w. squic_connect b s dest cl h = (Inr (w, empty_stream), cl', h') \<and> written w = bs"
  using assms by (simp add: squic_connect_def client_connect_def squic_connection_def fresh_writer_def quic_write_all_def accepts_def)

lemma squic_reconnects: "client_cached cl = Some n \<Longrightarrow> squic_connection b s cl h = (Inr n, cl, h)"
  by (simp add: squic_connection_def connection_state_def)

lemma test_connect: "\<exists>bs. encode_connect \<lparr>host = ''example.com'', port = 443\<rparr> = Inr bs"
  using test_encoding(1) by (auto simp: encode_connect_def)

lemma jls_authenticated_tcp_stream_round_trip_passes:
  assumes "squic_bench_ok b"
  shows "jls_authenticated_tcp_stream_round_trip b source"
proof -
  obtain s cl addr where s: "fst (bind_server (sb_lib b) (sb_os b) (squic_test_options brutal_100_mbit)) = Inr s"
    "server_local_addr (sb_os b) s = Inr addr" "fst (client_new (sb_lib b) (sb_os b) (squic_client_options addr brutal_100_mbit)) = Inr cl"
    "server_congestion s = brutal_100_mbit" "server_authentication s = JlsAuth" and cl: "client_congestion cl = brutal_100_mbit"
    "client_authentication cl = JlsClient" "client_cached cl = None" "client_dials cl = 0"
    and hs: "jls_handshake s cl = \<lparr>jls_authenticated = Some True, jls_user = Some ''alice''\<rparr>"
    by (rule jls_bench [OF assms])
  have rate: "nonzero_rate brutal_100_mbit" by (simp add: brutal_100_mbit_def)
  obtain h' cl' where k: "squic_connection b s cl (squic_heap b) = (Inr 0, cl', h')" "client_cached cl' = Some 0"
    "connection_congestion_kind bench_connection h' = Some (case client_congestion cl of BbrConfig \<Rightarrow> Bbr | BrutalConfig r _ \<Rightarrow> Brutal r)"
    using jls_connection [where b = b, OF cl(2-4) hs] rate cl(1) by metis
  obtain bs where bs: "encode_connect \<lparr>host = ''example.com'', port = 443\<rparr> = Inr bs" using test_connect by blast
  obtain w where w: "squic_connect b s \<lparr>host = ''example.com'', port = 443\<rparr> cl (squic_heap b) = (Inr (w, empty_stream), cl', h')" "written w = bs"
    using squic_connects [OF k(1) bs] by blast
  obtain c where c: "squic_accepts b s source cl = Some c" "sc_auth c = JlsAuth" "sc_user c = ''alice''" "sc_accepted c = []" "\<not> sc_app_gone c"
    using jls_accepts_client [OF s(5) hs, of b source] rate s(4) by auto
  have "ping (sb_server b) c (\<lambda>a. accepted_user a = ''alice'') (w, empty_stream)"
    by (rule ping_passes [where u = "[]"]) (use c bs w(2) in \<open>auto simp: wait_for_sunny_auth_def request_user_def\<close>)
  then show ?thesis
    using s(1-3) w(1) c(1) k(2,3) cl(1)
    by (simp add: jls_authenticated_tcp_stream_round_trip_def test_dest(1) client_congestion_kind_def brutal_100_mbit_def)
qed

text \<open>What the Bbr tests share: the server, the client, its connection and the server's side of it.\<close>

lemma test_bench:
  assumes "squic_bench_ok b"
  obtains s cl cl' h' where "test_server b = Inr s" "test_client b s = Inr cl" "squic_connection b s cl (squic_heap b) = (Inr 0, cl', h')"
    "client_cached cl' = Some 0" "squic_accepts b s source cl = Some \<lparr>sc_source = source, sc_auth = JlsAuth, sc_user = ''alice'',
      sc_verdict = None, sc_accepted = [], sc_app_gone = False, sc_plane = plane_new, sc_close = None\<rparr>"
proof -
  obtain s cl addr where s: "fst (bind_server (sb_lib b) (sb_os b) (squic_test_options BbrConfig)) = Inr s"
    "server_local_addr (sb_os b) s = Inr addr" "fst (client_new (sb_lib b) (sb_os b) (squic_client_options addr BbrConfig)) = Inr cl"
    "server_congestion s = BbrConfig" "server_authentication s = JlsAuth" and cl: "client_congestion cl = BbrConfig"
    "client_authentication cl = JlsClient" "client_cached cl = None" "client_dials cl = 0"
    and hs: "jls_handshake s cl = \<lparr>jls_authenticated = Some True, jls_user = Some ''alice''\<rparr>"
    by (rule jls_bench [OF assms])
  obtain h' cl' where "squic_connection b s cl (squic_heap b) = (Inr 0, cl', h')" "client_cached cl' = Some 0"
    using jls_connection [where b = b, OF cl(2-4) hs] cl(1) by (metis nonzero_rate.simps(1))
  moreover have "test_server b = Inr s" "test_client b s = Inr cl"
    using s(1-3) by (simp_all add: test_server_def test_client_def)
  ultimately show ?thesis
    using jls_accepts_client [OF s(5) hs, of b source] s(4) by (intro that) auto
qed

lemma stats_answer:
  assumes "squic_bench_ok b" "sc_auth c = JlsAuth"
  shows "handle_bi_stream (sb_server b) NoWake c fresh_writer
      \<lparr>pending = [SQ_EXTENSION] @ to_be_bytes SQ_EXTENSION_CONNECTION @ [SQ_EXTENSION_GET_STATS], ending = Finished\<rparr> =
    (Answered (stats_reply (env_rtt_ms (sb_server b)) (env_stats (sb_server b))), c)"
  using assms quic_read_exact_append [of "to_be_bytes SQ_EXTENSION_CONNECTION" 8 "[SQ_EXTENSION_GET_STATS]" Finished]
  by (simp add: handle_bi_stream_def sq_codes wait_for_sunny_auth_def handle_extension_def squic_bench_ok_def fresh_writer_def
      quic_write_all_def accepts_def)

lemma stats_read:
  assumes "squic_bench_ok b"
  defines "answer \<equiv> stats_reply (env_rtt_ms (sb_server b)) (env_stats (sb_server b))"
  shows "unwrap_then (quic_read_exact 1 \<lparr>pending = answer, ending = Finished\<rparr>) (\<lambda>(status, r). status = [0] \<and>
      unwrap_then (quic_read_exact 4 r) (\<lambda>(length, r). from_be_bytes length = (26 :: u32) \<and>
      unwrap_then (quic_read_exact 26 r) (\<lambda>(stats, r). from_be_bytes [stats ! 24, stats ! 25] \<ge> (1200 :: u16))))"
proof -
  let ?st = "env_stats (sb_server b)"
  obtain x y where mtu: "to_be_bytes (stats_mtu ?st) = [x, y]"
    by (cases "to_be_bytes (stats_mtu ?st)"; cases "tl (to_be_bytes (stats_mtu ?st))")
      (use length_to_be_bytes [of "stats_mtu ?st"] in auto)
  let ?head = "to_be_bytes (lost_packets ?st) @ to_be_bytes (sent_packets ?st) @ env_rtt_ms (sb_server b) (rtt_ns ?st)"
  have len: "length ?head = 24" using assms(1) by (simp add: squic_bench_ok_def)
  have "from_be_bytes [x, y] = stats_mtu ?st" using from_to_be_bytes_widths(1) [of "stats_mtu ?st"] mtu by simp
  moreover have "quic_read_exact 26 \<lparr>pending = ?head @ [x, y], ending = Finished\<rparr> = Inr (?head @ [x, y], \<lparr>pending = [], ending = Finished\<rparr>)"
    using quic_read_exact_append [of "?head @ [x, y]" 26 "[]" Finished] len by simp
  moreover have "(?head @ [x, y]) ! 24 = x" "(?head @ [x, y]) ! 25 = y"
    using len by (simp_all only: nth_append) simp_all
  moreover have "answer = [0] @ to_be_bytes (26 :: u32) @ ?head @ [x, y]"
    by (simp add: answer_def stats_reply_def mtu)
  ultimately show ?thesis
    using assms(1) quic_read_exact_append [of "to_be_bytes (26 :: u32)" 4 "?head @ [x, y]" Finished]
    by (simp add: squic_bench_ok_def del: append_assoc)
qed

lemma official_stats_extension_keeps_connection_alive_passes:
  assumes "squic_bench_ok b"
  shows "official_stats_extension_keeps_connection_alive b source"
proof -
  define c where "c = \<lparr>sc_source = source, sc_auth = JlsAuth, sc_user = ''alice'', sc_verdict = None, sc_accepted = [],
    sc_app_gone = False, sc_plane = plane_new, sc_close = None\<rparr>"
  obtain s cl cl' h' where s: "test_server b = Inr s" "test_client b s = Inr cl" "squic_connection b s cl (squic_heap b) = (Inr 0, cl', h')"
    "client_cached cl' = Some 0" "squic_accepts b s source cl = Some c"
    unfolding c_def by (rule test_bench [OF assms])
  obtain bs where bs: "encode_connect \<lparr>host = ''example.com'', port = 443\<rparr> = Inr bs" using test_connect by blast
  obtain w where w: "squic_connect b s \<lparr>host = ''example.com'', port = 443\<rparr> cl' h' = (Inr (w, empty_stream), cl', h')" "written w = bs"
    using squic_connects [OF squic_reconnects [OF s(4)] bs] by blast
  have "ping (sb_server b) c (\<lambda>_. True) (w, empty_stream)"
    by (rule ping_passes [where u = "[]"]) (use bs w(2) in \<open>auto simp: c_def wait_for_sunny_auth_def\<close>)
  moreover have "sc_auth c = JlsAuth" by (simp add: c_def)
  ultimately show ?thesis
    using s w(1) stats_answer [OF assms] stats_read [OF assms]
    by (simp add: official_stats_extension_keeps_connection_alive_def test_dest(1))
qed

text \<open>An association of a fresh connection, and the plane after its first announcement.\<close>

definition announced_plane :: "udp_mode \<Rightarrow> writer \<Rightarrow> address \<Rightarrow> u16 \<Rightarrow> udp_plane" where
  "announced_plane mode w dest i = (plane_associate mode w empty_stream plane_new)\<lparr>up_registry := registry_register i dest 0 registry_default,
     up_controls := [\<lparr>ctl_chan = 0, ctl_recv = empty_stream, ctl_ids = [i], ctl_end = None\<rparr>]\<rparr>"

lemma association_opens:
  assumes "wait_for_sunny_auth (sc_auth c) (sc_verdict c) NoWake = Some (Inr u)" "\<not> sc_app_gone c" "sc_accepted c = []" "sc_plane c = plane_new"
    "encode_address any = Inr bs" "opcode = (case mode of DatagramMode \<Rightarrow> SQ_ASSOCIATE_OVER_DATAGRAM | StreamMode \<Rightarrow> SQ_ASSOCIATE_OVER_STREAM)"
  shows "serve_event env (peer_stream (opcode # bs @ rest)) c = c\<lparr>
    sc_accepted := [AcceptedPacket (canonical any) (request_user c u) (sc_source c) 0],
    sc_plane := plane_associate mode fresh_writer \<lparr>pending = rest, ending = Finished\<rparr> plane_new\<rparr>"
  using assms decode_encoded_address [OF assms(5), of rest Finished]
  by (cases mode) (simp_all add: peer_stream_def handle_bi_stream_def sq_codes handle_associate_def send_accepted_def plane_new_def udp_connection_new_def)

lemma announcement_arrives:
  assumes "encode_address dest = Inr bs" "canonical dest = dest"
  shows "plane_step link (ControlStep 0) (control_arrives 0 (bs @ to_be_bytes i) (plane_associate mode w empty_stream plane_new)) = announced_plane mode w dest i"
    "plane_step link (ControlStep 0) (plane_associate mode w \<lparr>pending = bs @ to_be_bytes i, ending = Finished\<rparr> plane_new) = announced_plane mode w dest i"
proof -
  have turn: "control_turn \<lparr>ctl_chan = 0, ctl_recv = \<lparr>pending = bs @ to_be_bytes i, ending = Finished\<rparr>, ctl_ids = [], ctl_end = None\<rparr> reg =
      (\<lparr>ctl_chan = 0, ctl_recv = empty_stream, ctl_ids = [i], ctl_end = None\<rparr>, registry_register i dest 0 reg)" for reg
    using control_turn_frame [of dest "\<lparr>ctl_chan = 0, ctl_recv = \<lparr>pending = bs @ to_be_bytes i, ending = Finished\<rparr>, ctl_ids = [], ctl_end = None\<rparr>" i "[]" Finished reg] assms
    by (simp add: control_frame_def encodable_def empty_stream_def)
  show "plane_step link (ControlStep 0) (control_arrives 0 (bs @ to_be_bytes i) (plane_associate mode w empty_stream plane_new)) = announced_plane mode w dest i"
    "plane_step link (ControlStep 0) (plane_associate mode w \<lparr>pending = bs @ to_be_bytes i, ending = Finished\<rparr> plane_new) = announced_plane mode w dest i"
    by (simp_all add: turn control_arrives_def plane_associate_def plane_new_def udp_connection_new_def arrive_def announced_plane_def add_association_def)
      (simp_all add: turn empty_stream_def)
qed

lemma routed: "registry_wait i (registry_register i dest 0 reg) = Some (Inr \<lparr>route_sender = 0, route_destination = dest\<rparr>)"
  by (simp add: registry_wait_def registry_register_def)

lemma announced_fields:
  "up_registry (announced_plane mode w dest i) = registry_register i dest 0 registry_default" "up_queues (announced_plane mode w dest i) = [0 \<mapsto> []]"
  "up_tasks (announced_plane mode w dest i) = []" "up_out (announced_plane mode w dest i) = add_association mode w udp_connection_new"
  by (simp_all add: announced_plane_def plane_associate_def plane_new_def udp_connection_new_def)

lemma serve_run_Cons: "serve_run env (ev # evs) c = serve_run env evs (serve_event env ev c)"
  by (simp add: serve_run_def)

lemma into_channel: "chan_send 0 x [0 \<mapsto> []] = Some (Inr [0 \<mapsto> [x]])"
  by (simp add: chan_send_def UDP_CAPACITY_def)

lemma received_packet: "up_queues p = [0 \<mapsto> [x]] \<Longrightarrow> fst (plane_recv 0 p) = Some (Inr x) \<and> up_out (snd (plane_recv 0 p)) = up_out p"
  by (simp add: plane_recv_def squic_recv_def)

lemma datagram_routed: "datagram_task (to_be_bytes i @ bs) = AwaitRoute i (OneDatagram bs)"
  by (simp add: datagram_task_def)

lemma packet_taken:
  fixes mode env
  assumes "wait_for_sunny_auth (sc_auth c) (sc_verdict c) NoWake = Some (Inr u)" "sc_plane c = announced_plane m w dest i" "length bs < 65536"
  defines "p \<equiv> sc_plane (serve_run env (packet_arrives mode i bs) c)"
  shows "up_queues p = [0 \<mapsto> [\<lparr>sq_data = bs, sq_destination = dest\<rparr>]]" "up_out p = add_association m w udp_connection_new"
proof -
  let ?route = "\<lparr>route_sender = 0, route_destination = dest\<rparr>" and ?reg = "registry_register i dest 0 registry_default"
  have len: "unat (word_of_nat (length bs) :: u16) = length bs"
    using assms(3) by (simp add: unat_of_nat)
  have stream: "udp_stream_step ?route \<lparr>pending = to_be_bytes (word_of_nat (length bs) :: u16) @ bs, ending = Finished\<rparr> [0 \<mapsto> []] =
      Some (Inr (empty_stream, [0 \<mapsto> [\<lparr>sq_data = bs, sq_destination = dest\<rparr>]]))"
    using quic_read_exact_append [of bs "length bs" "[]" Finished]
    by (simp add: udp_stream_step_def len into_channel empty_stream_def)
  have times: "replicate 2 x = [x, x]" "replicate 3 x = [x, x, x]" for x :: sq_event
    by (simp_all add: numeral_eq_Suc)
  have "up_queues p = [0 \<mapsto> [\<lparr>sq_data = bs, sq_destination = dest\<rparr>]] \<and> up_out p = add_association m w udp_connection_new"
    using assms(1,2)
    by (cases mode) (simp_all add: p_def packet_arrives_def serve_run_def times handle_datagram_def handle_uni_stream_def plane_spawn_def
        announced_fields datagram_routed routed into_channel stream)
  then show "up_queues p = [0 \<mapsto> [\<lparr>sq_data = bs, sq_destination = dest\<rparr>]]" "up_out p = add_association m w udp_connection_new"
    by blast+
qed

lemma first_send:
  assumes "encode_address dest = Inr bs" "link_open link" "room w = None" "mode = StreamMode \<Longrightarrow> link_open_uni link 0 = Inr fresh_writer" "length payload < 65536"
    "up_out p = add_association mode w udp_connection_new"
  obtains s where "squic_send link \<lparr>sq_data = payload, sq_destination = dest\<rparr> (sender_of 0 p) = (Inr (), s)"
    "written (control s) = written w @ bs @ to_be_bytes (0 :: u16)" "mode = DatagramMode \<longrightarrow> datagrams s = [to_be_bytes (0 :: u16) @ payload]"
    "reply_arrives mode 0 dest payload s"
proof -
  let ?p = "\<lparr>sq_data = payload, sq_destination = dest\<rparr>" and ?l = "to_be_bytes (word_of_nat (length payload) :: u16)"
  have s0: "sender_of 0 p = \<lparr>sender_mode = mode, sender_next_id = 0, control = w, contexts = Map.empty, datagrams = [], opened = 0\<rparr>"
    by (simp add: sender_of_def assms(6) add_association_def udp_connection_new_def)
  have read: "quic_read_exact (length payload) \<lparr>pending = payload, ending = Finished\<rparr> = Inr (payload, empty_stream)"
    using quic_read_exact_append [of payload "length payload" "[]" Finished] by (simp add: empty_stream_def)
  have w: "quic_write_all xs (emit ys w) = Inr (emit (ys @ xs) w)" "quic_write_all xs (emit ys fresh_writer) = Inr (emit (ys @ xs) fresh_writer)" "quic_write_all xs w = Inr (emit xs w)" for xs ys
    using assms(3) by (simp_all add: quic_write_all_def accepts_def emit_def fresh_writer_def)
  show ?thesis
  proof (cases mode)
    case DatagramMode
    then show ?thesis
      using assms(2) by (intro that [of "snd (squic_send link ?p (sender_of 0 p))"])
        (simp_all add: s0 squic_send_def open_context_def announce_def send_in_context_def assms(1) w link_open_def reply_arrives_def Let_def)
  next
    case StreamMode
    then show ?thesis
      using assms(4,5) by (intro that [of "snd (squic_send link ?p (sender_of 0 p))"])
        (simp_all add: s0 squic_send_def open_context_def announce_def send_in_context_def assms(1) w reply_arrives_def read Let_def)
  qed
qed

text \<open>The server's application takes the packet and answers it.\<close>

lemma packet_answered:
  assumes "wait_for_sunny_auth (sc_auth c) (sc_verdict c) NoWake = Some (Inr u)" "sc_plane c = announced_plane mode fresh_writer dest i" "length bs < 65536"
    "encode_address rdest = Inr rbs" "squic_bench_ok b" "length payload < 65536"
  obtains p s where "plane_recv 0 (sc_plane (serve_run (sb_server b) (packet_arrives mode i bs) c)) = (Some (Inr \<lparr>sq_data = bs, sq_destination = dest\<rparr>), p)"
    "squic_send (env_link (sb_server b)) \<lparr>sq_data = payload, sq_destination = rdest\<rparr> (sender_of 0 p) = (Inr (), s)"
    "written (control s) = rbs @ to_be_bytes (0 :: u16)" "mode = DatagramMode \<longrightarrow> datagrams s = [to_be_bytes (0 :: u16) @ payload]"
    "reply_arrives mode 0 rdest payload s"
proof -
  define p where "p = sc_plane (serve_run (sb_server b) (packet_arrives mode i bs) c)"
  have p: "up_queues p = [0 \<mapsto> [\<lparr>sq_data = bs, sq_destination = dest\<rparr>]]" "up_out p = add_association mode fresh_writer udp_connection_new"
    using packet_taken [OF assms(1-3)] by (simp_all add: p_def)
  define p' where "p' = snd (plane_recv 0 p)"
  have p': "plane_recv 0 p = (Some (Inr \<lparr>sq_data = bs, sq_destination = dest\<rparr>), p')" "up_out p' = add_association mode fresh_writer udp_connection_new"
    using received_packet [OF p(1)] p(2) by (simp_all add: p'_def prod_eq_iff)
  have link: "link_open (env_link (sb_server b))" "room fresh_writer = None" "link_open_uni (env_link (sb_server b)) 0 = Inr fresh_writer"
    using assms(5) by (simp_all add: squic_bench_ok_def fresh_writer_def)
  obtain s where "squic_send (env_link (sb_server b)) \<lparr>sq_data = payload, sq_destination = rdest\<rparr> (sender_of 0 p') = (Inr (), s)"
    "written (control s) = written fresh_writer @ rbs @ to_be_bytes (0 :: u16)" "mode = DatagramMode \<longrightarrow> datagrams s = [to_be_bytes (0 :: u16) @ payload]"
    "reply_arrives mode 0 rdest payload s"
    by (rule first_send [OF assms(4) link assms(6) p'(2)])
  with p'(1) show ?thesis
    by (intro that) (simp_all add: p_def fresh_writer_def)
qed

lemma official_udp_round_trip_passes:
  assumes "squic_bench_ok b"
  shows "official_udp_round_trip mode b source"
proof -
  let ?any = "\<lparr>host = ''0.0.0.0'', port = 0\<rparr>" and ?dest = "\<lparr>host = ''1.1.1.1'', port = 53\<rparr>" and ?rdest = "\<lparr>host = ''8.8.8.8'', port = 53\<rparr>"
  define c where "c = \<lparr>sc_source = source, sc_auth = JlsAuth, sc_user = ''alice'', sc_verdict = None, sc_accepted = [],
    sc_app_gone = False, sc_plane = plane_new, sc_close = None\<rparr>"
  obtain s cl cl' h' where s: "test_server b = Inr s" "test_client b s = Inr cl" "squic_connection b s cl (squic_heap b) = (Inr 0, cl', h')"
    "client_cached cl' = Some 0" "squic_accepts b s source cl = Some c"
    unfolding c_def by (rule test_bench [OF assms])
  obtain any dest rdest where bs: "encode_address ?any = Inr any" "encode_address ?dest = Inr dest" "encode_address ?rdest = Inr rdest"
    using literal_encoding(1) [OF ip_literals(1), of 0] literal_encoding(1) [OF ip_literals(2), of 53] literal_encoding(1) [OF ip_literals(3), of 53] by blast
  define opcode where "opcode = (case mode of DatagramMode \<Rightarrow> SQ_ASSOCIATE_OVER_DATAGRAM | StreamMode \<Rightarrow> SQ_ASSOCIATE_OVER_STREAM)"
  have c: "wait_for_sunny_auth (sc_auth c) (sc_verdict c) NoWake = Some (Inr [])" "\<not> sc_app_gone c" "sc_accepted c = []" "sc_plane c = plane_new"
    "request_user c [] = ''alice''"
    by (simp_all add: c_def wait_for_sunny_auth_def request_user_def)
  define c1 where "c1 = serve_event (sb_server b) (peer_stream (opcode # any)) c"
  have c1: "sc_accepted c1 = [AcceptedPacket (canonical ?any) ''alice'' source 0]" "sc_plane c1 = plane_associate mode fresh_writer empty_stream plane_new"
    "sc_auth c1 = sc_auth c" "sc_verdict c1 = sc_verdict c"
    using association_opens [OF c(1-4) bs(1) opcode_def, of "sb_server b" "[]"] c(5) by (simp_all add: c1_def c_def empty_stream_def)
  define c2 where "c2 = serve_event (sb_server b) (PlaneStep (ControlStep 0)) (c1\<lparr>sc_plane := control_arrives 0 (dest @ to_be_bytes (7 :: u16)) (sc_plane c1)\<rparr>)"
  have c2: "sc_plane c2 = announced_plane mode fresh_writer ?dest 7" "wait_for_sunny_auth (sc_auth c2) (sc_verdict c2) NoWake = Some (Inr [])"
    using announcement_arrives(1) [OF bs(2) literal_encoding(2) [OF ip_literals(2)]] c(1) c1 by (simp_all add: c2_def del: plane_step.simps)
  obtain p t where t: "plane_recv 0 (sc_plane (serve_run (sb_server b) (packet_arrives mode 7 (as_bytes ''query'')) c2)) =
      (Some (Inr \<lparr>sq_data = as_bytes ''query'', sq_destination = ?dest\<rparr>), p)"
    "squic_send (env_link (sb_server b)) \<lparr>sq_data = as_bytes ''reply'', sq_destination = ?rdest\<rparr> (sender_of 0 p) = (Inr (), t)"
    "written (control t) = rdest @ to_be_bytes (0 :: u16)" "reply_arrives mode 0 ?rdest (as_bytes ''reply'') t"
    by (rule packet_answered [OF c2(2,1) _ bs(3) assms, of "as_bytes ''query''" "as_bytes ''reply''"]) (simp_all add: as_bytes_def)
  have "decode_address \<lparr>pending = rdest @ to_be_bytes (0 :: u16), ending = Finished\<rparr> = Inr (?rdest, \<lparr>pending = to_be_bytes (0 :: u16), ending = Finished\<rparr>)"
    using decode_encoded_address [OF bs(3)] literal_encoding(2) [OF ip_literals(3)] by simp
  moreover have "quic_read_exact 2 \<lparr>pending = to_be_bytes (0 :: u16), ending = Finished\<rparr> = Inr (to_be_bytes (0 :: u16), empty_stream)"
    using quic_read_exact_append [of "to_be_bytes (0 :: u16)" 2 "[]" Finished] by (simp add: empty_stream_def)
  ultimately show ?thesis
    using s(1-3,5) bs t c1(1)
    by (simp add: official_udp_round_trip_def test_udp_address(1,2) address_new_def Let_def serve_run_Cons
        del: serve_event.simps flip: opcode_def c1_def c2_def)
qed

text \<open>SunnyQUIC: the same bench with a login.\<close>

lemma sunny_bench:
  assumes "squic_bench_ok b"
  obtains s cl addr where "fst (sunny_bind (sb_sha256 b) (sb_lib b) (sb_os b) (sunny_test_options b cg)) = Inr s"
    "sunny_server_local_addr (sb_os b) s = Inr addr"
    "fst (sunny_client (sb_sha256 b) (sb_lib b) (sb_os b) (sunny_test_client_options b addr cg)) = Inr cl"
    "server_congestion (sunny_inner s) = cg" "server_authentication (sunny_inner s) = SunnyAuth (sunny_users (sb_sha256 b) [alice])"
    "client_congestion cl = cg" "client_authentication cl = SunnyClient (credential_of (sb_sha256 b) alice)"
    "client_cached cl = None" "client_dials cl = 0"
proof -
  obtain defaults p where b: "sb_lib b = plain_library defaults" "sb_os b = linux_os p"
    using assms by (auto simp: squic_bench_ok_def)
  let ?s = "projr (fst (sunny_bind (sb_sha256 b) (sb_lib b) (sb_os b) (sunny_test_options b cg)))"
  let ?addr = "projr (sunny_server_local_addr (sb_os b) ?s)"
  let ?cl = "projr (fst (sunny_client (sb_sha256 b) (sb_lib b) (sb_os b) (sunny_test_client_options b ?addr cg)))"
  note defs = sunny_bind_def bind_sunny_def inner_options_def bind_inner_def build_sunny_server_config_def plain_library_def linux_os_def plain_os_def
    single_cert_def quic_server_crypto_def detect_private_key_def bind_endpoint_def bind_udp_socket_def tune_udp_socket_def sunny_test_options_def
    sunny_server_local_addr_def server_local_addr_def endpoint_local_addr_def sunny_client_def client_new_sunny_def client_endpoint_def
    sunny_client_config_def quic_client_crypto_def sunny_test_client_options_def client_from_endpoint_def credential_of_def alice_def
  show ?thesis
    by (rule that [of ?s ?addr ?cl]) (simp_all add: b defs Let_def split: prod.splits)
qed

lemma sunny_connection:
  assumes "client_authentication cl = SunnyClient cred" "client_cached cl = None" "client_dials cl = 0" "nonzero_rate (client_congestion cl)"
  obtains h' cl' k where "squic_connection b s cl (squic_heap b) = (Inr 0, cl', h')" "client_cached cl' = Some 0" "client_connections cl' 0 = Some k"
    "cc_auth_stream k = SQ_AUTHENTICATE # cred" "cc_receiver k = Idle" "cc_plane k = plane_new"
    "connection_congestion_kind bench_connection h' = Some (case client_congestion cl of BbrConfig \<Rightarrow> Bbr | BrutalConfig r _ \<Rightarrow> Brutal r)"
proof -
  obtain h' where h': "apply_congestion (sb_ops b) 0 bench_connection (client_congestion cl) (squic_heap b) = (Inr (), h')"
    "connection_congestion_kind bench_connection h' = Some (case client_congestion cl of BbrConfig \<Rightarrow> Bbr | BrutalConfig r _ \<Rightarrow> Brutal r)"
    using bench_congestion [where h = "squic_heap b", OF squic_heap_state] assms by blast
  let ?k = "\<lparr>cc_id = 0, cc_auth_stream = SQ_AUTHENTICATE # cred, cc_receiver = Idle, cc_plane = plane_new\<rparr>"
  let ?cl = "cl\<lparr>client_dials := Suc 0, client_connections := (client_connections cl)(0 \<mapsto> ?k), client_cached := Some 0\<rparr>"
  have "squic_connection b s cl (squic_heap b) = (Inr 0, ?cl, h')"
    using assms h'(1) by (simp add: squic_connection_def connection_state_def dial_server_def squic_dial_def client_authenticate_def Let_def
        quic_write_all_def accepts_def fresh_writer_def emit_def)
  with h'(2) show ?thesis by (intro that [where cl' = ?cl and k = ?k]) auto
qed

lemma sunny_login:
  assumes "squic_bench_ok b" "server_authentication (sunny_inner s) = SunnyAuth (sunny_users (sb_sha256 b) [alice])"
    "nonzero_rate (server_congestion (sunny_inner s))" "client_cached cl = Some 0" "client_connections cl 0 = Some k"
    "cc_auth_stream k = SQ_AUTHENTICATE # credential_of (sb_sha256 b) alice"
  obtains c where "sunny_logged_in b s source cl = Some c" "wait_for_sunny_auth (sc_auth c) (sc_verdict c) NoWake = Some (Inr ''alice'')"
    "\<not> sc_app_gone c" "sc_accepted c = []" "sc_plane c = plane_new" "request_user c ''alice'' = ''alice''"
proof -
  let ?users = "sunny_users (sb_sha256 b) [alice]" and ?cred = "credential_of (sb_sha256 b) alice"
  define c0 where "c0 = \<lparr>sc_source = source, sc_auth = SunnyAuth ?users, sc_user = [], sc_verdict = None, sc_accepted = [],
    sc_app_gone = False, sc_plane = plane_new, sc_close = None\<rparr>"
  obtain h' where "apply_congestion (sb_ops b) 0 bench_connection (server_congestion (sunny_inner s)) (squic_heap b) = (Inr (), h')"
    "connection_congestion_kind bench_connection h' = Some (case server_congestion (sunny_inner s) of BbrConfig \<Rightarrow> Bbr | BrutalConfig r _ \<Rightarrow> Brutal r)"
    using bench_congestion [where h = "squic_heap b", OF squic_heap_state] assms by blast
  then have c0: "squic_accepts b (sunny_inner s) source cl = Some c0"
    using assms(2) by (simp add: squic_accepts_def accept_connection_def serve_start_def connection_user_def c0_def)
  have user: "?users ?cred = Some ''alice''"
    using sunny_users_complete [of "sb_sha256 b" "[alice]" alice] by (simp add: alice_def)
  have len: "length ?cred = 64"
    using assms(1) length_sunny_credential [of "sb_sha256 b" "user_name alice" "user_password alice"] by (simp add: squic_bench_ok_def credential_of_def)
  have read: "quic_read_exact 64 \<lparr>pending = ?cred, ending = Finished\<rparr> = Inr (?cred, empty_stream)"
    using quic_read_exact_append [OF len, of "[]" Finished] by (simp add: empty_stream_def)
  have "serve_event (sb_server b) (peer_stream (SQ_AUTHENTICATE # ?cred)) c0 = c0\<lparr>sc_verdict := Some (Inr ''alice'')\<rparr>"
    using user by (simp add: peer_stream_def handle_bi_stream_def handle_authenticate_def c0_def read)
  then have "sunny_logged_in b s source cl = Some (c0\<lparr>sc_verdict := Some (Inr ''alice'')\<rparr>)"
    using c0 assms(4-6) by (simp add: sunny_logged_in_def)
  then show ?thesis by (rule that) (simp_all add: c0_def wait_for_sunny_auth_def request_user_def)
qed

lemma sunnyquic_authenticates_and_proxies_tcp_with_bbr_passes:
  assumes "squic_bench_ok b"
  shows "sunnyquic_authenticates_and_proxies_tcp_with_bbr b source"
proof -
  obtain s cl addr where s: "fst (sunny_bind (sb_sha256 b) (sb_lib b) (sb_os b) (sunny_test_options b BbrConfig)) = Inr s"
    "sunny_server_local_addr (sb_os b) s = Inr addr"
    "fst (sunny_client (sb_sha256 b) (sb_lib b) (sb_os b) (sunny_test_client_options b addr BbrConfig)) = Inr cl"
    "server_congestion (sunny_inner s) = BbrConfig" "server_authentication (sunny_inner s) = SunnyAuth (sunny_users (sb_sha256 b) [alice])"
    and cl: "client_congestion cl = BbrConfig" "client_authentication cl = SunnyClient (credential_of (sb_sha256 b) alice)"
    "client_cached cl = None" "client_dials cl = 0"
    by (rule sunny_bench [OF assms])
  obtain h' cl' k where k: "squic_connection b (sunny_inner s) cl (squic_heap b) = (Inr 0, cl', h')" "client_cached cl' = Some 0"
    "client_connections cl' 0 = Some k" "cc_auth_stream k = SQ_AUTHENTICATE # credential_of (sb_sha256 b) alice" "cc_receiver k = Idle"
    "cc_plane k = plane_new"
    "connection_congestion_kind bench_connection h' = Some (case client_congestion cl of BbrConfig \<Rightarrow> Bbr | BrutalConfig r _ \<Rightarrow> Brutal r)"
    by (rule sunny_connection [OF cl(2-4), of b "sunny_inner s"]) (simp_all add: cl(1))
  obtain c where c: "sunny_logged_in b s source cl' = Some c" "wait_for_sunny_auth (sc_auth c) (sc_verdict c) NoWake = Some (Inr ''alice'')"
    "\<not> sc_app_gone c" "sc_accepted c = []" "request_user c ''alice'' = ''alice''"
    by (rule sunny_login [OF assms s(5) _ k(2-4), of source]) (simp_all add: s(4))
  obtain bs where bs: "encode_connect \<lparr>host = ''example.com'', port = 443\<rparr> = Inr bs" using test_connect by blast
  obtain w where w: "squic_connect b (sunny_inner s) \<lparr>host = ''example.com'', port = 443\<rparr> cl (squic_heap b) = (Inr (w, empty_stream), cl', h')" "written w = bs"
    using squic_connects [OF k(1) bs] by blast
  have "ping (sb_server b) c (\<lambda>a. accepted_user a = ''alice'') (w, empty_stream)"
    by (rule ping_passes [OF c(2-4)]) (use bs w(2) c(5) in auto)
  then show ?thesis
    using s(1-3) w(1) c(1) k(2,7) cl(1)
    by (simp add: sunnyquic_authenticates_and_proxies_tcp_with_bbr_def test_dest(1) sunny_connect_def sunny_congestion_kind_def
        client_congestion_kind_def flip: squic_connect_def)
qed

lemma plane_step_out: "plane_step link (ControlStep n) (p\<lparr>up_out := x\<rparr>) = (plane_step link (ControlStep n) p)\<lparr>up_out := x\<rparr>"
  "control_arrives n bs (p\<lparr>up_out := x\<rparr>) = (control_arrives n bs p)\<lparr>up_out := x\<rparr>"
  by (simp_all add: control_arrives_def split: prod.splits)

lemma client_hears_reply:
  fixes i :: u16
  assumes "encode_address dest = Inr bs" "canonical dest = dest" "cc_receiver k = Idle"
    "cc_plane k = (plane_associate mode w empty_stream plane_new)\<lparr>up_out := x\<rparr>"
  shows "client_hears b 0 (bs @ to_be_bytes i) [to_be_bytes i @ payload] payload k"
proof -
  define k1 where "k1 = client_step (sb_client b) (ClientStep (ControlStep 0)) (k\<lparr>cc_plane := control_arrives 0 (bs @ to_be_bytes i) (cc_plane k)\<rparr>)"
  have k1: "cc_receiver k1 = Idle" "cc_plane k1 = (announced_plane mode w dest i)\<lparr>up_out := x\<rparr>"
    using announcement_arrives(1) [OF assms(1,2)] assms(3,4) by (simp_all add: k1_def plane_step_out del: plane_step.simps)
  have "up_queues (cc_plane (client_run (sb_client b) [ReadDatagram (Inr (to_be_bytes i @ payload)), ReceiverStep, ReceiverStep] k1)) =
      [0 \<mapsto> [\<lparr>sq_data = payload, sq_destination = dest\<rparr>]]"
    using k1 by (simp add: client_run_def receiver_step_def datagram_routed announced_fields routed into_channel)
  with received_packet obtain p where "plane_recv 0 (cc_plane (client_run (sb_client b) [ReadDatagram (Inr (to_be_bytes i @ payload)), ReceiverStep, ReceiverStep] k1)) =
      (Some (Inr \<lparr>sq_data = payload, sq_destination = dest\<rparr>), p)"
    by (metis prod.collapse)
  then show ?thesis
    by (simp add: client_hears_def client_run_Cons Let_def flip: k1_def del: client_step.simps(1,3,5))
qed

lemma sunny_associates:
  assumes "squic_connection b s cl h = (Inr 0, cl', h')" "client_connections cl' 0 = Some k" "cc_plane k = plane_new" "encode_address any = Inr bs"
  obtains w where "room w = None" "written w = SQ_ASSOCIATE_OVER_DATAGRAM # bs"
    "sunny_associate (sb_ops b) (\<lambda>_. True) (\<lambda>_. squic_dial s cl) (Inr (fresh_writer, empty_stream)) any False cl h =
      (Inr (0, 0), cl'\<lparr>client_connections := (client_connections cl')(0 \<mapsto> k\<lparr>cc_plane := plane_associate DatagramMode w empty_stream plane_new\<rparr>)\<rparr>, h')"
proof -
  let ?w = "emit (SQ_ASSOCIATE_OVER_DATAGRAM # bs) fresh_writer"
  show ?thesis
    by (rule that [of ?w]) (use assms in \<open>simp_all add: sunny_associate_def client_associate_def squic_connection_def quic_write_all_def accepts_def
        fresh_writer_def emit_def plane_new_def udp_connection_new_def\<close>)
qed

lemma sunny_udp_bench:
  assumes "squic_bench_ok b" "encode_address any = Inr bs"
  obtains s addr cl cl' h' k w c where "fst (sunny_bind (sb_sha256 b) (sb_lib b) (sb_os b) (sunny_test_options b brutal_100_mbit)) = Inr s"
    "sunny_server_local_addr (sb_os b) s = Inr addr"
    "fst (sunny_client (sb_sha256 b) (sb_lib b) (sb_os b) (sunny_test_client_options b addr brutal_100_mbit)) = Inr cl"
    "sunny_associate (sb_ops b) (\<lambda>_. True) (\<lambda>_. squic_dial (sunny_inner s) cl) (Inr (fresh_writer, empty_stream)) any False cl (squic_heap b) = (Inr (0, 0), cl', h')"
    "sunny_congestion_kind (\<lambda>_. bench_connection) h' cl' = Some (Brutal 12500000)"
    "client_connections cl' 0 = Some k" "cc_receiver k = Idle" "cc_plane k = plane_associate DatagramMode w empty_stream plane_new"
    "room w = None" "written w = SQ_ASSOCIATE_OVER_DATAGRAM # bs"
    "sunny_logged_in b s source cl' = Some c" "wait_for_sunny_auth (sc_auth c) (sc_verdict c) NoWake = Some (Inr ''alice'')"
    "\<not> sc_app_gone c" "sc_accepted c = []" "sc_plane c = plane_new" "request_user c ''alice'' = ''alice''"
proof -
  obtain s cl addr where s: "fst (sunny_bind (sb_sha256 b) (sb_lib b) (sb_os b) (sunny_test_options b brutal_100_mbit)) = Inr s"
    "sunny_server_local_addr (sb_os b) s = Inr addr"
    "fst (sunny_client (sb_sha256 b) (sb_lib b) (sb_os b) (sunny_test_client_options b addr brutal_100_mbit)) = Inr cl"
    "server_congestion (sunny_inner s) = brutal_100_mbit" "server_authentication (sunny_inner s) = SunnyAuth (sunny_users (sb_sha256 b) [alice])"
    and cl: "client_congestion cl = brutal_100_mbit" "client_authentication cl = SunnyClient (credential_of (sb_sha256 b) alice)"
    "client_cached cl = None" "client_dials cl = 0"
    by (rule sunny_bench [OF assms(1)])
  have rate: "nonzero_rate brutal_100_mbit" by (simp add: brutal_100_mbit_def)
  obtain h' cl' k where k: "squic_connection b (sunny_inner s) cl (squic_heap b) = (Inr 0, cl', h')" "client_cached cl' = Some 0"
    "client_connections cl' 0 = Some k" "cc_auth_stream k = SQ_AUTHENTICATE # credential_of (sb_sha256 b) alice" "cc_receiver k = Idle"
    "cc_plane k = plane_new"
    "connection_congestion_kind bench_connection h' = Some (case client_congestion cl of BbrConfig \<Rightarrow> Bbr | BrutalConfig r _ \<Rightarrow> Brutal r)"
    by (rule sunny_connection [OF cl(2-4), of b "sunny_inner s"]) (simp_all add: cl(1) rate)
  obtain w where w: "room w = None" "written w = SQ_ASSOCIATE_OVER_DATAGRAM # bs"
    and assoc: "sunny_associate (sb_ops b) (\<lambda>_. True) (\<lambda>_. squic_dial (sunny_inner s) cl) (Inr (fresh_writer, empty_stream)) any False cl (squic_heap b) =
      (Inr (0, 0), cl'\<lparr>client_connections := (client_connections cl')(0 \<mapsto> k\<lparr>cc_plane := plane_associate DatagramMode w empty_stream plane_new\<rparr>)\<rparr>, h')"
    by (rule sunny_associates [OF k(1,3,6) assms(2)])
  define k1 where "k1 = k\<lparr>cc_plane := plane_associate DatagramMode w empty_stream plane_new\<rparr>"
  define cl1 where "cl1 = cl'\<lparr>client_connections := (client_connections cl')(0 \<mapsto> k1)\<rparr>"
  have cl1: "client_cached cl1 = Some 0" "client_connections cl1 0 = Some k1" "cc_auth_stream k1 = SQ_AUTHENTICATE # credential_of (sb_sha256 b) alice"
    using k(2,4) by (simp_all add: cl1_def k1_def)
  obtain c where c: "sunny_logged_in b s source cl1 = Some c" "wait_for_sunny_auth (sc_auth c) (sc_verdict c) NoWake = Some (Inr ''alice'')"
    "\<not> sc_app_gone c" "sc_accepted c = []" "sc_plane c = plane_new" "request_user c ''alice'' = ''alice''"
    by (rule sunny_login [OF assms(1) s(5) _ cl1, of source]) (simp_all add: s(4) rate)
  have "sunny_congestion_kind (\<lambda>_. bench_connection) h' cl1 = Some (Brutal 12500000)"
    using k(7) cl(1) cl1(1) by (simp add: sunny_congestion_kind_def client_congestion_kind_def brutal_100_mbit_def)
  then show ?thesis
    using k(5) by (intro that [OF s(1-3) assoc [folded k1_def cl1_def] _ cl1(2) _ _ w c]) (simp_all add: k1_def)
qed

lemma sunnyquic_supports_udp_datagrams_with_brutal_passes:
  assumes "squic_bench_ok b"
  shows "sunnyquic_supports_udp_datagrams_with_brutal b source"
proof -
  let ?any = "\<lparr>host = ''0.0.0.0'', port = 0\<rparr>" and ?dest = "\<lparr>host = ''example.com'', port = 443\<rparr>"
  let ?query = "\<lparr>sq_data = as_bytes ''query'', sq_destination = ?dest\<rparr>"
  obtain any dest where bs: "encode_address ?any = Inr any" "encode_address ?dest = Inr dest"
    using literal_encoding(1) [OF ip_literals(1), of 0] test_encoding(1) by blast
  obtain s addr cl cl' h' k w c where s: "fst (sunny_bind (sb_sha256 b) (sb_lib b) (sb_os b) (sunny_test_options b brutal_100_mbit)) = Inr s"
    "sunny_server_local_addr (sb_os b) s = Inr addr"
    "fst (sunny_client (sb_sha256 b) (sb_lib b) (sb_os b) (sunny_test_client_options b addr brutal_100_mbit)) = Inr cl"
    "sunny_associate (sb_ops b) (\<lambda>_. True) (\<lambda>_. squic_dial (sunny_inner s) cl) (Inr (fresh_writer, empty_stream)) ?any False cl (squic_heap b) = (Inr (0, 0), cl', h')"
    "sunny_congestion_kind (\<lambda>_. bench_connection) h' cl' = Some (Brutal 12500000)"
    and k: "client_connections cl' 0 = Some k" "cc_receiver k = Idle" "cc_plane k = plane_associate DatagramMode w empty_stream plane_new"
    and w: "room w = None" "written w = SQ_ASSOCIATE_OVER_DATAGRAM # any"
    and c: "sunny_logged_in b s source cl' = Some c" "wait_for_sunny_auth (sc_auth c) (sc_verdict c) NoWake = Some (Inr ''alice'')"
    "\<not> sc_app_gone c" "sc_accepted c = []" "sc_plane c = plane_new" "request_user c ''alice'' = ''alice''"
    by (rule sunny_udp_bench [OF assms bs(1)])
  have out: "up_out (cc_plane k) = add_association DatagramMode w udp_connection_new"
    by (simp add: k(3) plane_associate_def plane_new_def Let_def)
  obtain sent where sent: "squic_send (sb_client b) ?query (sender_of 0 (cc_plane k)) = (Inr (), sent)"
    "written (control sent) = SQ_ASSOCIATE_OVER_DATAGRAM # any @ dest @ to_be_bytes (0 :: u16)" "datagrams sent = [to_be_bytes (0 :: u16) @ as_bytes ''query'']"
    by (rule first_send [OF bs(2) _ w(1) _ _ out, of "sb_client b" "as_bytes ''query''"]) (use assms w(2) in \<open>simp_all add: squic_bench_ok_def as_bytes_def\<close>)
  define c1 where "c1 = serve_event (sb_server b) (peer_stream (written (control sent))) c"
  have c1: "c1 = c\<lparr>sc_accepted := [AcceptedPacket (canonical ?any) ''alice'' (sc_source c) 0],
      sc_plane := plane_associate DatagramMode fresh_writer \<lparr>pending = dest @ to_be_bytes (0 :: u16), ending = Finished\<rparr> plane_new\<rparr>"
    using association_opens [OF c(2-5) bs(1), of SQ_ASSOCIATE_OVER_DATAGRAM DatagramMode "sb_server b" "dest @ to_be_bytes (0 :: u16)"] c(6)
    by (simp add: c1_def sent(2))
  then have accepted: "sc_accepted c1 = [AcceptedPacket (canonical ?any) ''alice'' (sc_source c) 0]" by simp
  define c2 where "c2 = serve_event (sb_server b) (PlaneStep (ControlStep 0)) c1"
  have c2: "sc_plane c2 = announced_plane DatagramMode fresh_writer ?dest 0" "wait_for_sunny_auth (sc_auth c2) (sc_verdict c2) NoWake = Some (Inr ''alice'')"
    using announcement_arrives(2) [OF bs(2) test_encoding(2)] c(2) by (simp_all add: c2_def c1 del: plane_step.simps)
  obtain p t where t: "plane_recv 0 (sc_plane (serve_run (sb_server b) (packet_arrives DatagramMode 0 (as_bytes ''query'')) c2)) = (Some (Inr ?query), p)"
    "squic_send (env_link (sb_server b)) ?query (sender_of 0 p) = (Inr (), t)"
    "written (control t) = dest @ to_be_bytes (0 :: u16)" "datagrams t = [to_be_bytes (0 :: u16) @ as_bytes ''query'']"
    by (rule packet_answered [OF c2(2,1) _ bs(2) assms, of "as_bytes ''query''" "as_bytes ''query''"]) (simp_all add: as_bytes_def)
  define k2 where "k2 = client_step (sb_client b) (ClientStep (AppSend 0 ?query)) k"
  obtain x where k2: "cc_receiver k2 = Idle" "cc_plane k2 = (plane_associate DatagramMode w empty_stream plane_new)\<lparr>up_out := x\<rparr>"
    using k(2,3) by (auto simp: k2_def plane_associate_def plane_new_def udp_connection_new_def)
  have "client_hears b 0 (written (control t)) (datagrams t) (as_bytes ''query'') k2"
    unfolding t(3,4) by (rule client_hears_reply [OF bs(2) test_encoding(2) k2])
  moreover have "Datagram NoWake (to_be_bytes (0 :: u16) @ as_bytes ''query'') # replicate 2 (PlaneStep (TaskStep 0)) = packet_arrives DatagramMode 0 (as_bytes ''query'')"
    by (simp add: packet_arrives_def)
  ultimately show ?thesis
    using s c(1) k(1) sent(1,3) t(1,2) accepted
    by (simp add: sunnyquic_supports_udp_datagrams_with_brutal_def test_dest(1) address_new_def Let_def serve_run_Cons
        del: serve_event.simps client_step.simps flip: c1_def c2_def k2_def)
qed

lemma official_udp_over_datagram_round_trip_passes: "squic_bench_ok b \<Longrightarrow> official_udp_over_datagram_round_trip b source"
  unfolding official_udp_over_datagram_round_trip_def by (rule official_udp_round_trip_passes)

lemma official_udp_over_stream_round_trip_passes: "squic_bench_ok b \<Longrightarrow> official_udp_over_stream_round_trip b source"
  unfolding official_udp_over_stream_round_trip_def by (rule official_udp_round_trip_passes)

text \<open>There are such benches.\<close>

definition demo_bench :: "transport_config \<Rightarrow> (congestion_kind \<times> u16, nat, nat, nat) squic_bench" where
  "demo_bench defaults =
     \<lparr>sb_lib = plain_library defaults, sb_os = linux_os 443, sb_ops = plain_ops, sb_sha256 = (\<lambda>_. upstream_digest), sb_server = demo_env,
      sb_client = env_link demo_env, sb_certificate = [1], sb_key = [2]\<rparr>"

lemma demo_bench_ok: "squic_bench_ok (demo_bench defaults)"
  by (simp add: squic_bench_ok_def demo_bench_def demo_env_def link_open_def upstream_digest_def)
    (intro exI [of _ defaults] exI [of _ 443]; simp)

end
