(* ===== verification/Spec2Isabelle.thy ===== *)
theory Spec2Isabelle
  imports Metrics Stream_Adapters Hy2_Client Hy2_Session Hy2_Endpoint Squic_Registry Squic_Isolation Squic_Endpoint Squic_Session Squic_Tests
begin

text \<open>
  A verification development of the Rust crate \<open>sing-quic\<close> (\<open>src/src/\<close>): three proxy protocols over QUIC.

  \<^bold>\<open>The program.\<close> A server binds a UDP socket, builds a TLS and QUIC configuration and spawns an accept
  task; each QUIC connection gets a task of its own that authenticates the peer and turns its streams
  and datagrams into accepted TCP streams and UDP sessions, which \<open>Server::accept\<close> hands to the
  application through one bounded channel. A client keeps one authenticated connection and opens a
  stream per request. Hysteria2 (\<open>hysteria2/\<close>) authenticates with an HTTP/3 request, masquerades as a web
  site towards everybody else, negotiates bandwidth and fragments UDP packets over datagrams.
  ShadowQUIC (\<open>shadowquic/mod.rs\<close>) authenticates in the TLS handshake (JLS), SunnyQUIC (\<open>sunnyquic/mod.rs\<close>, a
  wrapper of it) with a credential on a stream; both announce UDP destinations on a control stream
  and tag packets with the announced id. All three share the switchable congestion controller
  (\<open>congestion.rs\<close>), the adaptive windows (\<open>transport.rs\<close>) and the socket setup (\<open>hysteria2/transport.rs\<close>).

  \<^bold>\<open>Foundations.\<close>
  \<^item> \<open>Sq_Prelude\<close>: machine integers as words, results with early return, big-endian layouts, the locale of
    step systems with an invariant.
  \<^item> \<open>Std_Text\<close>, \<open>Std_Net\<close>: what the crate uses of the standard library: numbers as text, UTF-8, parsing and
    printing of IP and socket addresses (from the algorithms of the library), proved inverse.
  \<^item> \<open>Sq_IO\<close>: \<open>error.rs\<close>, and QUIC streams as what the peer sends and how the stream ends, or as what was
    written and how much more the peer takes. A failed \<open>expect\<close> or index is the error \<open>Panic\<close>.

  \<^bold>\<open>Shared components.\<close>
  \<^item> \<open>Address\<close> (\<open>address.rs\<close>) and \<open>Varint\<close> (\<open>varint.rs\<close>): round trips; the crate's two integer decoders meet one
    contract, the locales \<open>varint_decoder\<close> and \<open>varint_codec\<close>, interpreted on the model's functions.
  \<^item> \<open>Congestion\<close> (\<open>congestion.rs\<close>): the controller switch; the \<open>Arc<Mutex<_>>\<close> it is shared by is a location of
    an explicit heap. The recorded kind is always the algorithm in use.
  \<^item> \<open>Transport\<close> (\<open>transport.rs\<close>, the configurations of \<open>hysteria2/transport.rs\<close> and \<open>shadowquic/mod.rs\<close>): the
    window arithmetic at 64 and 128 bits equals its exact value, capped.
  \<^item> \<open>Quic_Setup\<close>, \<open>Squic_Setup\<close>, \<open>Hy2_Setup\<close>: \<open>bind_endpoint\<close>, \<open>bind_udp_socket\<close>, \<open>tune_udp_socket\<close>, and every TLS
    configuration the three protocols build. A function that calls the operating system also returns
    the calls it made and what it logged.
  \<^item> \<open>Accept_Loop\<close>: the accept task, connection tasks and the accept queue of both servers, parametrised by
    what a connection does. The locale \<open>connection_service\<close> states what a connection guarantees (what
    it accepts is allowed by its settings and the events it saw; it only ever adds to what it accepted)
    and proves what then holds for the server; \<open>Squic_Endpoint\<close> and \<open>Hy2_Endpoint\<close> interpret it.
  \<^item> \<open>Stream_Adapters\<close> (\<open>hysteria2/stream.rs\<close>, \<open>ShadowQuicStream\<close>): the locale \<open>duplex\<close>, two independent halves,
    interpreted on both stream types. \<open>Metrics\<close> (\<open>hysteria2/metrics.rs\<close>): the logging task.

  \<^bold>\<open>ShadowQUIC and SunnyQUIC.\<close>
  \<^item> \<open>Squic_Codec\<close>: addresses on the wire. \<open>Squic_Udp\<close>: the id registry, control stream, incoming datagrams and
    streams, and the sender, with the bound on the work a peer can cause.
  \<^item> \<open>Squic_Plane\<close>: the UDP state of one connection, shared by both ends: registry, bounded channels, control
    and packet tasks, senders, as a machine whose tasks advance between suspension points; an
    uninterrupted task does what the handler of \<open>Squic_Udp\<close> does.
  \<^item> \<open>Squic_Delivery\<close>: what is sent is what arrives, in both modes. \<open>Squic_Associations\<close>: many associations on
    one id counter. \<open>Squic_Isolation\<close>: two ends and a network that loses, repeats and reorders; under
    every schedule in which no 16-bit id is taken twice, an association hands out only what was sent on it. \<open>Squic_Registry\<close>: the registry's
    tasks as an interleaving step relation; no wake-up is lost.
  \<^item> \<open>Squic_Server\<close>: options, users, authentication, every stream handler, a connection as a machine over
    events; nobody is served without authentication. \<open>Squic_Endpoint\<close>: the whole server, with live
    updates. \<open>Squic_Client\<close>: construction, connection cache, requests, receiver, and the SunnyQUIC wrapper;
    \<open>Squic_Client_Udp\<close>: what the receiver does and does not deliver. \<open>Squic_Session\<close>: runs of a client's and a
    server's connection that belong together, and how an association ends.

  \<^bold>\<open>Hysteria2.\<close>
  \<^item> \<open>Hy2_Protocol\<close> (\<open>protocol.rs\<close>), \<open>Hy2_Datagram\<close>, \<open>Hy2_Packet\<close>, \<open>Hy2_Udp\<close> (\<open>packet.rs\<close>): frames, datagrams,
    reassembly in any order with duplicates and interleaving, sending, queue and idle timer.
  \<^item> \<open>Hy2_Negotiation\<close>, \<open>Hy2_Masquerade\<close>: the rates each end computes and the answers to strangers.
  \<^item> \<open>Hy2_Server\<close> (one connection), \<open>Hy2_Endpoint\<close> (the whole server), \<open>Hy2_Client\<close> (construction, cached
    connection, authentication, connect; login, negotiation and connect across both programs). \<open>Hy2_Session\<close>: a packet from
    a peer's \<open>send\<close> to the application's \<open>recv\<close>, with sessions that come, go and do not disturb each other.

  \<^bold>\<open>The tests.\<close> Every test of the crate is a definition of the same name that runs the model as the test runs
  the program and states what the test asserts; a lemma with the suffix \<open>_passes\<close> shows that it holds.
  \<open>Unit_Tests\<close>: the tests of single functions. \<open>Hy2_Tests\<close>, \<open>Squic_Tests\<close>: a server and a client of one protocol
  on a bench (TLS, the operating system, controllers; \<open>linux_os\<close> is an operating system with dual-stack
  sockets that gives out a free port) that passes each what the other sends.

  This theory holds what spans client and server of ShadowQUIC and SunnyQUIC: a TCP request and a UDP
  association end to end.

  \<^bold>\<open>Conventions.\<close> An operation of the code is a function of the same name where it is free, with the
  state it changes passed through. Suspension points of asynchronous code are explicit: a handler
  that would sleep returns that it waits and has changed nothing; a task runs one event at a time, and
  properties quantify over all event sequences. Loops over received bytes are total functions whose
  termination is proved by the bytes left; nothing in the development uses fuel. The bounded channels
  (accept queue, packets of an association) have their capacity; a send to a full one waits. A stream
  handler may go on before its item is in the accept queue. Clocks and timeouts are arguments or events.

  \<^bold>\<open>Parameters.\<close> Code of other crates is an argument: the BBR and Brutal controllers (\<open>controller_ops\<close>), the
  operating system (\<open>os_calls\<close>), rustls and quinn configuration (\<open>tls_library\<close>), dialling and handshakes
  (\<open>dial\<close>, \<open>hy2_dial\<close>, \<open>sq_incoming\<close>, \<open>hy2_incoming\<close>), datagram sending (\<open>squic_link\<close>, \<open>datagram_sender\<close>), HTTP/3 (the
  events of \<open>Hy2_Server\<close>, \<open>h3_stream\<close>), SHA-256, the random generator (\<open>rng\<close>), IEEE arithmetic (\<open>f64_ops\<close>) and the
  masquerade handler. Properties that rely on their behaviour say so in a hypothesis, such as that
  SHA-256 yields 32 bytes or that a header value is text exactly when it is visible ASCII.

  \<^bold>\<open>Not modelled.\<close> \<open>lib.rs\<close> and the module lists (declarations only), \<open>Debug\<close> implementations, log
  output other than that of the socket setup and the metrics task, the vendored QUIC, TLS and HTTP/3
  libraries. Not modelled of the modelled parts: the \<open>Drop\<close> of the window task (it only ends background
  work); of the tests, their timeouts and the closing of both ends after the last assertion.
\<close>


section \<open>TCP streams: client and server\<close>

text \<open>
  (C13) A SunnyQUIC request across the two programs: a client constructed with a listed user's name and
  password dials, authenticates and connects; the server that reads its two streams, in either
  order, accepts exactly one stream, for the requested destination and in the user's name, with what
  the client's application sends behind the request.
\<close>

theorem sunny_connect_end_to_end:
  assumes "\<forall>m. length (sha256 m) = 32" "distinct (map (credential_of sha256) us)" "u \<in> set us" "user_name u \<noteq> []"
    "sunny_client sha256 lib os options = (Inr cl, trace)"
    "sqc_username options = user_name u" "sqc_password options = user_password u"
    "dial_open_bi (dials 0) = Inr fresh_writer"
    "sunny_connect ops alive dials (Inr (fresh_writer, r)) dest cl h = (Inr (w, r'), cl', h')"
    "serve_start source (SunnyAuth (sunny_users sha256 us)) hs cc = Inr (c, rate)"
  shows "\<exists>k. client_connections cl' 0 = Some k \<and> r' = r \<and>
    (let auth = BiStream NoWake w1 \<lparr>pending = cc_auth_stream k, ending = e1\<rparr>;
         request = BiStream NoWake w2 \<lparr>pending = written w @ app_data, ending = e2\<rparr>;
         accepted = [AcceptedStream (canonical dest) (user_name u) source \<lparr>pending = app_data, ending = e2\<rparr> w2]
     in sc_accepted (serve_run env [auth, request] c) = accepted \<and>
        sc_accepted (serve_run env [request, auth, request] c) = accepted \<and>
        sc_accepted (serve_run env [request] c) = [])"
proof -
  let ?cred = "sunny_credential sha256 (user_name u) (user_password u)"
  have cl: "client_authentication cl = SunnyClient ?cred" "client_cached cl = None" "client_dials cl = 0"
    using client_new_sunny_Inr [OF assms(5) [unfolded sunny_client_def]] assms(6,7) by (auto simp: client_from_endpoint_def)
  obtain k req where k: "client_connections cl' 0 = Some k" "cc_auth_stream k = SQ_AUTHENTICATE # ?cred"
    and req: "encode_connect dest = Inr req" "written w = req" "r' = r"
    using assms(9) cl unfolding sunny_connect_def client_connect_def connection_state_def dial_server_def client_authenticate_def
    by (auto simp: assms(8) quic_write_all_def fresh_writer_def emit_def result_iffs Let_def split: sum.splits option.splits if_splits prod.splits)
  have c: "sc_auth c = SunnyAuth (sunny_users sha256 us)" "\<not> sc_app_gone c" "sc_accepted c = []" "sc_source c = source" "sc_verdict c = None"
    using assms(10) by (auto simp: serve_start_def connection_user_def result_iffs)
  let ?auth = "\<lparr>pending = cc_auth_stream k, ending = e1\<rparr>" and ?request = "\<lparr>pending = written w @ app_data, ending = e2\<rparr>"
  obtain c1 where c1: "handle_bi_stream env NoWake c w1 ?auth = (Ended (Inr ()), c1)"
      "handle_bi_stream env NoWake c1 w2 ?request = (Ended (Inr ()), c1\<lparr>sc_accepted := sc_accepted c1 @
         [AcceptedStream (canonical dest) (user_name u) (sc_source c) \<lparr>pending = app_data, ending = e2\<rparr> w2]\<rparr>)"
    using sunny_login_streams [OF assms(1-3) c(1,2) req(1) assms(4), of env NoWake w1 e1 NoWake w2 app_data e2] k(2) req(2) by auto
  have acc: "sc_accepted c1 = []"
    using c1(1) c(1,3) k(2) by (auto simp: handle_bi_stream_def handle_authenticate_def split: sum.splits option.splits prod.splits)
  have waits: "handle_bi_stream env NoWake c w2 ?request = (Waiting, c)"
    using c(1,5) req(1) by (auto simp: req(2) encode_connect_def result_iffs handle_bi_stream_def handle_connect_def sq_codes wait_for_sunny_auth_def)
  show ?thesis
    using k(1) req(3) c1 acc waits c(3,4) by (intro exI [of _ k]) (simp add: serve_run_def Let_def)
qed

definition demo_client_options :: sunny_quic_client_options where
  "demo_client_options =
     \<lparr>sqc_server = \<lparr>ip = V4 1, sport = 443\<rparr>, sqc_server_name = ''example'', sqc_username = ''bob'', sqc_password = ''x'',
      sqc_ca_certificates = [], sqc_congestion = BbrConfig, sqc_zero_rtt = False\<rparr>"

lemma demo_client_constructed: "\<exists>cl trace. sunny_client sha256 (plain_library defaults) plain_os demo_client_options = (Inr cl, trace)"
  by (simp add: sunny_client_def client_new_sunny_def client_endpoint_def sunny_client_config_def demo_client_options_def
      plain_library_def plain_os_def quic_client_crypto_def bind_endpoint_def bind_udp_socket_def tune_udp_socket_def
      client_bind_address_def Let_def)

definition demo_address :: address where
  "demo_address = \<lparr>host = ''a'', port = 1\<rparr>"

lemma demo_encodable: "\<exists>bs. encode_address demo_address = Inr bs"
  by (rule encode_address_domain) (simp_all add: demo_address_def is_ascii_def byte_of_char_def)

theorem sunny_connect_end_to_end_witness:
  "\<forall>defaults. \<exists>cl trace w cl' h' c k. sunny_client demo_sha (plain_library defaults) plain_os demo_client_options = (Inr cl, trace) \<and>
     sunny_connect plain_ops (\<lambda>_. False) (\<lambda>_. open_dial) (Inr (fresh_writer, \<lparr>pending = [], ending = Finished\<rparr>)) demo_address cl dial_heap =
       (Inr (w, \<lparr>pending = [], ending = Finished\<rparr>), cl', h') \<and> client_connections cl' 0 = Some k \<and>
     map accepted_user (sc_accepted (serve_run demo_env
       [BiStream NoWake fresh_writer \<lparr>pending = cc_auth_stream k, ending = Finished\<rparr>,
        BiStream NoWake fresh_writer \<lparr>pending = written w @ [7], ending = Finished\<rparr>] c)) = [''bob'']"
proof
  fix defaults
  let ?u = "\<lparr>user_name = ''bob'', user_password = ''x''\<rparr>" and ?r = "\<lparr>pending = [], ending = Finished\<rparr> :: reader"
  obtain cl trace where cl: "sunny_client demo_sha (plain_library defaults) plain_os demo_client_options = (Inr cl, trace)"
    using demo_client_constructed by blast
  then obtain ep where ep: "cl = client_from_endpoint ep \<lparr>ip = V4 1, sport = 443\<rparr> ''example'' BbrConfig
      (SunnyClient (sunny_credential demo_sha ''bob'' ''x''))"
    using client_new_sunny_Inr [OF cl [unfolded sunny_client_def]] by (auto simp: demo_client_options_def)
  obtain bs where bs: "encode_address demo_address = Inr bs"
    using demo_encodable by blast
  obtain w cl' h' where w: "sunny_connect plain_ops (\<lambda>_. False) (\<lambda>_. open_dial) (Inr (fresh_writer, ?r)) demo_address cl dial_heap = (Inr (w, ?r), cl', h')"
    by (simp add: ep sunny_connect_def client_connect_def connection_state_def client_from_endpoint_def dial_server_def client_authenticate_def
        open_dial_def closed_dial_def apply_congestion_def configure_connection_bbr_def congestion_state_def clone_box_def
        quic_write_all_def accepts_def emit_def fresh_writer_def encode_connect_def bs)
  obtain c where c: "serve_start \<lparr>ip = V4 0, sport = 1\<rparr> (SunnyAuth (sunny_users demo_sha [?u])) None (Some Bbr) = Inr (c, 0)"
    by (simp add: serve_start_def connection_user_def)
  have sha: "\<forall>m. length (demo_sha m) = 32" by (simp add: demo_sha_def)
  have d: "dial_open_bi open_dial = Inr fresh_writer" by (simp add: open_dial_def)
  from sunny_connect_end_to_end [OF sha _ _ _ cl _ _ d w c, of ?u fresh_writer Finished fresh_writer "[7]" Finished demo_env]
  obtain k where "client_connections cl' 0 = Some k" "sc_accepted (serve_run demo_env
       [BiStream NoWake fresh_writer \<lparr>pending = cc_auth_stream k, ending = Finished\<rparr>,
        BiStream NoWake fresh_writer \<lparr>pending = written w @ [7], ending = Finished\<rparr>] c) =
      [AcceptedStream (canonical demo_address) ''bob'' \<lparr>ip = V4 0, sport = 1\<rparr> \<lparr>pending = [7], ending = Finished\<rparr> fresh_writer]"
    by (auto simp: Let_def demo_client_options_def)
  with cl w show "\<exists>cl trace w cl' h' c k. sunny_client demo_sha (plain_library defaults) plain_os demo_client_options = (Inr cl, trace) \<and>
     sunny_connect plain_ops (\<lambda>_. False) (\<lambda>_. open_dial) (Inr (fresh_writer, ?r)) demo_address cl dial_heap =
       (Inr (w, ?r), cl', h') \<and> client_connections cl' 0 = Some k \<and>
     map accepted_user (sc_accepted (serve_run demo_env
       [BiStream NoWake fresh_writer \<lparr>pending = cc_auth_stream k, ending = Finished\<rparr>,
        BiStream NoWake fresh_writer \<lparr>pending = written w @ [7], ending = Finished\<rparr>] c)) = [''bob'']"
    by (intro exI [of _ cl] exI [of _ trace] exI [of _ w] exI [of _ cl'] exI [of _ h'] exI [of _ c] exI [of _ k]) simp
qed


section \<open>UDP associations: client and server\<close>

text \<open>
  (C4) A UDP association across the two programs, on a connection that has passed the gate: the request of
  \<open>associate\<close> makes the server accept a packet connection for that destination; whatever packets the
  client then sends on it (to at most 65536 destinations), the server can take in the announcements
  and then every datagram that arrives, in any order and any number of times, and the packet
  connection hands out exactly the corresponding packets, with their data and destination.
\<close>

theorem squic_associate_end_to_end:
  assumes "client_associate ops alive dials (Inr (fresh_writer, r)) dest False cl h = (Inr (n, m), cl', h')"
    "client_connections cl' n = Some k" "link_open link"
    "\<forall>p \<in> set ps. encodable (sq_destination p)" "card (sq_destination ` set ps) \<le> 65536"
    "set js \<subseteq> {..<length ps}" "length js \<le> UDP_CAPACITY"
    "wait_for_sunny_auth (sc_auth c) (sc_verdict c) woken = Some (Inr u)" "\<not> sc_app_gone c" "plane_inv (sc_plane c)"
    "ch = length (up_controls (sc_plane c))"
  shows "\<exists>s c1 turns. uc_senders (up_out (cc_plane (client_run link (map (\<lambda>p. ClientStep (AppSend m p)) ps) k))) ! m = s \<and>
    handle_bi_stream env woken c w \<lparr>pending = written (control s), ending = e\<rparr> = (Running, c1) \<and>
    sc_accepted c1 = sc_accepted c @ [AcceptedPacket (canonical dest) (request_user c u) (sc_source c) ch] \<and>
    up_queues (sc_plane (serve_run env (replicate turns (PlaneStep (ControlStep ch)) @
      datagram_schedule woken (length (up_tasks (sc_plane c))) (map (\<lambda>j. datagrams s ! j) js)) c1)) ch =
        Some (map (\<lambda>j. received_as (ps ! j)) js)"
proof -
  obtain addr i as s where s: "encode_address dest = Inr addr"
      "uc_senders (up_out (cc_plane (client_run link (map (\<lambda>p. ClientStep (AppSend m p)) ps) k))) ! m = s"
      "sender_inv (SQ_ASSOCIATE_OVER_DATAGRAM # addr) i as ps s" "set as = sq_destination ` set ps"
    by (rule client_association_sends [OF assms(1-4)])
  have "distinct as" using s(3) by (simp add: sender_inv_def)
  then have "length as \<le> 65536" using assms(5) s(4) distinct_card [of as] by simp
  then show ?thesis
    by (rule server_association_receives [OF s(1,3) _ assms(6-10), of env w e]) (use s(2) assms(11) in blast)
qed

theorem squic_associate_end_to_end_witness:
  "\<exists>m cl' h' k s c c1. client_associate plain_ops (\<lambda>_. False) (\<lambda>_. open_dial) (Inr (fresh_writer, \<lparr>pending = [], ending = Finished\<rparr>)) demo_address False
      (plain_client JlsClient) dial_heap = (Inr (0, m), cl', h') \<and> client_connections cl' 0 = Some k \<and>
    uc_senders (up_out (cc_plane (client_run (env_link demo_env) [ClientStep (AppSend m \<lparr>sq_data = [7], sq_destination = demo_address\<rparr>)] k))) ! m = s \<and>
    handle_bi_stream demo_env NoWake c fresh_writer \<lparr>pending = written (control s), ending = Finished\<rparr> = (Running, c1)"
proof -
  let ?c = "fst (projr (serve_start \<lparr>ip = V4 0, sport = 1\<rparr> JlsAuth (Some (Some \<lparr>jls_authenticated = Some True, jls_user = None\<rparr>)) (Some Bbr)))"
  let ?p = "\<lparr>sq_data = [7], sq_destination = demo_address\<rparr>" and ?r = "\<lparr>pending = [], ending = Finished\<rparr>"
  obtain bs where bs: "encode_address demo_address = Inr bs"
    using demo_encodable by blast
  obtain cl1 h1 where st: "connection_state plain_ops (\<lambda>_. False) (\<lambda>_. open_dial) (plain_client JlsClient) dial_heap = (Inr 0, cl1, h1)"
    using open_dial_state by blast
  then obtain k0 where "client_connections cl1 0 = Some k0"
    by (auto simp: connection_state_def plain_client_dials Let_def split: prod.splits sum.splits)
  with st bs obtain m cl' h' k where a: "client_associate plain_ops (\<lambda>_. False) (\<lambda>_. open_dial) (Inr (fresh_writer, ?r)) demo_address False
      (plain_client JlsClient) dial_heap = (Inr (0, m), cl', h')" "client_connections cl' 0 = Some k"
    by (simp add: client_associate_def quic_write_all_def accepts_def fresh_writer_def emit_def)
  have "wait_for_sunny_auth (sc_auth ?c) (sc_verdict ?c) NoWake = Some (Inr [])" "link_open (env_link demo_env)" "\<not> sc_app_gone ?c" "plane_inv (sc_plane ?c)"
    by (simp_all add: serve_start_def connection_user_def wait_for_sunny_auth_def link_open_def demo_env_def plane_inv_new)
  with squic_associate_end_to_end [OF a, where link = "env_link demo_env" and ps = "[?p]" and js = "[0]" and c = ?c and
      woken = NoWake and u = "[]" and env = demo_env and w = fresh_writer and e = Finished] bs
  obtain s c1 where "uc_senders (up_out (cc_plane (client_run (env_link demo_env) [ClientStep (AppSend m ?p)] k))) ! m = s"
      "handle_bi_stream demo_env NoWake ?c fresh_writer \<lparr>pending = written (control s), ending = Finished\<rparr> = (Running, c1)"
    by (fastforce simp: encodable_def UDP_CAPACITY_def)
  with a show ?thesis by blast
qed

end
